(* ===== verification/Fetch_Math.thy ===== *)
theory Fetch_Math
  imports Salty_Prelude "HOL-Library.Product_Lexorder" "HOL-Library.Multiset"
begin

text \<open>
  The counting arithmetic of a message fetch, \<^verbatim>\<open>backend/kafka/src/messages.rs\<close>:
  per-partition limits, the split of an overall budget over the partitions, start offsets,
  the payload byte budget and the number of consumer shards. A \<^verbatim>\<open>BTreeMap<i32, i64>\<close>
  is a sorted association list; a \<^verbatim>\<open>u32\<close> argument is a 32-bit word read with
  \<open>uint\<close>; \<^verbatim>\<open>i64\<close> differences go through \<open>i64\<close>, which wraps.
\<close>

section \<open>Definitions\<close>

definition DEFAULT_MESSAGE_CAP :: u32 where
  "DEFAULT_MESSAGE_CAP = 100"

definition effective_max_messages_per_partition :: "u32 option \<Rightarrow> u32" where
  "effective_max_messages_per_partition max_messages_per_partition =
     (case max_messages_per_partition of Some m \<Rightarrow> m | None \<Rightarrow> DEFAULT_MESSAGE_CAP)"

definition partition_limits ::
    "(int \<times> int) list \<Rightarrow> (int \<times> int) list \<Rightarrow> u32 option \<Rightarrow> (int \<times> int) list" where
  "partition_limits start_offsets end_offsets max_per_partition =
     (let cap = (case max_per_partition of Some m \<Rightarrow> uint m | None \<Rightarrow> i64_MAX)
      in map (\<lambda>(p, start).
           (p,
            let e = (case bt_get end_offsets p of Some e \<Rightarrow> e | None \<Rightarrow> start);
                available = max (i64 (e - start)) 0
            in min available cap)) start_offsets)"

text \<open>\<^verbatim>\<open>Ord::clamp\<close> panics when its bounds are the wrong way round: \<open>None\<close>.\<close>

definition clamp_offset :: "int \<Rightarrow> int \<Rightarrow> int \<Rightarrow> int option" where
  "clamp_offset offset low high =
     (if low \<le> high
      then Some (if offset < low then low else if high < offset then high else offset)
      else None)"

definition newest_first_start_offset :: "int \<Rightarrow> int \<Rightarrow> int \<Rightarrow> int" where
  "newest_first_start_offset low high cap = max (i64 (high - cap)) low"

text \<open>
  The first loop of \<^verbatim>\<open>distribute_total_budget\<close>: smallest window first, each partition
  takes the smaller of its window and an even share of what remains. \<open>sharers\<close> counts the
  partitions not yet served, so it is never 0 when a share is computed, and both operands of
  the division are positive there (Rust's truncating division and \<open>div\<close> agree).
\<close>

fun deal_shares ::
    "(int \<times> int) list \<Rightarrow> int \<Rightarrow> int \<Rightarrow> (int \<times> int) list \<Rightarrow> (int \<times> int) list \<times> int" where
  "deal_shares [] remaining sharers allocated = (allocated, remaining)"
| "deal_shares ((p, window) # rest) remaining sharers allocated =
     (if remaining \<le> 0 then (allocated, remaining)
      else let share = remaining div sharers;
               taken = min window share
           in deal_shares rest (remaining - taken) (sharers - 1) (bt_insert p taken allocated))"

text \<open>
  The second loop hands out what integer division left over, one message per partition.
  \<open>None\<close> is the panic of \<^verbatim>\<open>expect("every partition was seeded above")\<close>.
\<close>

fun hand_out_rest ::
    "(int \<times> int) list \<Rightarrow> int \<Rightarrow> (int \<times> int) list \<Rightarrow> (int \<times> int) list option" where
  "hand_out_rest [] remaining allocated = Some allocated"
| "hand_out_rest ((p, window) # rest) remaining allocated =
     (if remaining \<le> 0 then Some allocated
      else case bt_get allocated p of
        None \<Rightarrow> None
      | Some taken \<Rightarrow>
          if taken < window
          then hand_out_rest rest (remaining - 1) (bt_insert p (taken + 1) allocated)
          else hand_out_rest rest remaining allocated)"

definition by_window :: "(int \<times> int) list \<Rightarrow> (int \<times> int) list" where
  "by_window windows =
     sort_key (\<lambda>(p, window). (window, p))
       (map (\<lambda>(p, window). (p, max window 0)) windows)"

definition distribute_total_budget ::
    "(int \<times> int) list \<Rightarrow> u32 option \<Rightarrow> (int \<times> int) list option" where
  "distribute_total_budget windows max_total =
     (case max_total of
        None \<Rightarrow> Some windows
      | Some overall \<Rightarrow>
          let allocated = map (\<lambda>(p, window). (p, 0)) windows;
              order = by_window windows;
              (allocated, remaining) =
                deal_shares order (uint overall) (int (length order)) allocated
          in if remaining > 0 then hand_out_rest order remaining allocated
             else Some allocated)"

definition payload_preview_slice :: "byte list \<Rightarrow> u32 option \<Rightarrow> byte list" where
  "payload_preview_slice payload max_bytes =
     (case max_bytes of
        Some m \<Rightarrow> take (min (length payload) (unat m)) payload
      | None \<Rightarrow> payload)"

definition byte_budget_reached :: "nat \<Rightarrow> nat option \<Rightarrow> bool" where
  "byte_budget_reached bytes_read budget =
     (case budget of Some b \<Rightarrow> b \<le> bytes_read | None \<Rightarrow> False)"

definition budgeted_payload_bytes :: "nat \<Rightarrow> bool \<Rightarrow> nat" where
  "budgeted_payload_bytes payload_len include_payload = (if include_payload then payload_len else 0)"

definition MAX_FETCH_SHARDS :: nat where
  "MAX_FETCH_SHARDS = 8"

definition SHARD_PREFETCH_CEILING_BYTES :: nat where
  "SHARD_PREFETCH_CEILING_BYTES = 128 * 1024 * 1024"

definition per_shard_prefetch :: "u32 \<Rightarrow> nat" where
  "per_shard_prefetch max_message_size_bytes = max (unat max_message_size_bytes * 2) (8 * 1024 * 1024)"

definition fetch_shard_count :: "nat \<Rightarrow> u32 \<Rightarrow> nat" where
  "fetch_shard_count partitions_with_work max_message_size_bytes =
     (if partitions_with_work = 0 then 1
      else let affordable = max (SHARD_PREFETCH_CEILING_BYTES div per_shard_prefetch max_message_size_bytes) 1
           in min (min partitions_with_work MAX_FETCH_SHARDS) affordable)"

fun combined_start_offset :: "int option \<Rightarrow> int option \<Rightarrow> int option" where
  "combined_start_offset (Some a) (Some b) = Some (max a b)"
| "combined_start_offset (Some a) None = Some a"
| "combined_start_offset None (Some b) = Some b"
| "combined_start_offset None None = None"

section \<open>The fair split as a list function\<close>

text \<open>
  What the first loop takes from each partition, as a function of the sorted windows and the
  budget alone.
\<close>

fun fair_takes :: "int list \<Rightarrow> int \<Rightarrow> int list" where
  "fair_takes [] r = []"
| "fair_takes (w # ws) r =
     (let t = (if r \<le> 0 then 0 else min w (r div int (Suc (length ws))))
      in t # fair_takes ws (r - t))"

lemma length_fair_takes [simp]: "length (fair_takes ws r) = length ws"
  by (induction ws arbitrary: r) (simp_all add: Let_def)

lemma fair_takes_zero: "r \<le> 0 \<Longrightarrow> fair_takes ws r = replicate (length ws) 0"
  by (induction ws) simp_all

lemma fair_share_bounds:
  assumes "0 \<le> (r::int)"
  shows "0 \<le> r div int (Suc n)" and "r div int (Suc n) \<le> r"
    and "r - r div int (Suc n) \<le> int n * (r div int (Suc n) + 1)"
    and "int (Suc n) * (r div int (Suc n)) \<le> r"
proof -
  define q where "q = r div int (Suc n)"
  have pos: "0 < int (Suc n)" by simp
  have m: "r = int (Suc n) * q + r mod int (Suc n)" by (simp only: q_def mult_div_mod_eq)
  have m_lt: "r mod int (Suc n) < int (Suc n)" and m_ge: "0 \<le> r mod int (Suc n)"
    using pos by (rule pos_mod_bound, rule pos_mod_sign)
  show q: "0 \<le> r div int (Suc n)" using assms pos by (simp add: pos_imp_zdiv_nonneg_iff)
  have nq: "0 \<le> int n * q" using q by (simp add: q_def)
  have e: "int (Suc n) * q = q + int n * q" by (simp add: algebra_simps)
  show "int (Suc n) * (r div int (Suc n)) \<le> r" using m m_ge unfolding q_def by linarith
  show "r div int (Suc n) \<le> r" using m m_ge nq e unfolding q_def [symmetric] by linarith
  have "r - q \<le> int n * q + int n" using m m_lt e by linarith
  then show "r - r div int (Suc n) \<le> int n * (r div int (Suc n) + 1)"
    unfolding q_def [symmetric] by (simp add: algebra_simps)
qed

lemma fair_takes_bounds:
  "\<forall>w\<in>set ws. 0 \<le> w \<Longrightarrow> 0 \<le> r \<Longrightarrow> (w, t) \<in> set (zip ws (fair_takes ws r)) \<Longrightarrow> 0 \<le> t \<and> t \<le> w"
proof (induction ws arbitrary: r)
  case (Cons v ws)
  let ?q = "r div int (Suc (length ws))"
  let ?t = "if r \<le> 0 then 0 else min v ?q"
  have t: "0 \<le> ?t" "?t \<le> v" "0 \<le> r - ?t"
    using fair_share_bounds(1,2) [OF Cons.prems(2), of "length ws"] Cons.prems(1,2) by auto
  from Cons.prems(3) consider "w = v" "t = ?t" | "(w, t) \<in> set (zip ws (fair_takes ws (r - ?t)))"
    by (auto simp: Let_def)
  then show ?case using Cons.IH [of "r - ?t"] Cons.prems(1) t by cases auto
qed simp

text \<open>Whatever the windows can absorb is spent: no message of the budget is left over.\<close>

lemma sum_list_ge_length:
  "\<forall>w\<in>set ws. c \<le> w \<Longrightarrow> int (length ws) * c \<le> sum_list ws"
  by (induction ws) (auto simp: algebra_simps)

lemma sum_fair_takes:
  "sorted ws \<Longrightarrow> \<forall>w\<in>set ws. 0 \<le> w \<Longrightarrow> 0 \<le> r \<Longrightarrow> sum_list (fair_takes ws r) = min r (sum_list ws)"
proof (induction ws arbitrary: r)
  case (Cons w ws)
  let ?n = "length ws"
  let ?q = "r div int (Suc ?n)"
  note q = fair_share_bounds [OF Cons.prems(3), of ?n]
  have ws: "sorted ws" "\<forall>v\<in>set ws. 0 \<le> v" using Cons.prems by auto
  have nonneg: "0 \<le> w" "0 \<le> sum_list ws" using Cons.prems(2) by (auto intro: sum_list_nonneg)
  consider "r = 0" | "0 < r" "w \<le> ?q" | "0 < r" "?q < w" using Cons.prems(3) by linarith
  then show ?case
  proof cases
    case 1
    then show ?thesis using nonneg by (simp add: fair_takes_zero sum_list_replicate)
  next
    case 2
    then have "sum_list (fair_takes (w # ws) r) = w + min (r - w) (sum_list ws)"
      using Cons.IH [OF ws, of "r - w"] q(2) by (simp add: Let_def min_absorb1)
    then show ?thesis by (simp add: min_def)
  next
    case 3
    have "int ?n * (?q + 1) \<le> sum_list ws"
      using Cons.prems(1) 3 by (intro sum_list_ge_length) auto
    with q(3) have le: "r - ?q \<le> sum_list ws" by linarith
    have "sum_list (fair_takes (w # ws) r) = ?q + min (r - ?q) (sum_list ws)"
      using Cons.IH [OF ws, of "r - ?q"] q(2) 3 by (simp add: Let_def min_absorb2)
    then show ?thesis using le 3 by (simp add: min_def)
  qed
qed simp

lemma fair_takes_full:
  assumes "\<forall>w\<in>set ws. 0 \<le> w" and "0 \<le> r" and "sum_list (fair_takes ws r) = sum_list ws"
  shows "fair_takes ws r = ws"
proof -
  have pointwise: "ts = ws"
    if "length ts = length ws" "\<forall>(w, t)\<in>set (zip ws ts). t \<le> w" "sum_list ts = sum_list ws"
    for ts :: "int list"
    using that
  proof (induction ts ws rule: list_induct2)
    case (Cons t ts w ws)
    have "sum_list ts \<le> sum_list ws"
      using Cons.hyps Cons.prems(1) by (induction ts ws rule: list_induct2) auto
    with Cons show ?case by auto
  qed simp
  show ?thesis
    using assms fair_takes_bounds [OF assms(1,2)] by (intro pointwise) auto
qed

text \<open>
  Fairness: nothing after an unmet window takes more than one message more than it, and
  nothing before it takes more than it.
\<close>

lemma fair_takes_le:
  "\<forall>w\<in>set ws. c \<le> w \<Longrightarrow> 0 \<le> r \<Longrightarrow> r \<le> int (length ws) * c \<Longrightarrow> t \<in> set (fair_takes ws r) \<Longrightarrow> 0 \<le> c \<Longrightarrow> t \<le> c"
proof (induction ws arbitrary: r)
  case (Cons w ws)
  let ?n = "length ws"
  let ?q = "r div int (Suc ?n)"
  note q = fair_share_bounds [OF Cons.prems(2), of ?n]
  have le: "?q \<le> c"
    using Cons.prems(3) zdiv_mono1 [of r "int (Suc ?n) * c" "int (Suc ?n)"] by simp
  show ?case
  proof (cases "r \<le> 0")
    case True
    then show ?thesis using Cons.prems by (auto simp: Let_def fair_takes_zero)
  next
    case False
    have t: "fair_takes (w # ws) r = ?q # fair_takes ws (r - ?q)"
      using False le Cons.prems(1) by (simp add: Let_def min_absorb2)
    have "r - ?q \<le> int ?n * c"
    proof (cases "?q = c")
      case True
      then show ?thesis using Cons.prems(3) by (simp add: algebra_simps)
    next
      case False
      then have "int ?n * (?q + 1) \<le> int ?n * c" using le by (intro mult_left_mono) auto
      then show ?thesis using q(3) by linarith
    qed
    then show ?thesis using Cons.IH [of "r - ?q"] Cons.prems t le q(2) by auto
  qed
qed simp

lemma fair_takes_ge:
  "sorted ws \<Longrightarrow> \<forall>w\<in>set ws. 0 \<le> w \<Longrightarrow> 0 \<le> r \<Longrightarrow> c \<le> r div int (length ws)
    \<Longrightarrow> (w, t) \<in> set (zip ws (fair_takes ws r)) \<Longrightarrow> min w c \<le> t"
proof (induction ws arbitrary: r)
  case (Cons v ws)
  let ?n = "length ws"
  let ?q = "r div int (Suc ?n)"
  let ?t = "if r \<le> 0 then 0 else min v ?q"
  note q = fair_share_bounds [OF Cons.prems(3), of ?n]
  have c: "c \<le> ?q" using Cons.prems(4) by simp
  from Cons.prems(5) consider "w = v" "t = ?t" | "(w, t) \<in> set (zip ws (fair_takes ws (r - ?t)))"
    by (auto simp: Let_def)
  then show ?case
  proof cases
    case 1
    then show ?thesis using c q Cons.prems(3) by auto
  next
    case 2
    then have n: "0 < ?n" by (cases ws) auto
    have "int ?n * ?q \<le> r - ?t" using q(4) q(1,2) Cons.prems(3) by (auto simp: algebra_simps)
    then have "?q \<le> (r - ?t) div int ?n"
      using n zdiv_mono1 [of "int ?n * ?q" "r - ?t" "int ?n"] by simp
    with c have le: "c \<le> (r - ?t) div int ?n" by linarith
    have ge: "0 \<le> r - ?t" using q(1,2) Cons.prems(3) by auto
    show ?thesis using Cons.IH [OF _ _ ge le 2] Cons.prems(1,2) by simp
  qed
qed simp

lemma fair_takes_fair:
  "sorted ws \<Longrightarrow> \<forall>w\<in>set ws. 0 \<le> w \<Longrightarrow> 0 \<le> r
    \<Longrightarrow> (w, t) \<in> set (zip ws (fair_takes ws r)) \<Longrightarrow> t < w \<Longrightarrow> u \<in> set (fair_takes ws r) \<Longrightarrow> u \<le> t + 1"
proof (induction ws arbitrary: r)
  case (Cons v ws)
  let ?n = "length ws"
  let ?q = "r div int (Suc ?n)"
  note q = fair_share_bounds [OF Cons.prems(3), of ?n]
  show ?case
  proof (cases "r \<le> 0")
    case True
    then show ?thesis
      using set_zip_rightD [OF Cons.prems(4)] Cons.prems(6)
      by (auto simp: fair_takes_zero simp del: fair_takes.simps)
  next
    case False
    let ?t = "min v ?q"
    have ge: "0 \<le> r - ?t" using q(1,2) by linarith
    have takes: "fair_takes (v # ws) r = ?t # fair_takes ws (r - ?t)" using False by (simp add: Let_def)
    have ws: "sorted ws" "\<forall>w\<in>set ws. 0 \<le> w" "\<forall>w\<in>set ws. v \<le> w" using Cons.prems(1,2) by auto
    consider "w = v" "t = ?t" "u = ?t" | "w = v" "t = ?t" "u \<in> set (fair_takes ws (r - ?t))"
      | "(w, t) \<in> set (zip ws (fair_takes ws (r - ?t)))" "u = ?t"
      | "(w, t) \<in> set (zip ws (fair_takes ws (r - ?t)))" "u \<in> set (fair_takes ws (r - ?t))"
      using Cons.prems(4,6) unfolding takes by auto
    then show ?thesis
    proof cases
      case 2
      then have t: "t = ?q" "?q < v" using Cons.prems(5) by auto
      then have "\<forall>w\<in>set ws. ?q + 1 \<le> w" "r - ?t \<le> int ?n * (?q + 1)" using ws(3) q(3) by auto
      then show ?thesis using fair_takes_le [OF _ ge _ 2(3)] t q(1) by simp
    next
      case 3
      then have n: "0 < ?n" by (cases ws) auto
      have "int ?n * ?q \<le> r - ?t" using q(4) by (simp add: algebra_simps)
      then have "?q \<le> (r - ?t) div int ?n"
        using n zdiv_mono1 [of "int ?n * ?q" "r - ?t" "int ?n"] by simp
      then have "min w ?q \<le> t" using fair_takes_ge [OF ws(1,2) ge _ 3(1)] by blast
      moreover have "v \<le> w" using ws(3) set_zip_leftD [OF 3(1)] by blast
      ultimately show ?thesis using 3(2) by linarith
    next
      case 4
      then show ?thesis using Cons.IH [OF ws(1,2) ge] Cons.prems(5) by blast
    qed simp
  qed
qed simp

section \<open>The budget split computes the fair takes\<close>

lemma bt_ok_deal_shares:
  "deal_shares ord r n alloc = (al, left) \<Longrightarrow> bt_ok alloc \<Longrightarrow> bt_ok al"
  by (induction ord r n alloc rule: deal_shares.induct) (auto simp: Let_def split: if_splits)

lemma map_of_zip_replicate:
  "map_of (zip ks (replicate (length ks) c)) = (\<lambda>k. if k \<in> set ks then Some c else None)"
  by (induction ks) auto

lemma deal_shares_takes:
  "distinct (map fst ord) \<Longrightarrow> \<forall>p\<in>fst ` set ord. bt_get alloc p = Some 0
    \<Longrightarrow> deal_shares ord r (int (length ord)) alloc = (al, left)
    \<Longrightarrow> bt_get al = bt_get alloc ++ bt_get (zip (map fst ord) (fair_takes (map snd ord) r))
      \<and> left = r - sum_list (fair_takes (map snd ord) r)"
proof (induction ord arbitrary: r alloc)
  case (Cons x ord)
  obtain p w where x: "x = (p, w)" by (cases x)
  show ?case
  proof (cases "r \<le> 0")
    case True
    have "bt_get (zip (map fst (x # ord)) (replicate (length (x # ord)) (0::int))) k
        = (if k \<in> fst ` set (x # ord) then Some 0 else None)" for k
      by (simp only: map_of_zip_replicate [of "map fst (x # ord)", unfolded length_map] set_map)
    then show ?thesis
      using True Cons.prems fair_takes_zero [of r "map snd (x # ord)"]
      by (auto simp: x fun_eq_iff map_add_def sum_list_replicate simp del: fair_takes.simps split: option.splits)
  next
    case False
    let ?t = "min w (r div int (Suc (length ord)))"
    have deal: "deal_shares ord (r - ?t) (int (length ord)) (bt_insert p ?t alloc) = (al, left)"
      using Cons.prems(3) False by (simp add: x Let_def algebra_simps)
    have seeded: "\<forall>q\<in>fst ` set ord. bt_get (bt_insert p ?t alloc) q = Some 0"
      using Cons.prems(1,2) by (auto simp: x)
    have "p \<notin> dom (bt_get (zip (map fst ord) (fair_takes (map snd ord) (r - ?t))))"
      using Cons.prems(1) by (simp add: x)
    then show ?thesis
      using Cons.IH [OF _ seeded deal] Cons.prems(1) False
      by (auto simp: x Let_def fun_eq_iff map_add_def split: option.splits dest: set_zip_leftD)
  qed
qed simp

lemma hand_out_rest_full:
  "\<forall>(p, w)\<in>set ord. bt_get al p = Some w \<Longrightarrow> hand_out_rest ord r al = Some al"
  by (induction ord arbitrary: r) auto

lemma by_window_props:
  assumes "bt_ok windows"
  shows "distinct (map fst (by_window windows))"
    and "sorted (map snd (by_window windows))"
    and "\<forall>w\<in>set (map snd (by_window windows)). 0 \<le> w"
    and "fst ` set (by_window windows) = fst ` set windows"
    and "(p, v) \<in> set (by_window windows) \<longleftrightarrow> (\<exists>w. bt_get windows p = Some w \<and> v = max w 0)"
    and "sum_list (map snd (by_window windows)) = (\<Sum>(p, w)\<leftarrow>windows. max w 0)"
    and "length (by_window windows) = length windows"
proof -
  let ?ws = "map (\<lambda>(p, window). (p, max window 0)) windows"
  have ws: "mset (by_window windows) = mset ?ws" by (simp add: by_window_def)
  have keys: "map fst ?ws = map fst windows" by (induction windows) auto
  have dist: "distinct (map fst windows)" using assms by (rule bt_ok_distinct)
  have "mset (map fst (by_window windows)) = mset (map fst windows)"
    using ws keys by (metis mset_map)
  then show "distinct (map fst (by_window windows))"
    using dist by (metis mset_eq_imp_distinct_iff)
  have set_ws: "set (by_window windows) = set ?ws" using ws by (metis set_mset_mset)
  show "fst ` set (by_window windows) = fst ` set windows"
    using set_ws keys by (metis set_map)
  show "\<forall>w\<in>set (map snd (by_window windows)). 0 \<le> w" using set_ws by auto
  show "(p, v) \<in> set (by_window windows) \<longleftrightarrow> (\<exists>w. bt_get windows p = Some w \<and> v = max w 0)"
    using set_ws dist by (auto simp: map_of_eq_Some_iff)
  have "mset (map snd (by_window windows)) = mset (map snd ?ws)" using ws by (metis mset_map)
  then have "sum_list (map snd (by_window windows)) = sum_list (map snd ?ws)"
    by (metis sum_mset_sum_list)
  also have "\<dots> = (\<Sum>(p, w)\<leftarrow>windows. max w 0)" by (induction windows) auto
  finally show "sum_list (map snd (by_window windows)) = (\<Sum>(p, w)\<leftarrow>windows. max w 0)" .
  have "sorted (map (\<lambda>(p, window). (window, p)) (by_window windows))"
    by (simp add: by_window_def)
  moreover have "sorted (map (\<lambda>(p, window). (window, p)) xs) \<Longrightarrow> sorted (map snd xs)"
    for xs :: "(int \<times> int) list"
    by (induction xs) (auto simp: less_eq_prod_def split: prod.splits dest!: bspec)
  ultimately show "sorted (map snd (by_window windows))" by blast
  show "length (by_window windows) = length windows" by (simp add: by_window_def)
qed

lemma deal_shares_exhausts:
  assumes "bt_ok windows" and "bt_get al = bt_get (zip (map fst (by_window windows)) takes)"
    and "takes = fair_takes (map snd (by_window windows)) r" and "0 \<le> r" and "0 < r - sum_list takes"
  shows "hand_out_rest (by_window windows) left al = Some al"
proof (rule hand_out_rest_full, clarify)
  note ord = by_window_props [OF assms(1)]
  fix p w assume pw: "(p, w) \<in> set (by_window windows)"
  have sum: "sum_list takes = sum_list (map snd (by_window windows))"
    using sum_fair_takes [OF ord(2,3) assms(4)] assms(3,5) by (simp add: min_def split: if_splits)
  have full: "takes = map snd (by_window windows)"
    using fair_takes_full [OF ord(3) assms(4)] sum assms(3) by simp
  show "bt_get al p = Some w"
    using pw ord(1) by (simp add: assms(2) full zip_map_fst_snd)
qed

lemma deal_shares_get:
  assumes "bt_ok windows"
    and "deal_shares (by_window windows) r (int (length (by_window windows)))
           (map (\<lambda>(p, w). (p, 0)) windows) = (al, left)"
  shows "bt_get al = bt_get (zip (map fst (by_window windows)) (fair_takes (map snd (by_window windows)) r))"
    and "left = r - sum_list (fair_takes (map snd (by_window windows)) r)"
    and "bt_ok al"
proof -
  let ?ord = "by_window windows"
  let ?takes = "fair_takes (map snd ?ord) r"
  let ?zero = "map (\<lambda>(p, w). (p, 0)) windows"
  note ord = by_window_props [OF assms(1)]
  have zero: "bt_get ?zero k = (if k \<in> fst ` set windows then Some (0::int) else None)" for k
    by (induction windows) auto
  have seeded: "\<forall>p\<in>fst ` set ?ord. bt_get ?zero p = Some (0::int)"
    using zero ord(4) by simp
  have al: "bt_get al = bt_get ?zero ++ bt_get (zip (map fst ?ord) ?takes)"
    and left: "left = r - sum_list ?takes"
    using deal_shares_takes [OF ord(1) seeded assms(2)] by auto
  have "bt_get (zip (map fst ?ord) ?takes) k = None \<longleftrightarrow> k \<notin> fst ` set windows" for k
    using ord(4) by (simp add: map_of_zip_is_None)
  then show "bt_get al = bt_get (zip (map fst ?ord) ?takes)"
    unfolding al by (intro ext) (auto simp: map_add_def zero eq_commute [of None] split: option.splits)
  show "left = r - sum_list ?takes" by (rule left)
  show "bt_ok al"
    using bt_ok_deal_shares [OF assms(2)] bt_ok_map_values [of "\<lambda>_ _. 0::int" windows] assms(1) by simp
qed

lemma distribute_total_budget_spec:
  assumes "bt_ok windows"
  shows "\<exists>al. distribute_total_budget windows (Some m) = Some al \<and> bt_ok al
    \<and> bt_get al = bt_get (zip (map fst (by_window windows)) (fair_takes (map snd (by_window windows)) (uint m)))"
proof -
  let ?ord = "by_window windows"
  obtain al left where deal: "deal_shares ?ord (uint m) (int (length ?ord))
      (map (\<lambda>(p, w). (p, 0)) windows) = (al, left)"
    by fastforce
  note spec = deal_shares_get [OF assms deal]
  have "hand_out_rest ?ord left al = Some al" if "0 < left"
    using deal_shares_exhausts [OF assms spec(1) refl] spec(2) that by simp
  then have "distribute_total_budget windows (Some m) = Some al"
    using deal by (simp add: distribute_total_budget_def)
  with spec show ?thesis by blast
qed

lemma distribute_total_budget_keys:
  assumes "bt_ok windows" and "distribute_total_budget windows m = Some al"
  shows "map fst al = map fst windows"
proof (cases m)
  case (Some b)
  note ord = by_window_props [OF assms(1)]
  obtain al' where al': "distribute_total_budget windows (Some b) = Some al'" "bt_ok al'"
    "bt_get al' = bt_get (zip (map fst (by_window windows)) (fair_takes (map snd (by_window windows)) (uint b)))"
    using distribute_total_budget_spec [OF assms(1)] by blast
  have "fst ` set al' = dom (bt_get al')" by (simp add: dom_map_of_conv_image_fst)
  also have "\<dots> = fst ` set windows" using al'(3) ord(1,4) by simp
  finally show ?thesis
    using al'(1,2) assms Some by (intro strict_sorted_equal) (auto simp: bt_ok_def)
qed (use assms in \<open>simp add: distribute_total_budget_def\<close>)

text \<open>The allocation of a partition is the fair take at its place in the order.\<close>

lemma distribute_total_budget_get:
  assumes "bt_ok windows" and "distribute_total_budget windows (Some m) = Some al" and "bt_get al p = Some t"
    and "bt_get windows p = Some w"
  shows "(max w 0, t) \<in> set (zip (map snd (by_window windows)) (fair_takes (map snd (by_window windows)) (uint m)))"
proof -
  let ?ord = "by_window windows"
  let ?takes = "fair_takes (map snd ?ord) (uint m)"
  note ord = by_window_props [OF assms(1)]
  have "bt_get al = bt_get (zip (map fst ?ord) ?takes)"
    using distribute_total_budget_spec [OF assms(1), of m] assms(2) by auto
  then have "(p, t) \<in> set (zip (map fst ?ord) ?takes)"
    using assms(3) map_of_SomeD [of "zip (map fst ?ord) ?takes" p t] by simp
  then obtain i where i: "i < length ?ord" "fst (?ord ! i) = p" "?takes ! i = t"
    by (auto simp: in_set_zip)
  have "(p, max w 0) \<in> set ?ord" using ord(5) assms(4) by blast
  then have "snd (?ord ! i) = max w 0"
    using i(1,2) ord(1) by (metis eq_key_imp_eq_value nth_mem prod.collapse)
  then show ?thesis using i(1,3) by (force simp: in_set_zip)
qed

lemma distribute_total_budget_exact:
  assumes "bt_ok windows"
  shows "\<exists>al. distribute_total_budget windows (Some m) = Some al
    \<and> map fst al = map fst windows
    \<and> sum_list (map snd al) = min (uint m) (\<Sum>(p, w)\<leftarrow>windows. max w 0)
    \<and> (\<forall>p w t. bt_get windows p = Some w \<and> bt_get al p = Some t \<longrightarrow> 0 \<le> t \<and> t \<le> max w 0)"
proof -
  let ?ord = "by_window windows"
  let ?takes = "fair_takes (map snd ?ord) (uint m)"
  note ord = by_window_props [OF assms]
  obtain al where al: "distribute_total_budget windows (Some m) = Some al" "bt_ok al"
    "bt_get al = bt_get (zip (map fst ?ord) ?takes)"
    using distribute_total_budget_spec [OF assms] by blast
  note keys = distribute_total_budget_keys [OF assms al(1)]
  have "sum_list (map snd al) = (\<Sum>k\<in>fst ` set al. the (bt_get al k))"
    using al(2) by (intro sum_list_map_of bt_ok_distinct)
  also have "fst ` set al = set (map fst (zip (map fst ?ord) ?takes))"
    using keys ord(4) by (metis length_fair_takes length_map map_fst_zip set_map)
  also have "(\<Sum>k\<in>\<dots>. the (bt_get al k)) = sum_list (map snd (zip (map fst ?ord) ?takes))"
    unfolding al(3) set_map using ord(1) by (intro sum_list_map_of [symmetric]) simp
  also have "\<dots> = min (uint m) (\<Sum>(p, w)\<leftarrow>windows. max w 0)"
    using sum_fair_takes [OF ord(2,3), of "uint m"] ord(6) by simp
  finally have "sum_list (map snd al) = min (uint m) (\<Sum>(p, w)\<leftarrow>windows. max w 0)" .
  moreover have "0 \<le> t \<and> t \<le> max w 0" if "bt_get windows p = Some w" "bt_get al p = Some t" for p w t
    using fair_takes_bounds [OF ord(3) _ distribute_total_budget_get [OF assms al(1) that(2,1)]] by simp
  ultimately show ?thesis using al(1) keys by blast
qed

section \<open>Properties\<close>

text \<open>C37: Splitting an overall budget never panics, keeps every partition, gives each one between
  zero and its window, and spends exactly the budget (or everything there is, when that is less):
  a small budget is neither overspent nor wasted on partitions that cannot use their share.\<close>
theorem budget_split_exact:
  assumes "bt_ok windows"
  shows "\<exists>al. distribute_total_budget windows (Some m) = Some al
    \<and> map fst al = map fst windows
    \<and> sum_list (map snd al) = min (uint m) (\<Sum>(p, w)\<leftarrow>windows. max w 0)
    \<and> (\<forall>p w t. bt_get windows p = Some w \<and> bt_get al p = Some t \<longrightarrow> 0 \<le> t \<and> t \<le> max w 0)"
  using assms by (rule distribute_total_budget_exact)

theorem budget_split_exact_witness:
  "\<exists>al. distribute_total_budget [(0, 5), (1, -2), (2, 40)] (Some 10) = Some al
    \<and> map fst al = [0, 1, 2] \<and> sum_list (map snd al) = 10"
  using budget_split_exact [of "[(0, 5), (1, -2), (2, 40)]" 10] by (auto simp: bt_ok_def)

text \<open>The split is fair: a partition that is given less than its window is at most one message
  short of every other partition, so no partition's history is read before another's newest messages.\<close>
theorem budget_split_fair:
  assumes "bt_ok windows" and "distribute_total_budget windows (Some m) = Some al"
    and "bt_get windows p = Some w" and "bt_get al p = Some t" and "t < w"
    and "bt_get al q = Some u"
  shows "u \<le> t + 1"
proof -
  let ?ws = "map snd (by_window windows)"
  note ord = by_window_props [OF assms(1)]
  have "q \<in> fst ` set windows"
    using distribute_total_budget_keys [OF assms(1,2)] assms(6)
    by (metis list.set_map map_of_eq_None_iff option.distinct(1))
  then obtain v where v: "bt_get windows q = Some v" by (metis map_of_eq_None_iff not_None_eq)
  have "(max w 0, t) \<in> set (zip ?ws (fair_takes ?ws (uint m)))"
    by (rule distribute_total_budget_get [OF assms(1,2,4,3)])
  moreover have "u \<in> set (fair_takes ?ws (uint m))"
    using distribute_total_budget_get [OF assms(1,2,6) v] by (rule set_zip_rightD)
  ultimately show ?thesis using fair_takes_fair [OF ord(2,3)] assms(5) by fastforce
qed

theorem budget_split_fair_witness: "(4::int) \<le> 3 + 1"
  by (rule budget_split_fair [of "[(0, 9), (1, 9)]" 7 "[(0, 3), (1, 4)]" 0 9 3 1 4])
    (simp_all add: bt_ok_def distribute_total_budget_def by_window_def Let_def sort_key_def insort_key_def)

text \<open>The second loop of the split, which is there to hand out what integer division leaves
  unspent, never changes an allocation: each partition's share is recomputed from what is left, so
  messages remain only once every partition has its whole window.\<close>
theorem surplus_loop_idle:
  assumes "bt_ok windows"
    and "deal_shares (by_window windows) (uint (m :: u32)) (int (length windows))
           (map (\<lambda>(p, w). (p, 0)) windows) = (al, left)"
    and "0 < left"
  shows "hand_out_rest (by_window windows) left al = Some al"
proof -
  note ord = by_window_props [OF assms(1)]
  have deal: "deal_shares (by_window windows) (uint m) (int (length (by_window windows)))
      (map (\<lambda>(p, w). (p, 0)) windows) = (al, left)"
    using assms(2) by (simp add: ord(7))
  note spec = deal_shares_get [OF assms(1) deal]
  show ?thesis using deal_shares_exhausts [OF assms(1) spec(1) refl] spec(2) assms(3) by simp
qed

theorem surplus_loop_idle_witness:
  "hand_out_rest (by_window [(0, 3), (1, 1)]) 5 [(0, 3), (1, 1)] = Some [(0, 3), (1, 1)]"
  by (rule surplus_loop_idle [where m = 9])
    (simp_all add: bt_ok_def by_window_def Let_def sort_key_def insort_key_def)

text \<open>A fetch is spread over one to eight consumers, never more than there are partitions with
  work, and their prefetch queues together stay under the 128 MiB ceiling unless a single consumer's
  queue alone exceeds it.\<close>
theorem fetch_shard_count_bounds:
  assumes "0 < n" and "c = fetch_shard_count n max_size"
  shows "1 \<le> c \<and> c \<le> min n MAX_FETCH_SHARDS
    \<and> (c * per_shard_prefetch max_size \<le> SHARD_PREFETCH_CEILING_BYTES \<or> c = 1)"
proof -
  let ?each = "per_shard_prefetch max_size"
  define fit where "fit = SHARD_PREFETCH_CEILING_BYTES div ?each"
  have c: "c = min (min n MAX_FETCH_SHARDS) (max fit 1)"
    using assms by (simp add: fetch_shard_count_def fit_def Let_def)
  have "c * ?each \<le> SHARD_PREFETCH_CEILING_BYTES \<or> c = 1"
  proof (cases "1 \<le> fit")
    case True
    then have "c * ?each \<le> fit * ?each" by (intro mult_right_mono) (simp_all add: c)
    also have "\<dots> \<le> SHARD_PREFETCH_CEILING_BYTES" by (simp add: fit_def)
    finally show ?thesis by simp
  next
    case False
    then show ?thesis using assms(1) by (simp add: c MAX_FETCH_SHARDS_def)
  qed
  then show ?thesis using assms(1) by (auto simp: c MAX_FETCH_SHARDS_def)
qed

theorem fetch_shard_count_bounds_witness:
  "1 \<le> fetch_shard_count 25 1048576 \<and> fetch_shard_count 25 1048576 \<le> 8"
  using fetch_shard_count_bounds [of 25 _ 1048576] by (simp add: MAX_FETCH_SHARDS_def)

end
