(* ===== verification/App_Error.thy ===== *)
theory App_Error
  imports Salty_Prelude
begin

text \<open>
  The error values of the program: \<^verbatim>\<open>AppError\<close> (\<^verbatim>\<open>backend/core/src/error.rs\<close>), the report that
  carries one through the layers, its rendering for the user
  (\<^verbatim>\<open>src-tauri/src/commands/connections.rs\<close>), and the two classifiers of authentication
  failures (\<^verbatim>\<open>backend/core/src/auth.rs\<close>, \<^verbatim>\<open>backend/kafka/src/auth.rs\<close>).
\<close>

section \<open>Definitions\<close>

datatype app_error =
  Db | Kafka | Secrets | Validation | NotFound | Zookeeper | SchemaRegistry | Decode
  | Authentication | Authorization

fun display_error :: "app_error \<Rightarrow> string" where
  "display_error Db = ''database error''"
| "display_error Kafka = ''kafka error''"
| "display_error Secrets = ''secrets store error''"
| "display_error Validation = ''validation error''"
| "display_error NotFound = ''not found''"
| "display_error Zookeeper = ''zookeeper error''"
| "display_error SchemaRegistry = ''schema registry error''"
| "display_error Decode = ''payload decode error''"
| "display_error Authentication = ''authentication error''"
| "display_error Authorization = ''authorization error''"

text \<open>
  An \<^verbatim>\<open>error_stack::Report<AppError>\<close>: its current context and its printable attachments,
  newest first, which is the order its frames are visited in. Replacing the context keeps the
  attachments.
\<close>

record report =
  current_context :: app_error
  attachments :: "string list"

definition new_report :: "app_error \<Rightarrow> report" where
  "new_report e = \<lparr>current_context = e, attachments = []\<rparr>"

definition attach :: "string \<Rightarrow> report \<Rightarrow> report" where
  "attach text r = r\<lparr>attachments := text # attachments r\<rparr>"

definition fail_with :: "app_error \<Rightarrow> string \<Rightarrow> report" where
  "fail_with e text = attach text (new_report e)"

definition report_reasons :: "report \<Rightarrow> string" where
  "report_reasons r = str_join '': '' (attachments r)"

definition format_report :: "report \<Rightarrow> string" where
  "format_report r =
     (let parts = [display_error (current_context r)] @ [report_reasons r]
      in str_join '': '' (filter (\<lambda>part. part \<noteq> []) parts))"

definition AUTH_FAILURE_REASONS :: "string list" where
  "AUTH_FAILURE_REASONS =
     [''authentication failed'',
      ''authentication error'',
      ''sasl authentication'',
      ''invalid username or password'',
      ''unsupported sasl mechanism'',
      ''ssl handshake failed'',
      ''certificate verify failed'']"

definition is_auth_failure_reason :: "string \<Rightarrow> bool" where
  "is_auth_failure_reason reason =
     (let reason = lowercase reason
      in list_ex (\<lambda>fragment. str_contains reason fragment) AUTH_FAILURE_REASONS)"

text \<open>
  The error codes of the client library that the code tells apart; any other code, and an error
  that carries none, is \<open>RD_Other\<close>.
\<close>

datatype rd_code =
  RD_Authentication | RD_SaslAuthenticationFailed
  | RD_TopicAuthorizationFailed | RD_ClusterAuthorizationFailed
  | RD_GroupAuthorizationFailed | RD_TransactionalIdAuthorizationFailed
  | RD_MessageSizeTooLarge | RD_UnknownTopicOrPartition | RD_UnknownTopic | RD_UnknownPartition
  | RD_InvalidPartitions | RD_MessageBatchTooLarge | RD_InvalidRecord | RD_InvalidMessage
  | RD_InvalidMessageSize | RD_Other nat

text \<open>An error of the client library: its code, when it carries one, and its text.\<close>

record kafka_error =
  rdkafka_error_code :: "rd_code option"
  error_text :: string

definition is_auth_failure :: "kafka_error option \<Rightarrow> string option \<Rightarrow> bool" where
  "is_auth_failure err reason =
     (let code_says_auth =
            (case Option.bind err rdkafka_error_code of
               Some RD_Authentication \<Rightarrow> True
             | Some RD_SaslAuthenticationFailed \<Rightarrow> True
             | _ \<Rightarrow> False)
      in code_says_auth \<or> (case reason of Some r \<Rightarrow> is_auth_failure_reason r | None \<Rightarrow> False))"

end
