(* ===== verification/Registry.thy ===== *)
theory Registry
  imports App_Error
begin

text \<open>
  \<^verbatim>\<open>backend/core/src/registry.rs\<close>: which connections are live, how often each had its
  credentials rejected (the circuit breaker), and which topics each was refused write access to.
  Every method is one operation on the record \<open>registry\<close>.
\<close>

section \<open>Definitions\<close>

definition MAX_AUTH_ATTEMPTS :: nat where
  "MAX_AUTH_ATTEMPTS = 2"

record auth_failure =
  attempts :: nat
  reason :: string

record registry =
  connected :: "string set"
  auth_failures :: "string \<rightharpoonup> auth_failure"
  write_denials :: "string \<times> string \<rightharpoonup> string"

definition empty_registry :: registry where
  "empty_registry = \<lparr>connected = {}, auth_failures = Map.empty, write_denials = Map.empty\<rparr>"

definition mark_connected :: "string \<Rightarrow> registry \<Rightarrow> registry" where
  "mark_connected connection_id s = s\<lparr>connected := insert connection_id (connected s)\<rparr>"

definition clear_write_denials :: "string \<Rightarrow> registry \<Rightarrow> registry" where
  "clear_write_denials connection_id s =
     s\<lparr>write_denials := (\<lambda>k. if fst k \<noteq> connection_id then write_denials s k else None)\<rparr>"

definition mark_disconnected :: "string \<Rightarrow> registry \<Rightarrow> registry" where
  "mark_disconnected connection_id s =
     clear_write_denials connection_id (s\<lparr>connected := connected s - {connection_id}\<rparr>)"

definition is_connected :: "string \<Rightarrow> registry \<Rightarrow> bool" where
  "is_connected connection_id s \<longleftrightarrow> connection_id \<in> connected s"

definition record_auth_failure :: "string \<Rightarrow> string \<Rightarrow> registry \<Rightarrow> registry" where
  "record_auth_failure connection_id why s =
     (let entry = (case auth_failures s connection_id of
                     Some e \<Rightarrow> e
                   | None \<Rightarrow> \<lparr>attempts = 0, reason = []\<rparr>);
          entry = entry\<lparr>attempts := sat_add 32 (attempts entry) 1\<rparr>;
          entry = entry\<lparr>reason := why\<rparr>;
          s = s\<lparr>auth_failures := (auth_failures s)(connection_id \<mapsto> entry)\<rparr>;
          blocked = MAX_AUTH_ATTEMPTS \<le> attempts entry
      in if blocked then mark_disconnected connection_id s else s)"

definition clear_auth_failures :: "string \<Rightarrow> registry \<Rightarrow> registry" where
  "clear_auth_failures connection_id s =
     clear_write_denials connection_id
       (s\<lparr>auth_failures := (auth_failures s)(connection_id := None)\<rparr>)"

definition record_auth_success :: "string \<Rightarrow> registry \<Rightarrow> registry" where
  "record_auth_success connection_id s = clear_auth_failures connection_id s"

definition auth_block_reason :: "string \<Rightarrow> registry \<Rightarrow> string option" where
  "auth_block_reason connection_id s =
     (case auth_failures s connection_id of
        Some failures \<Rightarrow> if MAX_AUTH_ATTEMPTS \<le> attempts failures then Some (reason failures) else None
      | None \<Rightarrow> None)"

definition record_write_denied :: "string \<Rightarrow> string \<Rightarrow> string \<Rightarrow> registry \<Rightarrow> registry" where
  "record_write_denied connection_id topic why s =
     s\<lparr>write_denials := (write_denials s)((connection_id, topic) \<mapsto> why)\<rparr>"

definition write_denied_reason :: "string \<Rightarrow> string \<Rightarrow> registry \<Rightarrow> string option" where
  "write_denied_reason connection_id topic s = write_denials s (connection_id, topic)"

text \<open>A call of one of the methods, as the callers of the registry interleave them.\<close>

datatype registry_event =
  Connected string | Disconnected string | AuthFailed string string | AuthSucceeded string
  | Cleared string | WriteDenied string string string

fun apply_event :: "registry_event \<Rightarrow> registry \<Rightarrow> registry" where
  "apply_event (Connected i) = mark_connected i"
| "apply_event (Disconnected i) = mark_disconnected i"
| "apply_event (AuthFailed i why) = record_auth_failure i why"
| "apply_event (AuthSucceeded i) = record_auth_success i"
| "apply_event (Cleared i) = clear_auth_failures i"
| "apply_event (WriteDenied i topic why) = record_write_denied i topic why"

fun event_connection :: "registry_event \<Rightarrow> string" where
  "event_connection (Connected i) = i"
| "event_connection (Disconnected i) = i"
| "event_connection (AuthFailed i why) = i"
| "event_connection (AuthSucceeded i) = i"
| "event_connection (Cleared i) = i"
| "event_connection (WriteDenied i topic why) = i"

text \<open>What an event says about the credentials of a connection: rejected, or cleared.\<close>

fun credential_verdict :: "registry_event \<Rightarrow> (string \<times> string option) option" where
  "credential_verdict (AuthFailed i why) = Some (i, Some why)"
| "credential_verdict (AuthSucceeded i) = Some (i, None)"
| "credential_verdict (Cleared i) = Some (i, None)"
| "credential_verdict _ = None"

definition auth_attempts :: "string \<Rightarrow> registry \<Rightarrow> nat" where
  "auth_attempts i s = (case auth_failures s i of Some e \<Rightarrow> attempts e | None \<Rightarrow> 0)"

section \<open>The circuit breaker as an interface\<close>

text \<open>
  What the rest of the program relies on: failures of a key are counted up to the width of the
  counter, a clear forgets them, a key is blocked exactly from the limit on, with the latest
  reason, and an event that says nothing about a key leaves its verdict alone.
\<close>

locale circuit_breaker =
  fixes step :: "'e \<Rightarrow> 's \<Rightarrow> 's"
    and verdict :: "'e \<Rightarrow> ('k \<times> 'r option) option"
    and failures :: "'k \<Rightarrow> 's \<Rightarrow> nat"
    and blocked :: "'k \<Rightarrow> 's \<Rightarrow> 'r option"
    and limit :: nat
    and bound :: nat
  assumes failures_fail: "verdict e = Some (k, Some r) \<Longrightarrow> failures k (step e s) = min (Suc (failures k s)) bound"
    and failures_clear: "verdict e = Some (k, None) \<Longrightarrow> failures k (step e s) = 0"
    and failures_other: "(\<And>x. verdict e \<noteq> Some (k, x)) \<Longrightarrow> failures k (step e s) = failures k s"
    and blocked_iff: "blocked k s = None \<longleftrightarrow> failures k s < limit"
    and blocked_fail: "verdict e = Some (k, Some r) \<Longrightarrow> limit \<le> Suc (failures k s) \<Longrightarrow> blocked k (step e s) = Some r"
    and blocked_other: "(\<And>x. verdict e \<noteq> Some (k, x)) \<Longrightarrow> blocked k (step e s) = blocked k s"
    and limit_pos: "0 < limit"
    and limit_bound: "limit \<le> bound"
begin

definition fails :: "'k \<Rightarrow> 'e list \<Rightarrow> nat" where
  "fails k es = length (filter (\<lambda>e. \<exists>r. verdict e = Some (k, Some r)) es)"

lemma not_blocked_after_clear: "verdict e = Some (k, None) \<Longrightarrow> blocked k (step e s) = None"
  using limit_pos by (simp add: blocked_iff failures_clear)

lemma blocked_unmentioned:
  "(\<And>e x. e \<in> set es \<Longrightarrow> verdict e \<noteq> Some (k, x)) \<Longrightarrow> blocked k (fold step es s) = blocked k s"
  by (induction es arbitrary: s) (simp_all add: blocked_other)

text \<open>The failures since the last clear are counted, whatever happened to other keys.\<close>

lemma failures_since:
  "(\<And>e. e \<in> set es \<Longrightarrow> verdict e \<noteq> Some (k, None)) \<Longrightarrow> failures k s \<le> bound \<Longrightarrow>
    failures k (fold step es s) = min (failures k s + fails k es) bound"
proof (induction es arbitrary: s)
  case (Cons e es)
  have clear: "verdict e \<noteq> Some (k, None)" using Cons.prems(1) by simp
  show ?case
  proof (cases "\<exists>r. verdict e = Some (k, Some r)")
    case True
    then have f: "failures k (step e s) = min (Suc (failures k s)) bound" by (auto simp: failures_fail)
    then show ?thesis using Cons.IH [of "step e s"] Cons.prems True by (auto simp: fails_def)
  next
    case False
    then have "\<And>x. verdict e \<noteq> Some (k, x)" using clear by (metis not_None_eq)
    then have f: "failures k (step e s) = failures k s" by (simp add: failures_other)
    then show ?thesis using Cons.IH [of "step e s"] Cons.prems False by (simp add: fails_def)
  qed
qed (simp add: fails_def)

lemma blocked_since_clear:
  assumes "verdict c = Some (k, None)" and "\<And>e. e \<in> set es \<Longrightarrow> verdict e \<noteq> Some (k, None)"
  shows "blocked k (fold step es (step c s)) = None \<longleftrightarrow> fails k es < limit"
  using failures_since [of es k "step c s", OF assms(2)] limit_bound
  by (auto simp: blocked_iff failures_clear [OF assms(1)] min_def)

lemma blocked_latest_reason:
  assumes "verdict e = Some (k, Some r)" and "limit \<le> Suc (failures k s)"
    and "\<And>e x. e \<in> set es \<Longrightarrow> verdict e \<noteq> Some (k, x)"
  shows "blocked k (fold step es (step e s)) = Some r"
  using blocked_unmentioned [OF assms(3)] blocked_fail [OF assms(1,2)] by simp

end

section \<open>Lemmas\<close>

lemmas registry_defs =
  mark_connected_def mark_disconnected_def clear_write_denials_def is_connected_def
  record_auth_failure_def clear_auth_failures_def record_auth_success_def auth_block_reason_def
  record_write_denied_def write_denied_reason_def auth_attempts_def

lemma auth_attempts_update [simp]:
  "auth_attempts i (mark_connected j s) = auth_attempts i s"
  "auth_attempts i (mark_disconnected j s) = auth_attempts i s"
  "auth_attempts i (record_write_denied j t w s) = auth_attempts i s"
  "auth_attempts i (clear_auth_failures j s) = (if i = j then 0 else auth_attempts i s)"
  by (simp_all add: registry_defs)

lemma auth_attempts_failure [simp]:
  "auth_attempts i (record_auth_failure j w s) =
     (if i = j then min (Suc (auth_attempts i s)) (2 ^ 32 - 1) else auth_attempts i s)"
  by (auto simp: registry_defs Let_def sat_add_def split: option.splits)

lemma auth_block_reason_update [simp]:
  "auth_block_reason i (mark_connected j s) = auth_block_reason i s"
  "auth_block_reason i (mark_disconnected j s) = auth_block_reason i s"
  "auth_block_reason i (record_write_denied j t w s) = auth_block_reason i s"
  "auth_block_reason i (clear_auth_failures j s) = (if i = j then None else auth_block_reason i s)"
  by (simp_all add: registry_defs)

lemma auth_block_reason_failure:
  "auth_block_reason i (record_auth_failure j w s) =
     (if i = j then (if MAX_AUTH_ATTEMPTS \<le> Suc (auth_attempts i s) then Some w else None)
      else auth_block_reason i s)"
  by (auto simp: registry_defs Let_def sat_add_def MAX_AUTH_ATTEMPTS_def split: option.splits)

lemma auth_block_reason_None: "auth_block_reason i s = None \<longleftrightarrow> auth_attempts i s < MAX_AUTH_ATTEMPTS"
  by (auto simp: registry_defs MAX_AUTH_ATTEMPTS_def split: option.splits)

interpretation breaker: circuit_breaker apply_event credential_verdict auth_attempts auth_block_reason
  MAX_AUTH_ATTEMPTS "2 ^ 32 - 1"
proof unfold_locales
  fix e :: registry_event and k r s
  assume "credential_verdict e = Some (k, Some r)"
  then have e: "e = AuthFailed k r" by (cases e) auto
  show "auth_attempts k (apply_event e s) = min (Suc (auth_attempts k s)) (2 ^ 32 - 1)"
    by (simp add: e)
  show "auth_block_reason k (apply_event e s) = Some r" if "MAX_AUTH_ATTEMPTS \<le> Suc (auth_attempts k s)"
    using that by (simp add: e auth_block_reason_failure)
next
  fix e :: registry_event and k s
  assume "credential_verdict e = Some (k, None)"
  then have "e = AuthSucceeded k \<or> e = Cleared k" by (cases e) auto
  then show "auth_attempts k (apply_event e s) = 0" by (auto simp: record_auth_success_def)
next
  fix e :: registry_event and k s
  assume "\<And>x. credential_verdict e \<noteq> Some (k, x)"
  then show "auth_attempts k (apply_event e s) = auth_attempts k s"
    and "auth_block_reason k (apply_event e s) = auth_block_reason k s"
    by (cases e; auto simp: record_auth_success_def auth_block_reason_failure)+
qed (simp_all add: auth_block_reason_None MAX_AUTH_ATTEMPTS_def)


section \<open>Properties\<close>

text \<open>The view of one connection: whether it is live, whether it is blocked and why, and which
  topics it may not write.\<close>

definition view :: "string \<Rightarrow> registry \<Rightarrow> bool \<times> string option \<times> (string \<Rightarrow> string option)" where
  "view i s = (is_connected i s, auth_block_reason i s, \<lambda>topic. write_denied_reason i topic s)"

lemma view_other:
  assumes "event_connection e \<noteq> i"
  shows "view i (apply_event e s) = view i s"
proof (cases e)
  case (AuthFailed j why)
  then show ?thesis
    using assms by (auto simp: view_def auth_block_reason_failure)
      (auto simp: registry_defs Let_def split: option.splits if_splits)
qed (use assms in \<open>auto simp: view_def registry_defs\<close>)

text \<open>The breaker blocks a connection exactly when its credentials were rejected twice or more
  since they were last cleared or accepted, however the calls for other connections, connects,
  disconnects and write denials are interleaved.\<close>
theorem breaker_trips_after_two:
  assumes "c \<in> {Cleared i, AuthSucceeded i}"
    and "\<And>e. e \<in> set es \<Longrightarrow> e \<noteq> Cleared i \<and> e \<noteq> AuthSucceeded i"
  shows "auth_block_reason i (fold apply_event es (apply_event c s)) \<noteq> None
    \<longleftrightarrow> 2 \<le> length (filter (\<lambda>e. \<exists>why. e = AuthFailed i why) es)"
proof -
  have verdicts: "credential_verdict e = Some (i, Some why) \<longleftrightarrow> e = AuthFailed i why"
    "credential_verdict e = Some (i, None) \<longleftrightarrow> e = Cleared i \<or> e = AuthSucceeded i" for e why
    by (cases e; auto)+
  have "breaker.fails i es = length (filter (\<lambda>e. \<exists>why. e = AuthFailed i why) es)"
    by (simp add: breaker.fails_def verdicts)
  then show ?thesis
    using breaker.blocked_since_clear [of c i es s] assms
    by (auto simp: verdicts MAX_AUTH_ATTEMPTS_def not_less simp del: not_None_eq)
qed

theorem breaker_trips_after_two_witness:
  "auth_block_reason ''a'' (fold apply_event
     [AuthFailed ''a'' ''no'', AuthFailed ''b'' ''no'', Disconnected ''a'', AuthFailed ''a'' ''no'']
     (apply_event (Cleared ''a'') empty_registry)) \<noteq> None"
  by (subst breaker_trips_after_two) auto

text \<open>Connections do not interfere: no sequence of calls for other connections changes whether
  a connection is live, blocked, or denied a topic.\<close>
theorem connections_independent:
  assumes "\<And>e. e \<in> set es \<Longrightarrow> event_connection e \<noteq> i"
  shows "view i (fold apply_event es s) = view i s"
  using assms by (induction es arbitrary: s) (simp_all add: view_other)

theorem connections_independent_witness:
  "view ''a'' (fold apply_event
      [AuthFailed ''b'' ''no'', AuthFailed ''b'' ''no'', WriteDenied ''b'' ''t'' ''acl'', AuthSucceeded ''c'']
      (mark_connected ''a'' empty_registry))
    = view ''a'' (mark_connected ''a'' empty_registry)"
  by (rule connections_independent) auto

text \<open>A refused write blocks publishing to that topic for that connection only: the session,
  the credential breaker and every other topic keep their verdicts, and the denial lasts until the
  connection disconnects, is cleared, is blocked, or any of its broker calls succeeds.\<close>
theorem write_denial_scope:
  assumes "\<And>e. e \<in> set es \<Longrightarrow> event_connection e = i \<Longrightarrow> (\<exists>t w. e = WriteDenied i t w \<and> t \<noteq> topic) \<or> e = Connected i"
  shows "write_denied_reason i topic (fold apply_event es (record_write_denied i topic why s)) = Some why
    \<and> auth_block_reason i (fold apply_event es (record_write_denied i topic why s)) = auth_block_reason i s
    \<and> (t \<noteq> topic \<longrightarrow> write_denied_reason i t (record_write_denied i topic why s) = write_denied_reason i t s)"
proof -
  have step: "write_denied_reason i topic (apply_event e r) = write_denied_reason i topic r
      \<and> auth_block_reason i (apply_event e r) = auth_block_reason i r" if "e \<in> set es" for e r
  proof (cases "event_connection e = i")
    case True
    then have "(\<exists>t w. e = WriteDenied i t w \<and> t \<noteq> topic) \<or> e = Connected i"
      using assms [OF that] by blast
    then show ?thesis by (auto simp: registry_defs)
  next
    case False
    then show ?thesis using view_other [of e i r] by (simp add: view_def fun_eq_iff)
  qed
  have "write_denied_reason i topic (fold apply_event es r) = write_denied_reason i topic r
      \<and> auth_block_reason i (fold apply_event es r) = auth_block_reason i r" for r
    using step by (induction es arbitrary: r) auto
  then show ?thesis by (simp add: registry_defs)
qed

theorem write_denial_scope_witness:
  "write_denied_reason ''a'' ''t'' (fold apply_event [WriteDenied ''a'' ''u'' ''acl'', AuthFailed ''b'' ''no'']
     (record_write_denied ''a'' ''t'' ''acl'' empty_registry)) = Some ''acl''"
  by (rule write_denial_scope [THEN conjunct1]) auto

end
