(* ===== verification/Publish.thy ===== *)
theory Publish
  imports App_Error
begin

text \<open>
  Publishing, \<^verbatim>\<open>backend/core/src/publish.rs\<close>: how entered text becomes records, the ceilings a
  batch is held to, and the gate a publish passes. The JSON parser and the base64 decoder are
  library code: \<open>json_error text\<close> is the parser's complaint about a text, if any, and
  \<open>base64_decode text\<close> its bytes or the decoder's complaint.
\<close>

section \<open>Definitions\<close>

datatype payload_encoding = Null | Text | Json | Base64

record publish_field =
  encoding :: payload_encoding
  entered_text :: string

definition null_field :: publish_field where
  "null_field = \<lparr>encoding = Null, entered_text = []\<rparr>"

definition text_field :: "string \<Rightarrow> publish_field" where
  "text_field s = \<lparr>encoding = Text, entered_text = s\<rparr>"

record publish_header_input =
  header_key :: string
  header_value :: publish_field

record new_publish_message =
  message_key :: publish_field
  message_value :: publish_field
  message_headers :: "publish_header_input list"

record encoded_record =
  record_key :: "byte list option"
  record_value :: "byte list option"
  record_headers :: "(string \<times> byte list option) list"

definition opt_len :: "byte list option \<Rightarrow> nat" where
  "opt_len b = (case b of None \<Rightarrow> 0 | Some bytes \<Rightarrow> length bytes)"

definition size_bytes :: "encoded_record \<Rightarrow> nat" where
  "size_bytes r =
     (let key = opt_len (record_key r);
          val = opt_len (record_value r);
          headers = (\<Sum>(name, v)\<leftarrow>record_headers r. length name + opt_len v)
      in key + val + headers)"

record publish_limits =
  max_message_size_bytes :: u32
  max_batch_messages :: nat
  max_batch_bytes :: nat

definition MAX_PUBLISH_BATCH_MESSAGES :: nat where
  "MAX_PUBLISH_BATCH_MESSAGES = 100"

definition MAX_PUBLISH_BATCH_BYTES :: nat where
  "MAX_PUBLISH_BATCH_BYTES = 64 * 1024 * 1024"

definition for_max_message_size :: "u32 \<Rightarrow> publish_limits" where
  "for_max_message_size m =
     \<lparr>max_message_size_bytes = m,
      max_batch_messages = MAX_PUBLISH_BATCH_MESSAGES,
      max_batch_bytes = MAX_PUBLISH_BATCH_BYTES\<rparr>"

definition encode_field ::
    "(string \<Rightarrow> string option) \<Rightarrow> (string \<Rightarrow> string + byte list) \<Rightarrow> publish_field \<Rightarrow> string
      \<Rightarrow> report + byte list option" where
  "encode_field json_error base64_decode field what =
     (case encoding field of
        Null \<Rightarrow> Inr None
      | Text \<Rightarrow> Inr (Some (bytes_of (entered_text field)))
      | Json \<Rightarrow>
          (case json_error (entered_text field) of
             Some err \<Rightarrow> Inl (fail_with Validation (''the '' @ what @ '' is not valid JSON: '' @ err))
           | None \<Rightarrow> Inr (Some (bytes_of (entered_text field))))
      | Base64 \<Rightarrow>
          (case base64_decode (trim (entered_text field)) of
             Inl err \<Rightarrow> Inl (fail_with Validation (''the '' @ what @ '' is not valid base64: '' @ err))
           | Inr bytes \<Rightarrow> Inr (Some bytes)))"

fun encode_headers ::
    "(string \<Rightarrow> string option) \<Rightarrow> (string \<Rightarrow> string + byte list) \<Rightarrow> nat \<Rightarrow> publish_header_input list
      \<Rightarrow> report + (string \<times> byte list option) list" where
  "encode_headers json_error base64_decode position [] = Inr []"
| "encode_headers json_error base64_decode position (header # headers) =
     (if trim (header_key header) = []
      then Inl (fail_with Validation (''message '' @ show_nat position @ '' has a header with no name''))
      else and_then
        (encode_field json_error base64_decode (header_value header)
           (''value of header '' @ [CHR 0x22] @ header_key header @ [CHR 0x22] @ '' on message ''
            @ show_nat position))
        (\<lambda>bytes. and_then (encode_headers json_error base64_decode position headers)
        (\<lambda>rest. Inr ((header_key header, bytes) # rest))))"

definition encode_record ::
    "(string \<Rightarrow> string option) \<Rightarrow> (string \<Rightarrow> string + byte list) \<Rightarrow> nat \<Rightarrow> new_publish_message
      \<Rightarrow> report + encoded_record" where
  "encode_record json_error base64_decode position message =
     and_then (encode_field json_error base64_decode (message_key message)
                 (''key of message '' @ show_nat position))
     (\<lambda>key. and_then (encode_field json_error base64_decode (message_value message)
                 (''value of message '' @ show_nat position))
     (\<lambda>val. and_then (encode_headers json_error base64_decode position (message_headers message))
     (\<lambda>headers. Inr \<lparr>record_key = key, record_value = val, record_headers = headers\<rparr>)))"

text \<open>
  The loop over the messages, from position \<open>index\<close> with \<open>total_bytes\<close> counted so far. The total
  is a \<^verbatim>\<open>u64\<close> that saturates.
\<close>

fun encode_from ::
    "(string \<Rightarrow> string option) \<Rightarrow> (string \<Rightarrow> string + byte list) \<Rightarrow> publish_limits \<Rightarrow> nat \<Rightarrow> nat
      \<Rightarrow> new_publish_message list \<Rightarrow> report + encoded_record list" where
  "encode_from json_error base64_decode limits index total_bytes [] = Inr []"
| "encode_from json_error base64_decode limits index total_bytes (message # messages) =
     (let position = index + 1 in
      and_then (encode_record json_error base64_decode position message) (\<lambda>record.
      let size = size_bytes record in
      if unat (max_message_size_bytes limits) < size
      then Inl (fail_with Validation
             (''message '' @ show_nat position @ '' is '' @ show_nat size @ '' bytes, over the ''
              @ show_nat (unat (max_message_size_bytes limits)) @ '' byte Max Message Size''))
      else
        let total_bytes = sat_add 64 total_bytes size in
        if max_batch_bytes limits < total_bytes
        then Inl (fail_with Validation
               (''these messages total more than the '' @ show_nat (max_batch_bytes limits)
                @ '' byte publish limit''))
        else and_then (encode_from json_error base64_decode limits (index + 1) total_bytes messages)
               (\<lambda>records. Inr (record # records))))"

definition encode_messages ::
    "(string \<Rightarrow> string option) \<Rightarrow> (string \<Rightarrow> string + byte list) \<Rightarrow> new_publish_message list
      \<Rightarrow> publish_limits \<Rightarrow> report + encoded_record list" where
  "encode_messages json_error base64_decode messages limits =
     (if messages = [] then Inl (fail_with Validation ''there are no messages to publish'')
      else if max_batch_messages limits < length messages
      then Inl (fail_with Validation
             (''one publish carries at most '' @ show_nat (max_batch_messages limits)
              @ '' messages, but '' @ show_nat (length messages) @ '' were given''))
      else encode_from json_error base64_decode limits 0 0 messages)"

record delivered_record =
  delivered_index :: nat
  delivered_partition :: int
  delivered_offset :: int

datatype publish_failure_kind =
  AuthorizationFailure | AuthenticationFailure | ValidationFailure | TransientFailure

fun failure_kind_from_error :: "app_error \<Rightarrow> publish_failure_kind" where
  "failure_kind_from_error Authorization = AuthorizationFailure"
| "failure_kind_from_error Authentication = AuthenticationFailure"
| "failure_kind_from_error Validation = ValidationFailure"
| "failure_kind_from_error _ = TransientFailure"

record publish_failure =
  failure_index :: nat
  failure_kind :: publish_failure_kind
  failure_reason :: string

record publish_outcome =
  delivered :: "delivered_record list"
  failure :: "publish_failure option"
  not_attempted :: nat

definition default_outcome :: publish_outcome where
  "default_outcome = \<lparr>delivered = [], failure = None, not_attempted = 0\<rparr>"

definition succeeded :: "publish_outcome \<Rightarrow> bool" where
  "succeeded outcome = (failure outcome = None)"

datatype refusal = NotConnected | NotAllowed | BrokerDenied string

fun refusal_message :: "refusal \<Rightarrow> string \<Rightarrow> string" where
  "refusal_message NotConnected topic =
     ''this cluster is not connected '' @ em_dash @ '' use Connect before publishing''"
| "refusal_message NotAllowed topic =
     ''publishing is disabled for this connection '' @ em_dash @ '' enable '' @ [CHR 0x22]
     @ ''Allow publishing'' @ [CHR 0x22] @ '' in the ''
     @ ''connection's Properties tab if you intend to write to this cluster''"
| "refusal_message (BrokerDenied why) topic =
     ''the broker refused an earlier publish to '' @ [CHR 0x22] @ topic @ [CHR 0x22] @ '': '' @ why
     @ ''. '' @ ''Publishing to it is blocked until you reconnect.''"

fun refusal_error :: "refusal \<Rightarrow> app_error" where
  "refusal_error NotConnected = Validation"
| "refusal_error NotAllowed = Validation"
| "refusal_error (BrokerDenied why) = Authorization"

definition publish_refusal :: "bool \<Rightarrow> bool \<Rightarrow> string option \<Rightarrow> refusal option" where
  "publish_refusal connected allow_publishing broker_denial =
     (if \<not> connected then Some NotConnected
      else if \<not> allow_publishing then Some NotAllowed
      else map_option BrokerDenied broker_denial)"

section \<open>Lemmas\<close>

text \<open>What the encoder accepts for one message, without the order in which it complains.\<close>

definition field_bytes ::
    "(string \<Rightarrow> string option) \<Rightarrow> (string \<Rightarrow> string + byte list) \<Rightarrow> publish_field \<Rightarrow> byte list option option" where
  "field_bytes json_error base64_decode field =
     (case encoding field of
        Null \<Rightarrow> Some None
      | Text \<Rightarrow> Some (Some (bytes_of (entered_text field)))
      | Json \<Rightarrow> if json_error (entered_text field) = None then Some (Some (bytes_of (entered_text field))) else None
      | Base64 \<Rightarrow> map_option Some (ok (base64_decode (trim (entered_text field)))))"

definition encodes_as ::
    "(string \<Rightarrow> string option) \<Rightarrow> (string \<Rightarrow> string + byte list) \<Rightarrow> new_publish_message \<Rightarrow> encoded_record \<Rightarrow> bool" where
  "encodes_as json_error base64_decode m r \<longleftrightarrow>
     field_bytes json_error base64_decode (message_key m) = Some (record_key r)
     \<and> field_bytes json_error base64_decode (message_value m) = Some (record_value r)
     \<and> list_all2 (\<lambda>h (name, v). trim (header_key h) \<noteq> [] \<and> name = header_key h
          \<and> field_bytes json_error base64_decode (header_value h) = Some v)
        (message_headers m) (record_headers r)"

lemma encode_field_Inr:
  "encode_field je bd field what = Inr b \<longleftrightarrow> field_bytes je bd field = Some b"
  by (auto simp: encode_field_def field_bytes_def split: payload_encoding.splits option.splits sum.splits)

lemma encode_field_Inl: "encode_field je bd field what = Inl r \<Longrightarrow> current_context r = Validation"
  by (auto simp: encode_field_def fail_with_def attach_def new_report_def
      split: payload_encoding.splits option.splits sum.splits)

lemma encode_headers_Inr:
  "encode_headers je bd p hs = Inr out \<longleftrightarrow>
     list_all2 (\<lambda>h (name, v). trim (header_key h) \<noteq> [] \<and> name = header_key h
       \<and> field_bytes je bd (header_value h) = Some v) hs out"
proof (induction hs arbitrary: out)
  case (Cons h hs)
  then show ?case by (cases out) (auto simp: encode_field_Inr)
qed auto

lemma encode_headers_Inl: "encode_headers je bd p hs = Inl r \<Longrightarrow> current_context r = Validation"
  by (induction hs)
    (auto simp: and_then_Inl_iff fail_with_def attach_def new_report_def split: if_splits
      dest: encode_field_Inl)

lemma encode_record_Inr: "encode_record je bd p m = Inr r \<longleftrightarrow> encodes_as je bd m r"
  by (cases r) (auto simp: encode_record_def encodes_as_def encode_field_Inr encode_headers_Inr)

lemma encode_record_Inl: "encode_record je bd p m = Inl r \<Longrightarrow> current_context r = Validation"
  by (auto simp: encode_record_def and_then_Inl_iff dest: encode_field_Inl encode_headers_Inl)

lemma encode_from_Inl: "encode_from je bd limits i t ms = Inl r \<Longrightarrow> current_context r = Validation"
  by (induction ms arbitrary: i t)
    (auto simp: and_then_Inl_iff Let_def fail_with_def attach_def new_report_def split: if_splits
      dest: encode_record_Inl)

lemma encode_from_Inr:
  assumes "max_batch_bytes limits < 2 ^ 64 - 1" and "t \<le> max_batch_bytes limits"
  shows "encode_from je bd limits i t ms = Inr rs \<longleftrightarrow>
     list_all2 (encodes_as je bd) ms rs
     \<and> (\<forall>r\<in>set rs. size_bytes r \<le> unat (max_message_size_bytes limits))
     \<and> t + (\<Sum>r\<leftarrow>rs. size_bytes r) \<le> max_batch_bytes limits"
  using assms(2)
proof (induction ms arbitrary: i t rs)
  case (Cons m ms)
  have sat: "sat_add 64 t n \<le> max_batch_bytes limits \<longleftrightarrow> t + n \<le> max_batch_bytes limits" for n
    using assms(1) Cons.prems by (auto simp: sat_add_def)
  have exact: "sat_add 64 t n = t + n" if "t + n \<le> max_batch_bytes limits" for n
    using assms(1) that by (simp add: sat_add_def)
  show ?case
  proof (cases rs)
    case Nil
    then show ?thesis by (auto simp: Let_def)
  next
    case (Cons r rs')
    show ?thesis
      using Cons.IH [of "t + size_bytes r" "Suc i" rs'] Cons
      by (auto simp: Let_def encode_record_Inr sat exact not_less algebra_simps split: if_splits intro!: exI [of _ r])
  qed
qed auto

section \<open>Properties\<close>

text \<open>What a publishable batch is, said without any order of checks: the records are the messages'
  fields encoded one by one, none is over the message size, and together they are within both
  batch ceilings.\<close>

definition batch_encodes ::
    "(string \<Rightarrow> string option) \<Rightarrow> (string \<Rightarrow> string + byte list) \<Rightarrow> u32 \<Rightarrow> new_publish_message list
      \<Rightarrow> encoded_record list \<Rightarrow> bool" where
  "batch_encodes json_error base64_decode m messages records \<longleftrightarrow>
     messages \<noteq> [] \<and> length messages \<le> 100
     \<and> list_all2 (encodes_as json_error base64_decode) messages records
     \<and> (\<forall>r\<in>set records. size_bytes r \<le> unat m)
     \<and> (\<Sum>r\<leftarrow>records. size_bytes r) \<le> 64 * 1024 * 1024"

text \<open>C30: A batch is encoded whole or not at all: the encoder returns records exactly when every
  message encodes and every ceiling holds, the records are then those of all the messages in order,
  and any other batch is refused with a validation error.\<close>
theorem encode_all_or_nothing:
  "case encode_messages json_error base64_decode messages (for_max_message_size m) of
     Inr records \<Rightarrow> batch_encodes json_error base64_decode m messages records
   | Inl r \<Rightarrow> current_context r = Validation
       \<and> (\<nexists>records. batch_encodes json_error base64_decode m messages records)"
proof -
  let ?limits = "for_max_message_size m"
  have inr: "encode_messages json_error base64_decode messages ?limits = Inr records
      \<longleftrightarrow> batch_encodes json_error base64_decode m messages records" for records
    using encode_from_Inr [of ?limits 0 json_error base64_decode 0 messages records]
    by (auto simp: encode_messages_def batch_encodes_def for_max_message_size_def
        MAX_PUBLISH_BATCH_MESSAGES_def MAX_PUBLISH_BATCH_BYTES_def)
  have inl: "current_context r = Validation"
    if "encode_messages json_error base64_decode messages ?limits = Inl r" for r
    using that encode_from_Inl [of json_error base64_decode ?limits 0 0 messages r]
    by (auto simp: encode_messages_def fail_with_def attach_def new_report_def split: if_splits)
  show ?thesis using inr inl by (auto split: sum.splits)
qed

text \<open>The gate opens for a live connection that allows publishing and has no recorded denial,
  and for nothing else; a closed gate names the first thing the user has to change.\<close>
theorem publish_gate:
  "publish_refusal live allowed denial =
     (case (live, allowed, denial) of
        (False, _, _) \<Rightarrow> Some NotConnected
      | (True, False, _) \<Rightarrow> Some NotAllowed
      | (True, True, Some why) \<Rightarrow> Some (BrokerDenied why)
      | (True, True, None) \<Rightarrow> None)"
  by (auto simp: publish_refusal_def split: bool.splits option.splits)

end
