(* ===== verification/Producer.thy ===== *)
theory Producer
  imports Publish
begin

text \<open>
  Sending a batch, \<^verbatim>\<open>backend/kafka/src/producer.rs\<close>: one record at a time, each acknowledged
  before the next, stopping at the first failure. The producer of the client library is a
  parameter: \<open>send i r\<close> is what happens when the \<open>i\<close>-th record is sent, the reasons its error
  callback reports meanwhile and the delivery or the failure it comes back with.
\<close>

section \<open>Definitions\<close>

record producer_error_context =
  last_error :: "string option"
  auth_error :: "string option"

definition default_context :: producer_error_context where
  "default_context = \<lparr>last_error = None, auth_error = None\<rparr>"

definition failure_reason_of :: "producer_error_context \<Rightarrow> string option" where
  "failure_reason_of ctx =
     (case auth_error ctx of Some auth \<Rightarrow> Some auth | None \<Rightarrow> last_error ctx)"

definition error_callback :: "string \<Rightarrow> producer_error_context \<Rightarrow> producer_error_context" where
  "error_callback why ctx =
     (let ctx = ctx\<lparr>last_error := Some why\<rparr>
      in if is_auth_failure_reason why
         then if auth_error ctx = None then ctx\<lparr>auth_error := Some why\<rparr> else ctx
         else ctx)"

definition classify_produce_error :: "kafka_error \<Rightarrow> string option \<Rightarrow> app_error" where
  "classify_produce_error err why =
     (if is_auth_failure (Some err) why \<or> is_auth_failure (Some err) (Some (error_text err))
      then Authentication
      else case rdkafka_error_code err of
        Some RD_TopicAuthorizationFailed \<Rightarrow> Authorization
      | Some RD_ClusterAuthorizationFailed \<Rightarrow> Authorization
      | Some RD_GroupAuthorizationFailed \<Rightarrow> Authorization
      | Some RD_TransactionalIdAuthorizationFailed \<Rightarrow> Authorization
      | Some RD_MessageSizeTooLarge \<Rightarrow> Validation
      | Some RD_UnknownTopicOrPartition \<Rightarrow> Validation
      | Some RD_UnknownTopic \<Rightarrow> Validation
      | Some RD_UnknownPartition \<Rightarrow> Validation
      | Some RD_InvalidPartitions \<Rightarrow> Validation
      | Some RD_MessageBatchTooLarge \<Rightarrow> Validation
      | Some RD_InvalidRecord \<Rightarrow> Validation
      | Some RD_InvalidMessage \<Rightarrow> Validation
      | Some RD_InvalidMessageSize \<Rightarrow> Validation
      | _ \<Rightarrow> Kafka)"

definition describe_produce_error :: "kafka_error \<Rightarrow> app_error \<Rightarrow> string \<Rightarrow> string" where
  "describe_produce_error err kind topic =
     (case kind of
        Authorization \<Rightarrow>
          ''you do not have write access to '' @ [CHR 0x22] @ topic @ [CHR 0x22] @ '' '' @ em_dash
          @ '' the broker refused the message '' @ ''('' @ error_text err @ ''). Nothing was published.''
      | Authentication \<Rightarrow>
          ''the broker rejected this connection's credentials ('' @ error_text err @ '')''
      | _ \<Rightarrow> error_text err)"

text \<open>The headers put on the wire, in order; a record without any carries no header block.\<close>

definition build_headers :: "encoded_record \<Rightarrow> (string \<times> byte list option) list option" where
  "build_headers r =
     (if record_headers r = [] then None
      else Some (foldl (\<lambda>headers (key, v). headers @ [(key, v)]) [] (record_headers r)))"

record future_record =
  to_topic :: string
  to_partition :: int
  send_key :: "byte list option"
  send_payload :: "byte list option"
  send_headers :: "(string \<times> byte list option) list option"

definition future_record :: "string \<Rightarrow> int \<Rightarrow> encoded_record \<Rightarrow> future_record" where
  "future_record topic p r =
     (let f = \<lparr>to_topic = topic, to_partition = p, send_key = None, send_payload = None,
               send_headers = None\<rparr>;
          f = (case record_key r of Some key \<Rightarrow> f\<lparr>send_key := Some key\<rparr> | None \<Rightarrow> f);
          f = (case record_value r of Some val \<Rightarrow> f\<lparr>send_payload := Some val\<rparr> | None \<Rightarrow> f)
      in case build_headers r of Some headers \<Rightarrow> f\<lparr>send_headers := Some headers\<rparr> | None \<Rightarrow> f)"

type_synonym send = "nat \<Rightarrow> future_record \<Rightarrow> string list \<times> (kafka_error + int \<times> int)"

fun publish_from ::
    "send \<Rightarrow> string \<Rightarrow> int \<Rightarrow> nat \<Rightarrow> nat \<Rightarrow> encoded_record list \<Rightarrow> producer_error_context
      \<Rightarrow> publish_outcome \<Rightarrow> publish_outcome" where
  "publish_from send topic p total_records index [] errors outcome = outcome"
| "publish_from send topic p total_records index (r # records) errors outcome =
     (let (callbacks, result) = send index (future_record topic p r);
          errors = fold error_callback callbacks errors
      in case result of
           Inr (at_partition, at_offset) \<Rightarrow>
             publish_from send topic p total_records (index + 1) records errors
               (outcome\<lparr>delivered := delivered outcome @
                  [\<lparr>delivered_index = index, delivered_partition = at_partition,
                    delivered_offset = at_offset\<rparr>]\<rparr>)
         | Inl err \<Rightarrow>
             let why = failure_reason_of errors;
                 kind = classify_produce_error err why
             in outcome
                  \<lparr>failure := Some \<lparr>failure_index = index,
                      failure_kind = failure_kind_from_error kind,
                      failure_reason = describe_produce_error err kind topic\<rparr>,
                    not_attempted := total_records - index - 1\<rparr>)"

text \<open>\<open>create_error\<close> is the client library's complaint when it cannot build the producer.\<close>

definition publish_messages ::
    "string option \<Rightarrow> send \<Rightarrow> string \<Rightarrow> int \<Rightarrow> encoded_record list \<Rightarrow> report + publish_outcome" where
  "publish_messages create_error send topic p records =
     (case create_error of
        Some err \<Rightarrow> Inl (fail_with Kafka (''failed to create a producer for publishing: '' @ err))
      | None \<Rightarrow> Inr (publish_from send topic p (length records) 0 records default_context default_outcome))"

section \<open>Lemmas\<close>

lemma build_headers_eq: "build_headers r = (if record_headers r = [] then None else Some (record_headers r))"
proof -
  have "foldl (\<lambda>headers (key, v). headers @ [(key, v)]) acc hs = acc @ hs"
    for acc hs :: "(string \<times> byte list option) list"
    by (induction hs arbitrary: acc) auto
  then show ?thesis by (simp add: build_headers_def)
qed

lemma future_record_eq:
  "future_record topic p r =
     \<lparr>to_topic = topic, to_partition = p, send_key = record_key r, send_payload = record_value r,
      send_headers = (if record_headers r = [] then None else Some (record_headers r))\<rparr>"
  by (auto simp: future_record_def build_headers_eq Let_def split: option.splits)

text \<open>The first authentication reason is kept, whatever is reported after it.\<close>

lemma auth_error_kept: "auth_error ctx \<noteq> None \<Longrightarrow> auth_error (fold error_callback cs ctx) = auth_error ctx"
  by (induction cs arbitrary: ctx) (auto simp: error_callback_def Let_def)

lemma auth_error_found:
  "auth_error (fold error_callback cs ctx) =
     (case auth_error ctx of Some a \<Rightarrow> Some a | None \<Rightarrow> find is_auth_failure_reason cs)"
  by (induction cs arbitrary: ctx) (auto simp: error_callback_def Let_def split: option.splits)

text \<open>The callbacks seen up to the end of the \<open>i\<close>-th send.\<close>

definition callbacks_until :: "send \<Rightarrow> string \<Rightarrow> int \<Rightarrow> encoded_record list \<Rightarrow> nat \<Rightarrow> string list" where
  "callbacks_until send topic p records k =
     concat (map (\<lambda>i. fst (send i (future_record topic p (records ! i)))) [0..<Suc k])"

definition sent_ok :: "send \<Rightarrow> string \<Rightarrow> int \<Rightarrow> encoded_record list \<Rightarrow> nat \<Rightarrow> bool" where
  "sent_ok send topic p records i \<longleftrightarrow>
     (\<exists>d. snd (send i (future_record topic p (records ! i))) = Inr d)"

definition acknowledgement :: "send \<Rightarrow> string \<Rightarrow> int \<Rightarrow> encoded_record list \<Rightarrow> nat \<Rightarrow> delivered_record" where
  "acknowledgement send topic p records i =
     (case snd (send i (future_record topic p (records ! i))) of
        Inr (at_partition, at_offset) \<Rightarrow>
          \<lparr>delivered_index = i, delivered_partition = at_partition, delivered_offset = at_offset\<rparr>
      | Inl err \<Rightarrow> \<lparr>delivered_index = i, delivered_partition = 0, delivered_offset = 0\<rparr>)"

definition failed_at :: "send \<Rightarrow> string \<Rightarrow> int \<Rightarrow> encoded_record list \<Rightarrow> nat \<Rightarrow> publish_outcome \<Rightarrow> bool" where
  "failed_at send topic p records k out \<longleftrightarrow>
     k < length records
     \<and> (\<exists>err kind. snd (send k (future_record topic p (records ! k))) = Inl err
          \<and> kind = classify_produce_error err
               (failure_reason_of (fold error_callback (callbacks_until send topic p records k) default_context))
          \<and> failure out = Some \<lparr>failure_index = k, failure_kind = failure_kind_from_error kind,
               failure_reason = describe_produce_error err kind topic\<rparr>)
     \<and> not_attempted out = length records - k - 1"

lemma publish_from_spec:
  assumes "drop i records = rs" and "i \<le> length records"
    and "outcome = \<lparr>delivered = map (acknowledgement send topic p records) [0..<i], failure = None, not_attempted = 0\<rparr>"
    and "\<forall>j<i. sent_ok send topic p records j"
    and "errors = fold error_callback
           (concat (map (\<lambda>i. fst (send i (future_record topic p (records ! i)))) [0..<i])) default_context"
    and "publish_from send topic p (length records) i rs errors outcome = out"
  shows "\<exists>k. i \<le> k \<and> k \<le> length records
    \<and> delivered out = map (acknowledgement send topic p records) [0..<k]
    \<and> (\<forall>j<k. sent_ok send topic p records j)
    \<and> (k = length records \<and> failure out = None \<and> not_attempted out = 0 \<or> failed_at send topic p records k out)"
  using assms
proof (induction rs arbitrary: i outcome errors)
  case Nil
  then show ?case by (intro exI [of _ i]) auto
next
  case (Cons r rs)
  have i: "i < length records" using Cons.prems(1) by (metis drop_all list.distinct(1) not_le)
  have r: "records ! i = r" and rs: "drop (Suc i) records = rs"
    using Cons.prems(1) i by (simp_all add: Cons_nth_drop_Suc [symmetric])
  obtain cbs result where send: "send i (future_record topic p r) = (cbs, result)" by fastforce
  let ?errors = "fold error_callback cbs errors"
  have errors: "?errors = fold error_callback
      (concat (map (\<lambda>i. fst (send i (future_record topic p (records ! i)))) [0..<Suc i])) default_context"
    using Cons.prems(5) by (simp add: r send)
  show ?case
  proof (cases result)
    case (Inr d)
    obtain pt ofs where d: "d = (pt, ofs)" by (cases d)
    let ?o = "outcome\<lparr>delivered := delivered outcome @
        [\<lparr>delivered_index = i, delivered_partition = pt, delivered_offset = ofs\<rparr>]\<rparr>"
    have o: "?o = \<lparr>delivered = map (acknowledgement send topic p records) [0..<Suc i], failure = None,
        not_attempted = 0\<rparr>"
      using Cons.prems(3) by (simp add: acknowledgement_def r send Inr d)
    have ok: "\<forall>j<Suc i. sent_ok send topic p records j"
      using Cons.prems(4) by (auto simp: less_Suc_eq sent_ok_def r send Inr)
    have "publish_from send topic p (length records) (Suc i) rs ?errors ?o = out"
      using Cons.prems(6) by (simp add: send Inr d Let_def)
    from Cons.IH [OF rs _ o ok errors this] i show ?thesis by (meson Suc_leD Suc_leI)
  next
    case (Inl err)
    have "failed_at send topic p records i out"
      using Cons.prems(6) i errors unfolding failed_at_def callbacks_until_def
      by (auto simp: send Inl Let_def r)
    moreover have "delivered out = map (acknowledgement send topic p records) [0..<i]"
      using Cons.prems(3,6) by (auto simp: send Inl Let_def)
    ultimately show ?thesis using Cons.prems(2,4) by blast
  qed
qed

lemma publish_messages_spec:
  assumes "publish_messages None send topic p records = Inr out"
  shows "\<exists>k\<le>length records.
      delivered out = map (acknowledgement send topic p records) [0..<k]
    \<and> (\<forall>j<k. sent_ok send topic p records j)
    \<and> (k = length records \<and> failure out = None \<and> not_attempted out = 0 \<or> failed_at send topic p records k out)"
  using publish_from_spec [of 0 records records default_outcome send topic p default_context out] assms
  by (auto simp: publish_messages_def default_outcome_def)

section \<open>Properties\<close>

text \<open>C11: A publish says exactly what became of every record: the delivered ones are an initial
  segment of the batch, each with the partition and offset the broker acknowledged it at; when the
  segment is not the whole batch the next record is the one that failed, and the rest were never
  attempted.\<close>
theorem publish_outcome_accounts:
  assumes "publish_messages None send topic p records = Inr out"
    and "k = length (delivered out)"
  shows "(\<forall>i<k. \<exists>pt ofs. snd (send i (future_record topic p (records ! i))) = Inr (pt, ofs)
        \<and> delivered out ! i = \<lparr>delivered_index = i, delivered_partition = pt, delivered_offset = ofs\<rparr>)
    \<and> (case failure out of
         None \<Rightarrow> k = length records \<and> not_attempted out = 0
       | Some f \<Rightarrow> failure_index f = k \<and> k + 1 + not_attempted out = length records
           \<and> (\<exists>err. snd (send k (future_record topic p (records ! k))) = Inl err))"
proof -
  obtain n where n: "n \<le> length records"
    "delivered out = map (acknowledgement send topic p records) [0..<n]"
    "\<forall>j<n. sent_ok send topic p records j"
    "n = length records \<and> failure out = None \<and> not_attempted out = 0 \<or> failed_at send topic p records n out"
    using publish_messages_spec [OF assms(1)] by blast
  have k: "k = n" using n(2) assms(2) by simp
  have "\<exists>pt ofs. snd (send i (future_record topic p (records ! i))) = Inr (pt, ofs)
      \<and> delivered out ! i = \<lparr>delivered_index = i, delivered_partition = pt, delivered_offset = ofs\<rparr>"
    if i: "i < k" for i
  proof -
    obtain pt ofs where d: "snd (send i (future_record topic p (records ! i))) = Inr (pt, ofs)"
      using n(3) i k by (auto simp: sent_ok_def)
    have "delivered out ! i = acknowledgement send topic p records i" using n(2) i k by simp
    with d show ?thesis by (simp add: acknowledgement_def)
  qed
  moreover have "case failure out of
         None \<Rightarrow> k = length records \<and> not_attempted out = 0
       | Some f \<Rightarrow> failure_index f = k \<and> k + 1 + not_attempted out = length records
           \<and> (\<exists>err. snd (send k (future_record topic p (records ! k))) = Inl err)"
    using n(4) k by (auto simp: failed_at_def)
  ultimately show ?thesis by blast
qed

text \<open>A three-record batch whose second record the broker refuses.\<close>

definition example_record :: encoded_record where
  "example_record = \<lparr>record_key = None, record_value = Some [1], record_headers = []\<rparr>"

definition example_send :: send where
  "example_send i r =
     (if i = 0 then ([], Inr (0, 7))
      else ([''SASL authentication error'', ''1/1 brokers are down''],
            Inl \<lparr>rdkafka_error_code = Some (RD_Other 192), error_text = ''timed out''\<rparr>))"

theorem publish_outcome_accounts_witness:
  "\<exists>out. publish_messages None example_send ''t'' 0 [example_record, example_record, example_record] = Inr out
    \<and> length (delivered out) = 1 \<and> not_attempted out = 1"
proof -
  let ?rs = "[example_record, example_record, example_record]"
  obtain out where out: "publish_messages None example_send ''t'' 0 ?rs = Inr out"
    by (simp add: publish_messages_def)
  have d: "length (delivered out) = 1" and f: "failure out \<noteq> None"
    using out by (auto simp: publish_messages_def example_send_def default_outcome_def Let_def)
  show ?thesis using publish_outcome_accounts [OF out refl] out d f by (auto simp: numeral_3_eq_3)
qed

text \<open>A rejected password is recognised whatever the error code says: when any reason reported
  up to the failing record describes an authentication failure, the failure is an authentication
  failure, even if the reasons reported after it do not.\<close>
theorem publish_auth_reason_wins:
  assumes "publish_messages None send topic p records = Inr out" and "failure out = Some f"
    and "why \<in> set (fst (send j (future_record topic p (records ! j))))" and "j \<le> failure_index f"
    and "is_auth_failure_reason why"
  shows "failure_kind f = AuthenticationFailure"
proof -
  obtain k where k: "failed_at send topic p records k out"
    using publish_messages_spec [OF assms(1)] assms(2) by auto
  then have idx: "failure_index f = k" using assms(2) by (auto simp: failed_at_def)
  let ?cbs = "callbacks_until send topic p records k"
  have "why \<in> set ?cbs" using assms(3,4) idx
    by (auto simp: callbacks_until_def less_Suc_eq_le simp del: upt_Suc intro!: bexI [of _ j])
  then obtain a where a: "find is_auth_failure_reason ?cbs = Some a" "is_auth_failure_reason a"
    using assms(5) by (metis find_None_iff find_Some_iff not_None_eq)
  have "failure_reason_of (fold error_callback ?cbs default_context) = Some a"
    by (simp add: failure_reason_of_def auth_error_found default_context_def a(1))
  with k a(2) assms(2) show ?thesis
    by (auto simp: failed_at_def classify_produce_error_def is_auth_failure_def)
qed

theorem publish_auth_reason_wins_witness:
  "\<exists>out f. publish_messages None example_send ''t'' 0 [example_record, example_record] = Inr out
      \<and> failure out = Some f \<and> failure_kind f = AuthenticationFailure"
proof -
  let ?rs = "[example_record, example_record]"
  obtain out where out: "publish_messages None example_send ''t'' 0 ?rs = Inr out"
    by (simp add: publish_messages_def)
  obtain f where f: "failure out = Some f" and "failure_index f = 1"
    using out by (auto simp: publish_messages_def example_send_def default_outcome_def Let_def)
  moreover have "is_auth_failure_reason ''SASL authentication error''" by code_simp
  ultimately have "failure_kind f = AuthenticationFailure"
    using publish_auth_reason_wins [OF out f, of "''SASL authentication error''" 1]
    by (simp add: example_send_def)
  with out f show ?thesis by blast
qed

text \<open>The sentence shown for a refused write ends in "Nothing was published." even when earlier
  records of the same batch reached the topic.\<close>
theorem nothing_published_may_be_wrong:
  "\<exists>send records out f. publish_messages None send topic p records = Inr out
    \<and> delivered out \<noteq> [] \<and> failure out = Some f
    \<and> str_contains (failure_reason f) ''Nothing was published.''"
proof -
  let ?send = "\<lambda>i r. if i = 0 then ([], Inr (p, 7))
     else ([], Inl \<lparr>rdkafka_error_code = Some RD_TopicAuthorizationFailed, error_text = []\<rparr>) :: _ \<times> (_ + int \<times> int)"
  let ?rs = "[example_record, example_record]"
  obtain out where out: "publish_messages None ?send topic p ?rs = Inr out"
    by (simp add: publish_messages_def)
  have kind: "classify_produce_error \<lparr>rdkafka_error_code = Some RD_TopicAuthorizationFailed, error_text = []\<rparr> None
      = Authorization"
    by code_simp
  have d: "delivered out \<noteq> []"
    using out by (auto simp: publish_messages_def default_outcome_def Let_def)
  have "\<exists>f a. failure out = Some f \<and> failure_reason f = a @ ''Nothing was published.'' @ []"
    using out kind
    by (auto simp: publish_messages_def default_outcome_def Let_def failure_reason_of_def
        default_context_def describe_produce_error_def)
  then show ?thesis using out d ends_with_contains by metis
qed

end
