(* ===== verification/Bytes.thy ===== *)
theory Bytes
  imports Salty_Prelude
begin

text \<open>
  What the binary parsers share: the JSON values they build, hexadecimal rendering, the UTF-8
  check of \<^verbatim>\<open>str::from_utf8\<close>, and the interface \<open>byte_reader\<close> of a reader that takes a value
  from a position of a slice and returns the position after it.
  A slice is never longer than \<^verbatim>\<open>isize::MAX\<close>.
\<close>

unbundle bit_operations_syntax

section \<open>Definitions\<close>

text \<open>
  A \<^verbatim>\<open>serde_json::Value\<close>. The workspace enables \<^verbatim>\<open>preserve_order\<close>, so an object is its
  entries in insertion order; a floating-point number is kept as its 64 bits.
\<close>

datatype json =
  JNull | JBool bool | JInt int | JFloat u64 | JString string | JArray "json list"
  | JObject "(string \<times> json) list"

definition hex_digit :: "nat \<Rightarrow> char" where
  "hex_digit d = (if d < 10 then char_of (48 + d) else char_of (87 + d))"

fun show_hex :: "nat \<Rightarrow> nat \<Rightarrow> string" where
  "show_hex 0 v = []"
| "show_hex (Suc n) v = show_hex n (v div 16) @ [hex_digit (v mod 16)]"

definition in_range :: "byte \<Rightarrow> nat \<Rightarrow> nat \<Rightarrow> bool" where
  "in_range b lo hi \<longleftrightarrow> lo \<le> unat b \<and> unat b \<le> hi"

text \<open>The well-formed sequences of the Unicode standard: no overlong form, no surrogate, at most
  U+10FFFF.\<close>

fun utf8_ok :: "byte list \<Rightarrow> bool" where
  "utf8_ok [] = True"
| "utf8_ok (a # bs) =
     (if unat a < 128 then utf8_ok bs
      else case bs of
        [] \<Rightarrow> False
      | b # cs \<Rightarrow>
          if in_range a 0xC2 0xDF then in_range b 0x80 0xBF \<and> utf8_ok cs
          else case cs of
            [] \<Rightarrow> False
          | c # ds \<Rightarrow>
              if in_range a 0xE0 0xEF
              then in_range b (if unat a = 0xE0 then 0xA0 else 0x80) (if unat a = 0xED then 0x9F else 0xBF)
                   \<and> in_range c 0x80 0xBF \<and> utf8_ok ds
              else case ds of
                [] \<Rightarrow> False
              | d # es \<Rightarrow>
                  in_range a 0xF0 0xF4
                  \<and> in_range b (if unat a = 0xF0 then 0x90 else 0x80) (if unat a = 0xF4 then 0x8F else 0xBF)
                  \<and> in_range c 0x80 0xBF \<and> in_range d 0x80 0xBF \<and> utf8_ok es)"

text \<open>The slice \<^verbatim>\<open>bytes[i..j]\<close>, for bounds that were checked.\<close>

definition slice :: "'a list \<Rightarrow> nat \<Rightarrow> nat \<Rightarrow> 'a list" where
  "slice bs i j = take (j - i) (drop i bs)"

text \<open>A loop of \<open>n\<close> reads, each from where the one before it stopped.\<close>

fun read_many :: "(nat \<Rightarrow> ('a \<times> nat) option) \<Rightarrow> nat \<Rightarrow> nat \<Rightarrow> ('a list \<times> nat) option" where
  "read_many read 0 i = Some ([], i)"
| "read_many read (Suc n) i =
     (case read i of
        None \<Rightarrow> None
      | Some (v, j) \<Rightarrow>
          (case read_many read n j of
             None \<Rightarrow> None
           | Some (vs, k) \<Rightarrow> Some (v # vs, k)))"

section \<open>Lemmas\<close>

lemma length_slice [simp]: "i \<le> j \<Longrightarrow> j \<le> length bs \<Longrightarrow> length (slice bs i j) = j - i"
  by (simp add: slice_def)

lemma slice_append [simp]:
  "slice (pre @ mid @ rest) (length pre) (length pre + length mid) = mid"
  by (simp add: slice_def)

lemma length_show_hex [simp]: "length (show_hex n v) = n"
  by (induction n arbitrary: v) auto

lemma utf8_ok_ascii: "\<forall>b\<in>set bs. unat b < 128 \<Longrightarrow> utf8_ok bs"
  by (induction bs) auto

section \<open>Readers\<close>

locale byte_reader =
  fixes read :: "byte list \<Rightarrow> nat \<Rightarrow> ('a \<times> nat) option"
    and enc :: "'a \<Rightarrow> byte list"
    and valid :: "'a \<Rightarrow> bool"
  assumes progress: "read bs i = Some (v, j) \<Longrightarrow> i < j \<and> j \<le> length bs"
    and read_enc: "valid v \<Longrightarrow> length (pre @ enc v @ rest) < 2 ^ 63
          \<Longrightarrow> read (pre @ enc v @ rest) (length pre) = Some (v, length pre + length (enc v))"
begin

lemma many_progress: "read_many (read bs) n i = Some (vs, j) \<Longrightarrow> length vs = n \<and> i + n \<le> j \<and> (0 < n \<longrightarrow> j \<le> length bs)"
proof (induction n arbitrary: i vs)
  case (Suc n)
  then obtain v k ws where s: "read bs i = Some (v, k)" "read_many (read bs) n k = Some (ws, j)" "vs = v # ws"
    by (auto split: option.splits)
  show ?case using progress [OF s(1)] Suc.IH [OF s(2)] s by (cases n) auto
qed simp

lemma many_enc:
  "list_all valid vs \<Longrightarrow> length (pre @ concat (map enc vs) @ rest) < 2 ^ 63 \<Longrightarrow>
    read_many (read (pre @ concat (map enc vs) @ rest)) (length vs) (length pre)
      = Some (vs, length pre + length (concat (map enc vs)))"
proof (induction vs arbitrary: pre)
  case (Cons v vs)
  have "read (pre @ concat (map enc (v # vs)) @ rest) (length pre) = Some (v, length pre + length (enc v))"
    using read_enc [of v pre "concat (map enc vs) @ rest"] Cons.prems by simp
  moreover have "read_many (read (pre @ concat (map enc (v # vs)) @ rest)) (length vs) (length pre + length (enc v))
      = Some (vs, length pre + length (enc v) + length (concat (map enc vs)))"
    using Cons.IH [of "pre @ enc v"] Cons.prems by simp
  ultimately show ?case by simp
qed simp

end

end
