(* ===== verification/Wire.thy ===== *)
theory Wire
  imports Bytes
begin

text \<open>
  The protobuf wire format without a schema, \<^verbatim>\<open>backend/protobuf/src/wire.rs\<close>. A slice and an
  index into it are a byte list and a number; \<^verbatim>\<open>usize\<close> is 64 bits wide. How the standard
  library prints floating-point numbers is left to the parameters \<open>show_f64\<close> and \<open>show_f32\<close>,
  which are given the bits.
\<close>

section \<open>Definitions\<close>

datatype wire_type = Varint | Fixed64 | LengthDelimited | Fixed32

definition wire_type_from_bits :: "u64 \<Rightarrow> wire_type option" where
  "wire_type_from_bits bits =
     (if bits = 0 then Some Varint
      else if bits = 1 then Some Fixed64
      else if bits = 2 then Some LengthDelimited
      else if bits = 5 then Some Fixed32
      else None)"

function read_varint_loop :: "byte list \<Rightarrow> nat \<Rightarrow> nat \<Rightarrow> u64 \<Rightarrow> nat \<Rightarrow> (u64 \<times> nat) option" where
  "read_varint_loop bytes start index val shift =
     (if index < length bytes
      then
        let byte = bytes ! index in
        if 64 \<le> shift then None
        else
          let val = val OR push_bit shift (ucast (byte AND 0x7F));
              index = index + 1
          in if byte AND 0x80 = 0 then Some (val, index - start)
             else
               let shift = shift + 7
               in if 10 \<le> index - start then None
                  else read_varint_loop bytes start index val shift
      else None)"
  by auto
termination by (relation "measure (\<lambda>(bytes, start, index, val, shift). length bytes - index)") auto

declare read_varint_loop.simps [simp del]

definition read_varint :: "byte list \<Rightarrow> nat \<Rightarrow> (u64 \<times> nat) option" where
  "read_varint bytes start = read_varint_loop bytes start start 0 0"

definition zigzag_decode :: "u64 \<Rightarrow> int" where
  "zigzag_decode val = sint (drop_bit 1 val XOR (- (val AND 1)))"

definition MAX_DEPTH :: nat where
  "MAX_DEPTH = 32"

definition JSON_SAFE_MAX :: u64 where
  "JSON_SAFE_MAX = push_bit 53 1"

definition hex_preview :: "byte list \<Rightarrow> string" where
  "hex_preview bytes =
     (let shown = map (\<lambda>b. show_hex 2 (unat b)) (take 32 bytes)
      in if 32 < length bytes
         then str_join '' '' shown @ [CHR 0xE2, CHR 0x80, CHR 0xA6]
         else str_join '' '' shown)"

text \<open>The bytes of one field after its key, before a length-delimited run is interpreted.\<close>

datatype raw_value = RawVarint u64 | RawFixed64 u64 | RawFixed32 u32 | RawBytes "byte list"

definition le_nat :: "byte list \<Rightarrow> nat" where
  "le_nat bs = be_nat (rev bs)"

definition read_value :: "byte list \<Rightarrow> wire_type \<Rightarrow> nat \<Rightarrow> (raw_value \<times> nat) option" where
  "read_value bytes wt index =
     (case wt of
        Varint \<Rightarrow>
          (case read_varint bytes index of
             None \<Rightarrow> None
           | Some (raw, used) \<Rightarrow> Some (RawVarint raw, index + used))
      | Fixed64 \<Rightarrow>
          if length bytes < index + 8 then None
          else Some (RawFixed64 (of_nat (le_nat (slice bytes index (index + 8)))), index + 8)
      | Fixed32 \<Rightarrow>
          if length bytes < index + 4 then None
          else Some (RawFixed32 (of_nat (le_nat (slice bytes index (index + 4)))), index + 4)
      | LengthDelimited \<Rightarrow>
          (case read_varint bytes index of
             None \<Rightarrow> None
           | Some (len, used) \<Rightarrow>
               let index = index + used;
                   fin = index + unat len
               in if 2 ^ 64 \<le> fin then None
                  else if length bytes < fin then None
                  else Some (RawBytes (slice bytes index fin), fin)))"

definition read_field :: "byte list \<Rightarrow> nat \<Rightarrow> (u64 \<times> raw_value \<times> nat) option" where
  "read_field bytes index =
     (case read_varint bytes index of
        None \<Rightarrow> None
      | Some (key, used) \<Rightarrow>
          let index = index + used in
          case wire_type_from_bits (key AND 0x07) of
            None \<Rightarrow> None
          | Some wt \<Rightarrow>
              let field_number = drop_bit 3 key in
              if field_number = 0 then None
              else case read_value bytes wt index of
                     None \<Rightarrow> None
                   | Some (v, index) \<Rightarrow> Some (field_number, v, index))"

text \<open>A field seen again turns its entry into an array.\<close>

fun add_field :: "string \<Rightarrow> json \<Rightarrow> (string \<times> json) list \<Rightarrow> (string \<times> json) list" where
  "add_field key v [] = [(key, v)]"
| "add_field key v ((k, e) # fields) =
     (if k = key
      then (k, case e of JArray existing \<Rightarrow> JArray (existing @ [v]) | first \<Rightarrow> JArray [first, v]) # fields
      else (k, e) # add_field key v fields)"

lemma read_varint_loop_bounds:
  "read_varint_loop bytes start index val shift = Some (v, used) \<Longrightarrow> start \<le> index \<Longrightarrow>
    index - start < used \<and> start + used \<le> length bytes
    \<and> (index < start + 10 \<longrightarrow> used \<le> 10)"
proof (induction bytes start index val shift rule: read_varint_loop.induct)
  case (1 bytes start index val shift)
  note step = "1.prems"(1) [unfolded read_varint_loop.simps [of bytes start index val shift] Let_def]
  have lt: "index < length bytes" and sh: "\<not> 64 \<le> shift" using step by (auto split: if_splits)
  show ?case
  proof (cases "bytes ! index AND 0x80 = 0")
    case True
    then show ?thesis using step lt sh "1.prems"(2) by (auto split: if_splits)
  next
    case False
    then have nt: "\<not> 10 \<le> index + 1 - start" using step lt sh by (auto split: if_splits)
    show ?thesis
      using "1.IH" [OF lt refl sh refl refl False refl nt] step lt sh False nt "1.prems"(2)
      by auto
  qed
qed

lemma read_varint_bounds:
  "read_varint bytes start = Some (v, used) \<Longrightarrow> 0 < used \<and> used \<le> 10 \<and> start + used \<le> length bytes"
  using read_varint_loop_bounds [of bytes start start 0 0 v used] by (simp add: read_varint_def)

lemma read_value_bounds:
  "read_value bytes wt index = Some (v, j) \<Longrightarrow> index < j \<and> j \<le> length bytes
    \<and> (\<forall>c. v = RawBytes c \<longrightarrow> length c < j - index)"
  by (cases wt) (auto simp: read_value_def Let_def dest!: read_varint_bounds split: option.splits if_splits)

lemma read_field_bounds:
  "read_field bytes index = Some (n, v, j) \<Longrightarrow> index < j \<and> j \<le> length bytes
    \<and> (\<forall>c. v = RawBytes c \<longrightarrow> Suc (length c) < j - index)"
  by (auto simp: read_field_def Let_def dest!: read_varint_bounds read_value_bounds split: option.splits if_splits)

fun render_scalar :: "(u64 \<Rightarrow> string) \<Rightarrow> (u32 \<Rightarrow> string) \<Rightarrow> raw_value \<Rightarrow> json" where
  "render_scalar show_f64 show_f32 (RawVarint raw) =
     (if raw < JSON_SAFE_MAX then JInt (uint raw)
      else JString (show_nat (unat raw) @ '' (signed '' @ show_int (sint raw) @ '')''))"
| "render_scalar show_f64 show_f32 (RawFixed64 raw) =
     JString (''0x'' @ show_hex 16 (unat raw) @ '' (double '' @ show_f64 raw @ '')'')"
| "render_scalar show_f64 show_f32 (RawFixed32 raw) =
     JString (''0x'' @ show_hex 8 (unat raw) @ '' (float '' @ show_f32 raw @ '')'')"
| "render_scalar show_f64 show_f32 (RawBytes content) =
     (if utf8_ok content then JString (chars_of content)
      else JString (show_nat (length content) @ '' bytes: '' @ hex_preview content))"

function parse_nested ::
    "(u64 \<Rightarrow> string) \<Rightarrow> (u32 \<Rightarrow> string) \<Rightarrow> byte list \<Rightarrow> nat \<Rightarrow> (string \<times> json) list option"
  and decode_fields ::
    "(u64 \<Rightarrow> string) \<Rightarrow> (u32 \<Rightarrow> string) \<Rightarrow> byte list \<Rightarrow> nat \<Rightarrow> (string \<times> json) list option"
  and decode_loop ::
    "(u64 \<Rightarrow> string) \<Rightarrow> (u32 \<Rightarrow> string) \<Rightarrow> byte list \<Rightarrow> nat \<Rightarrow> nat \<Rightarrow> (string \<times> json) list
      \<Rightarrow> (string \<times> json) list option" where
  "parse_nested show_f64 show_f32 bytes depth =
     (if bytes = [] then None else decode_fields show_f64 show_f32 bytes depth)"
| "decode_fields show_f64 show_f32 bytes depth =
     (if MAX_DEPTH < depth then None else decode_loop show_f64 show_f32 bytes depth 0 [])"
| "decode_loop show_f64 show_f32 bytes depth index fields =
     (if index < length bytes
      then case read_field bytes index of
             None \<Rightarrow> None
           | Some (field_number, raw, next_index) \<Rightarrow>
               let val = (case raw of
                     RawBytes content \<Rightarrow>
                       (case parse_nested show_f64 show_f32 content (depth + 1) of
                          Some nested \<Rightarrow> JObject nested
                        | None \<Rightarrow> render_scalar show_f64 show_f32 raw)
                   | _ \<Rightarrow> render_scalar show_f64 show_f32 raw)
               in decode_loop show_f64 show_f32 bytes depth next_index
                    (add_field (show_nat (unat field_number)) val fields)
      else Some fields)"
  by pat_completeness auto
termination
  by (relation "measure (case_sum (\<lambda>(_, _, bytes, _). 3 * length bytes + 2)
        (case_sum (\<lambda>(_, _, bytes, _). 3 * length bytes + 1)
          (\<lambda>(_, _, bytes, _, index, _). 3 * (length bytes - index))))")
    (auto dest!: read_field_bounds)

declare parse_nested.simps [simp del] decode_fields.simps [simp del] decode_loop.simps [simp del]

definition decode_raw :: "(u64 \<Rightarrow> string) \<Rightarrow> (u32 \<Rightarrow> string) \<Rightarrow> byte list \<Rightarrow> json option" where
  "decode_raw show_f64 show_f32 bytes = map_option JObject (decode_fields show_f64 show_f32 bytes 0)"

section \<open>The varint codec\<close>

function enc_varint :: "u64 \<Rightarrow> byte list" where
  "enc_varint w =
     (if drop_bit 7 w = 0 then [ucast (take_bit 7 w)]
      else (ucast (take_bit 7 w) OR 0x80) # enc_varint (drop_bit 7 w))"
  by auto
termination
proof (relation "measure unat")
  fix w :: u64
  assume "drop_bit 7 w \<noteq> 0"
  then have "0 < unat (drop_bit 7 w)" by (simp add: unat_gt_0)
  moreover have "unat (drop_bit 7 w) = unat w div 128" by (simp add: unat_drop_bit_eq drop_bit_eq_div [of _ "unat w"])
  ultimately show "(drop_bit 7 w, w) \<in> measure unat" by simp
qed simp

declare enc_varint.simps [simp del]

lemma and_7F: "b AND 0x7F = take_bit 7 (b :: byte)"
  by (simp add: take_bit_eq_mask mask_eq_exp_minus_1)

lemma and_80: "b AND 0x80 = 0 \<longleftrightarrow> \<not> bit (b :: byte) 7"
  using and_exp_eq_0_iff_not_bit [of b 7] by simp

lemma or_80: "(b :: byte) OR 0x80 = set_bit 7 b"
  by (simp add: set_bit_eq_or)

lemma low_bits:
  "ucast (take_bit 7 (ucast (take_bit 7 w) :: byte)) = take_bit 7 (w :: u64)"
  "ucast (take_bit 7 ((ucast (take_bit 7 w) :: byte) OR 0x80)) = take_bit 7 (w :: u64)"
  "bit ((b :: byte) OR 0x80) 7"
  "\<not> bit (ucast (take_bit 7 w) :: byte) 7"
proof -
  show "ucast (take_bit 7 (ucast (take_bit 7 w) :: byte)) = take_bit 7 w"
    by (rule bit_eqI) (auto simp: bit_simps)
  show "ucast (take_bit 7 ((ucast (take_bit 7 w) :: byte) OR 0x80)) = take_bit 7 w"
    unfolding or_80 by (rule bit_eqI) (auto simp: bit_simps)
  show "bit (b OR 0x80) 7" unfolding or_80 by (simp add: bit_simps)
  show "\<not> bit (ucast (take_bit 7 w) :: byte) 7" by (simp add: bit_simps)
qed

lemma join_bits: "take_bit k v OR push_bit k (take_bit 7 (drop_bit k v)) = take_bit (k + 7) (v :: u64)"
  by (rule bit_eqI) (auto simp: bit_simps)

lemma no_high_bits:
  assumes "drop_bit k (v :: u64) = 0"
  shows "take_bit k v = v"
  using bits_ident [of k v] assms by simp

lemma read_varint_loop_enc:
  fixes v :: u64
  assumes "w = drop_bit (7 * k) v" and "k \<le> 9" and "start + k = length pre"
  shows "read_varint_loop (pre @ enc_varint w @ rest) start (length pre) (take_bit (7 * k) v) (7 * k)
    = Some (v, k + length (enc_varint w))"
  using assms
proof (induction w arbitrary: k pre rule: enc_varint.induct)
  case (1 w)
  have w: "w = drop_bit (7 * k) v" and k: "k \<le> 9" and start: "start + k = length pre"
    using "1.prems" by auto
  have joined: "take_bit (7 * k) v OR push_bit (7 * k) (take_bit 7 w) = take_bit (7 * k + 7) v"
    by (simp only: w join_bits)
  show ?case
  proof (cases "drop_bit 7 w = 0")
    case True
    then have enc: "enc_varint w = [ucast (take_bit 7 w)]" by (simp add: enc_varint.simps)
    have "drop_bit (7 * k + 7) v = 0" using True by (simp add: w add.commute)
    then have whole: "take_bit (7 * k + 7) v = v" by (rule no_high_bits)
    have index: "length pre + 1 - start = k + 1" using start by simp
    show ?thesis
      using k index
      by (subst read_varint_loop.simps)
        (simp add: enc Let_def and_7F and_80 low_bits joined whole)
  next
    case False
    then have enc: "enc_varint w = (ucast (take_bit 7 w) OR 0x80) # enc_varint (drop_bit 7 w)"
      by (subst enc_varint.simps) simp
    have k9: "k < 9"
    proof (rule ccontr)
      assume "\<not> k < 9"
      with k have "k = 9" by simp
      then have "drop_bit 7 w = 0" unfolding w
        by (intro bit_eqI) (auto simp: bit_simps dest: bit_imp_le_length)
      with False show False by simp
    qed
    have w': "drop_bit 7 w = drop_bit (7 * Suc k) v" by (simp add: w add.commute)
    let ?pre = "pre @ [ucast (take_bit 7 w) OR 0x80]"
    have IH: "read_varint_loop (?pre @ enc_varint (drop_bit 7 w) @ rest) start (length ?pre)
        (take_bit (7 * Suc k) v) (7 * Suc k) = Some (v, Suc k + length (enc_varint (drop_bit 7 w)))"
      using k9 start by (intro "1.IH" [OF False w']) auto
    have index: "length pre + 1 - start = k + 1" using start by simp
    have loop: "read_varint_loop (pre @ enc_varint w @ rest) start (length pre) (take_bit (7 * k) v) (7 * k)
      = read_varint_loop (pre @ enc_varint w @ rest) start (length pre + 1) (take_bit (7 * k + 7) v) (7 * k + 7)"
      using k9 index
      by (subst read_varint_loop.simps) (simp add: enc Let_def and_7F and_80 low_bits joined)
    show ?thesis using IH unfolding loop by (simp add: enc algebra_simps)
  qed
qed

lemma read_varint_enc:
  "read_varint (pre @ enc_varint v @ rest) (length pre) = Some (v, length (enc_varint v))"
  using read_varint_loop_enc [where w = v and k = 0 and v = v and pre = pre and start = "length pre"]
  by (simp add: read_varint_def)

text \<open>A varint as an absolute reader, and the laws of the interface for it.\<close>

definition varint_at :: "byte list \<Rightarrow> nat \<Rightarrow> (u64 \<times> nat) option" where
  "varint_at bytes i = map_option (\<lambda>(v, used). (v, i + used)) (read_varint bytes i)"

interpretation varint: byte_reader varint_at enc_varint "\<lambda>_. True"
  by unfold_locales
    (auto simp: varint_at_def read_varint_enc dest!: read_varint_bounds)

section \<open>Zigzag\<close>

definition zigzag_encode :: "int \<Rightarrow> u64" where
  "zigzag_encode i = of_int (if 0 \<le> i then 2 * i else - 2 * i - 1)"

lemma zigzag_decode_eq:
  "zigzag_decode v = (if even (uint v) then uint v div 2 else - (uint v div 2) - 1)"
proof -
  have half: "uint (drop_bit 1 v) = uint v div 2"
    unfolding word_div_def by (simp add: drop_bit_eq_div uint_div)
  have "uint v div 2 < 2 ^ 63" using uint_lt2p [of v] by simp
  then have "uint (drop_bit 1 v) < 2 ^ 63" "- (2 ^ 63) \<le> uint (drop_bit 1 v)"
    using half uint_ge_0 [of "drop_bit 1 v"] by linarith+
  then have sint: "sint (drop_bit 1 v) = uint v div 2"
    unfolding half [symmetric] by (simp add: sint_uint signed_take_bit_int_eq_self_iff)
  have "even v \<longleftrightarrow> even (uint v)" by transfer (simp add: even_take_bit_eq)
  then have low: "v AND 1 = (if even (uint v) then 0 else 1)"
    by (simp add: and_one_eq mod2_eq_if)
  have neg: "sint (NOT x) = - sint x - 1" for x :: u64
  proof -
    have "sint (NOT x) = signed_take_bit 64 (NOT (sint x))" using signed_not_eq [of x] by simp
    also have "\<dots> = NOT (sint x)"
      using sint_ge [of x] sint_lt [of x] by (intro signed_take_bit_int_eq_self) (simp_all add: not_int_def)
    finally show ?thesis by (simp add: not_int_def)
  qed
  then show ?thesis
    using sint low neg by (simp add: zigzag_decode_def del: not_eq_complement)
qed

lemma zigzag_roundtrip_in: "in_i64 i \<Longrightarrow> zigzag_decode (zigzag_encode i) = i"
proof -
  assume i: "in_i64 i"
  let ?n = "if 0 \<le> i then 2 * i else - 2 * i - 1"
  have "0 \<le> ?n" "?n < 2 ^ 64" using i by (auto simp: in_i64_def)
  then have n: "uint (zigzag_encode i) = ?n" by (simp add: zigzag_encode_def uint_word_of_int_eq take_bit_int_eq_self)
  show ?thesis
  proof (cases "0 \<le> i")
    case False
    have "?n = 2 * (- i - 1) + 1" using False by simp
    then have "odd ?n" "?n div 2 = - i - 1" by simp_all
    then show ?thesis unfolding zigzag_decode_eq n by simp
  qed (simp add: zigzag_decode_eq n)
qed

section \<open>The fields of a message\<close>

text \<open>The fields in wire order, without interpreting their contents.\<close>

function wire_fields :: "byte list \<Rightarrow> nat \<Rightarrow> (u64 \<times> raw_value) list option" where
  "wire_fields bytes index =
     (if index < length bytes
      then case read_field bytes index of
             None \<Rightarrow> None
           | Some (n, raw, next_index) \<Rightarrow> map_option ((#) (n, raw)) (wire_fields bytes next_index)
      else Some [])"
  by auto
termination
  by (relation "measure (\<lambda>(bytes, index). length bytes - index)") (auto dest!: read_field_bounds)

declare wire_fields.simps [simp del]

fun wire_bits :: "raw_value \<Rightarrow> u64" where
  "wire_bits (RawVarint v) = 0"
| "wire_bits (RawFixed64 v) = 1"
| "wire_bits (RawBytes c) = 2"
| "wire_bits (RawFixed32 v) = 5"

fun enc_value :: "raw_value \<Rightarrow> byte list" where
  "enc_value (RawVarint v) = enc_varint v"
| "enc_value (RawFixed64 v) = rev (be_bytes 8 (unat v))"
| "enc_value (RawBytes c) = enc_varint (of_nat (length c)) @ c"
| "enc_value (RawFixed32 v) = rev (be_bytes 4 (unat v))"

definition enc_field :: "u64 \<times> raw_value \<Rightarrow> byte list" where
  "enc_field f = enc_varint (push_bit 3 (fst f) OR wire_bits (snd f)) @ enc_value (snd f)"

definition field_ok :: "u64 \<times> raw_value \<Rightarrow> bool" where
  "field_ok f \<longleftrightarrow> fst f \<noteq> 0 \<and> drop_bit 61 (fst f) = 0"

lemma take_bit_wire_bits: "take_bit 3 (wire_bits v) = wire_bits v"
  by (cases v) (simp_all add: take_bit_eq_mod)

lemma and_7: "w AND 7 = take_bit 3 (w :: u64)"
  by (simp add: take_bit_eq_mask mask_eq_exp_minus_1)

lemma key_parts:
  assumes "take_bit 3 b = b" and "drop_bit 61 n = (0 :: u64)"
  shows "(push_bit 3 n OR b) AND 7 = b" and "drop_bit 3 (push_bit 3 n OR b) = n"
proof -
  have b: "\<not> bit b i" if "3 \<le> i" for i using assms(1) that by (metis bit_take_bit_iff not_le)
  have n: "\<not> bit n i" if "61 \<le> i" for i
  proof -
    have "bit (drop_bit 61 n) (i - 61) = bit n i" using that by (simp add: bit_drop_bit_eq)
    then show ?thesis using assms(2) by simp
  qed
  show "(push_bit 3 n OR b) AND 7 = b"
    unfolding and_7 by (subst (2) assms(1) [symmetric]) (rule bit_eqI, auto simp: bit_simps)
  show "drop_bit 3 (push_bit 3 n OR b) = n"
    by (rule bit_eqI) (use n in \<open>auto simp: bit_simps b not_le [symmetric]\<close>)
qed

lemma wire_type_of_bits:
  "wire_type_from_bits (wire_bits v) =
     Some (case v of RawVarint _ \<Rightarrow> Varint | RawFixed64 _ \<Rightarrow> Fixed64 | RawBytes _ \<Rightarrow> LengthDelimited
       | RawFixed32 _ \<Rightarrow> Fixed32)"
  by (cases v) (simp_all add: wire_type_from_bits_def)

lemma le_nat_rev [simp]: "le_nat (rev (be_bytes n v)) = be_nat (be_bytes n v)"
  by (simp add: le_nat_def)

lemma be_nat_word [simp]:
  "be_nat (be_bytes 8 (unat (v :: u64))) = unat v" "be_nat (be_bytes 4 (unat (w :: u32))) = unat w"
proof -
  have "unat v < 2 ^ 64" "unat w < 2 ^ 32"
    using unsigned_less [of v] unsigned_less [of w] by simp_all
  then have "unat v < 256 ^ 8" "unat w < 256 ^ 4" by simp_all
  then show "be_nat (be_bytes 8 (unat v)) = unat v" "be_nat (be_bytes 4 (unat w)) = unat w"
    using be_nat_be_bytes [of "unat v" 8] be_nat_be_bytes [of "unat w" 4] by blast+
qed

lemma read_value_enc:
  assumes "length (pre @ enc_value v @ rest) < 2 ^ 63"
    and "wt = (case v of RawVarint _ \<Rightarrow> Varint | RawFixed64 _ \<Rightarrow> Fixed64 | RawBytes _ \<Rightarrow> LengthDelimited
       | RawFixed32 _ \<Rightarrow> Fixed32)"
  shows "read_value (pre @ enc_value v @ rest) wt (length pre) = Some (v, length pre + length (enc_value v))"
proof (cases v)
  case (RawBytes c)
  let ?n = "enc_varint (of_nat (length c))"
  have len: "unat (of_nat (length c) :: u64) = length c" using assms(1) RawBytes by (simp add: unat_of_nat)
  have read: "read_varint (pre @ ?n @ c @ rest) (length pre) = Some (of_nat (length c), length ?n)"
    by (rule read_varint_enc)
  have "slice (pre @ ?n @ c @ rest) (length pre + length ?n) (length pre + length ?n + length c) = c"
    using slice_append [of "pre @ ?n" c rest] by simp
  then show ?thesis
    using assms RawBytes read len by (simp add: read_value_def Let_def)
next
  case (RawFixed64 x)
  then show ?thesis using assms slice_append [of pre "enc_value v" rest] by (simp add: read_value_def)
next
  case (RawFixed32 x)
  then show ?thesis using assms slice_append [of pre "enc_value v" rest] by (simp add: read_value_def)
qed (use assms in \<open>simp add: read_value_def read_varint_enc\<close>)

definition field_at :: "byte list \<Rightarrow> nat \<Rightarrow> ((u64 \<times> raw_value) \<times> nat) option" where
  "field_at bytes i = map_option (\<lambda>(n, raw, j). ((n, raw), j)) (read_field bytes i)"

interpretation field: byte_reader field_at enc_field field_ok
proof unfold_locales
  fix bs i v j
  assume "field_at bs i = Some (v, j)"
  then show "i < j \<and> j \<le> length bs"
    by (auto simp: field_at_def dest!: read_field_bounds)
next
  fix f pre rest
  assume ok: "field_ok f" and len: "length (pre @ enc_field f @ rest) < 2 ^ 63"
  obtain n raw where f: "f = (n, raw)" by (cases f)
  define k where "k = push_bit 3 n OR wire_bits raw"
  define wt where "wt = (case raw of RawVarint _ \<Rightarrow> Varint | RawFixed64 _ \<Rightarrow> Fixed64
      | RawBytes _ \<Rightarrow> LengthDelimited | RawFixed32 _ \<Rightarrow> Fixed32)"
  have enc: "enc_field f = enc_varint k @ enc_value raw" by (simp add: f enc_field_def k_def)
  have parts: "k AND 7 = wire_bits raw" "drop_bit 3 k = n"
    using ok unfolding k_def by (simp_all add: key_parts [OF take_bit_wire_bits] field_ok_def f del: drop_bit_or)
  have key: "read_varint (pre @ enc_field f @ rest) (length pre) = Some (k, length (enc_varint k))"
    using read_varint_enc [of pre k "enc_value raw @ rest"] by (simp add: enc)
  have val: "read_value (pre @ enc_field f @ rest) wt (length pre + length (enc_varint k))
      = Some (raw, length pre + length (enc_field f))"
    using read_value_enc [of "pre @ enc_varint k" raw rest wt] len by (simp add: enc wt_def)
  have "read_field (pre @ enc_field f @ rest) (length pre) = Some (n, raw, length pre + length (enc_field f))"
    using key val parts ok
    by (simp add: read_field_def f Let_def wire_type_of_bits wt_def [symmetric] field_ok_def)
  then show "field_at (pre @ enc_field f @ rest) (length pre) = Some (f, length pre + length (enc_field f))"
    by (simp add: field_at_def f)
qed

lemma wire_fields_many:
  "read_many (field_at bytes) n i = Some (fs, length bytes) \<Longrightarrow> wire_fields bytes i = Some fs"
proof (induction n arbitrary: i fs)
  case 0
  then show ?case by (simp add: wire_fields.simps [of bytes "length bytes"])
next
  case (Suc n)
  then obtain f j gs where f: "field_at bytes i = Some (f, j)"
    and gs: "read_many (field_at bytes) n j = Some (gs, length bytes)" "fs = f # gs"
    by (auto split: option.splits)
  obtain n' raw where s: "read_field bytes i = Some (n', raw, j)" "f = (n', raw)"
    using f by (auto simp: field_at_def)
  show ?case
    using Suc.IH [OF gs(1)] gs s read_field_bounds [OF s(1)] by (simp add: wire_fields.simps [of bytes i])
qed

lemma wire_fields_enc:
  assumes "list_all field_ok fs" and "length (concat (map enc_field fs)) < 2 ^ 63"
  shows "wire_fields (concat (map enc_field fs)) 0 = Some fs"
  using field.many_enc [of fs "[]" "[]"] assms wire_fields_many by simp

section \<open>What is shown\<close>

text \<open>The value shown for one occurrence of a field of a message at nesting depth \<open>depth\<close>.\<close>

definition shown_value :: "(u64 \<Rightarrow> string) \<Rightarrow> (u32 \<Rightarrow> string) \<Rightarrow> nat \<Rightarrow> raw_value \<Rightarrow> json" where
  "shown_value show_f64 show_f32 depth raw =
     (case raw of
        RawBytes content \<Rightarrow>
          (case parse_nested show_f64 show_f32 content (depth + 1) of
             Some nested \<Rightarrow> JObject nested
           | None \<Rightarrow> render_scalar show_f64 show_f32 raw)
      | _ \<Rightarrow> render_scalar show_f64 show_f32 raw)"

definition add_raw ::
    "(u64 \<Rightarrow> string) \<Rightarrow> (u32 \<Rightarrow> string) \<Rightarrow> nat \<Rightarrow> u64 \<times> raw_value \<Rightarrow> (string \<times> json) list \<Rightarrow> (string \<times> json) list" where
  "add_raw show_f64 show_f32 depth f fields =
     add_field (show_nat (unat (fst f))) (shown_value show_f64 show_f32 depth (snd f)) fields"

lemma decode_loop_eq:
  "decode_loop sf sd bytes depth index fields =
     map_option (\<lambda>raws. fold (add_raw sf sd depth) raws fields) (wire_fields bytes index)"
proof (induction "length bytes - index" arbitrary: index fields rule: less_induct)
  case less
  show ?case
  proof (cases "index < length bytes")
    case False
    then show ?thesis by (simp add: decode_loop.simps [of _ _ _ _ index] wire_fields.simps [of _ index])
  next
    case True
    show ?thesis
    proof (cases "read_field bytes index")
      case None
      with True show ?thesis by (simp add: decode_loop.simps [of _ _ _ _ index] wire_fields.simps [of _ index])
    next
      case (Some f)
      obtain n raw j where f: "f = (n, raw, j)" by (cases f)
      have step: "decode_loop sf sd bytes depth index fields
          = decode_loop sf sd bytes depth j (add_raw sf sd depth (n, raw) fields)"
        using True Some f
        by (simp add: decode_loop.simps [of _ _ _ _ index] add_raw_def shown_value_def Let_def)
      have "length bytes - j < length bytes - index"
        using read_field_bounds [of bytes index n raw j] Some f True by auto
      from less [OF this] show ?thesis
        unfolding step using True Some f
        by (simp add: wire_fields.simps [of _ index] option.map_comp comp_def)
    qed
  qed
qed

text \<open>One occurrence shows as its value, several as the array of their values.\<close>

fun collect :: "json list \<Rightarrow> json option" where
  "collect [] = None"
| "collect [v] = Some v"
| "collect vs = Some (JArray vs)"

lemma shown_value_not_array: "shown_value sf sd depth raw \<noteq> JArray vs"
  by (auto simp: shown_value_def split: raw_value.splits option.splits)

lemma map_of_add_field:
  assumes "bt_get fields k = collect vs" and "\<And>ws. v \<noteq> JArray ws" and "\<forall>u\<in>set vs. \<forall>ws. u \<noteq> JArray ws"
  shows "bt_get (add_field k v fields) k = collect (vs @ [v])"
  using assms
proof (induction k v fields rule: add_field.induct)
  case (1 k v)
  then have "vs = []" by (cases vs rule: collect.cases) auto
  then show ?case by simp
next
  case (2 k v k' e fields)
  show ?case
  proof (cases "k' = k")
    case True
    with 2 have e: "collect vs = Some e" by simp
    show ?thesis
    proof (cases vs rule: collect.cases)
      case (2 u)
      then show ?thesis using e assms(3) True "2.prems"(3) by (auto split: json.splits)
    qed (use e True in auto)
  next
    case False
    then show ?thesis using 2 by simp
  qed
qed

lemma map_of_add_field_other: "j \<noteq> k \<Longrightarrow> bt_get (add_field k v fields) j = bt_get fields j"
  by (induction k v fields rule: add_field.induct) auto

lemma keys_add_field: "fst ` set (add_field k v fields) = insert k (fst ` set fields)"
  by (induction k v fields rule: add_field.induct) auto

lemma distinct_add_field: "distinct (map fst fields) \<Longrightarrow> distinct (map fst (add_field k v fields))"
proof (induction k v fields rule: add_field.induct)
  case (2 k v k' e fields)
  then show ?case using keys_add_field [of k v fields] by (auto simp flip: set_map)
qed simp

lemma distinct_fold_add_raw:
  "distinct (map fst fields) \<Longrightarrow> distinct (map fst (fold (add_raw sf sd d) raws fields))"
  by (induction raws arbitrary: fields) (simp_all add: add_raw_def distinct_add_field)

lemma map_of_fold_add_raw:
  assumes "bt_get fields (show_nat n) = collect vs" and "\<forall>u\<in>set vs. \<forall>ws. u \<noteq> JArray ws"
  shows "bt_get (fold (add_raw sf sd d) raws fields) (show_nat n)
    = collect (vs @ map (\<lambda>f. shown_value sf sd d (snd f)) (filter (\<lambda>f. unat (fst f) = n) raws))"
  using assms
proof (induction raws arbitrary: fields vs)
  case (Cons f raws)
  show ?case
  proof (cases "unat (fst f) = n")
    case True
    let ?v = "shown_value sf sd d (snd f)"
    have "bt_get (add_raw sf sd d f fields) (show_nat n) = collect (vs @ [?v])"
      using map_of_add_field [OF Cons.prems(1) shown_value_not_array Cons.prems(2)] True
      by (simp add: add_raw_def)
    moreover have "\<forall>u\<in>set (vs @ [?v]). \<forall>ws. u \<noteq> JArray ws"
      using Cons.prems(2) shown_value_not_array by auto
    ultimately show ?thesis using Cons.IH True by fastforce
  next
    case False
    then have "bt_get (add_raw sf sd d f fields) (show_nat n) = collect vs"
      using Cons.prems(1) by (simp add: add_raw_def map_of_add_field_other)
    then show ?thesis using Cons.IH Cons.prems(2) False by simp
  qed
qed simp

lemma decode_raw_eq:
  "decode_raw sf sd bytes =
     map_option (\<lambda>raws. JObject (fold (add_raw sf sd 0) raws [])) (wire_fields bytes 0)"
  by (simp add: decode_raw_def decode_fields.simps MAX_DEPTH_def decode_loop_eq option.map_comp comp_def)

text \<open>How deep the objects of a value nest.\<close>

fun obj_depth :: "json \<Rightarrow> nat" where
  "obj_depth (JArray vs) = fold max (map obj_depth vs) 0"
| "obj_depth (JObject fields) = Suc (fold max (map (\<lambda>(k, v). obj_depth v) fields) 0)"
| "obj_depth _ = 0"

definition fields_depth_le :: "nat \<Rightarrow> (string \<times> json) list \<Rightarrow> bool" where
  "fields_depth_le n fields \<longleftrightarrow> (\<forall>(k, v)\<in>set fields. obj_depth v \<le> n)"

lemma fold_max_le: "fold max ns (m :: nat) \<le> b \<longleftrightarrow> m \<le> b \<and> (\<forall>n\<in>set ns. n \<le> b)"
  by (induction ns arbitrary: m) auto

lemma obj_depth_object: "obj_depth (JObject fields) \<le> Suc n \<longleftrightarrow> fields_depth_le n fields"
  by (auto simp: fold_max_le fields_depth_le_def)

lemma obj_depth_array: "obj_depth (JArray vs) \<le> n \<longleftrightarrow> (\<forall>v\<in>set vs. obj_depth v \<le> n)"
  by (auto simp: fold_max_le)

lemma obj_depth_scalar: "obj_depth (render_scalar sf sd raw) = 0"
  by (cases raw) auto

lemma fields_depth_add:
  "fields_depth_le n fields \<Longrightarrow> obj_depth v \<le> n \<Longrightarrow> fields_depth_le n (add_field k v fields)"
proof (induction k v fields rule: add_field.induct)
  case (2 k v k' e fields)
  have rest: "fields_depth_le n fields" and e: "obj_depth e \<le> n"
    using "2.prems" by (simp_all add: fields_depth_le_def)
  show ?case
  proof (cases "k' = k")
    case True
    have "obj_depth (case e of JArray existing \<Rightarrow> JArray (existing @ [v]) | first \<Rightarrow> JArray [first, v]) \<le> n"
      using e "2.prems"(2) by (cases e) (auto simp: fold_max_le)
    then show ?thesis using True rest by (auto simp: fields_depth_le_def)
  next
    case False
    then show ?thesis using 2 rest e by (auto simp: fields_depth_le_def)
  qed
qed (simp add: fields_depth_le_def)

lemma decode_depth:
  "parse_nested sf sd bytes depth = Some fs \<Longrightarrow> depth \<le> MAX_DEPTH \<and> fields_depth_le (MAX_DEPTH - depth) fs"
  "decode_fields sf sd bytes depth = Some fs \<Longrightarrow> depth \<le> MAX_DEPTH \<and> fields_depth_le (MAX_DEPTH - depth) fs"
  "decode_loop sf sd bytes depth index fields = Some fs \<Longrightarrow> depth \<le> MAX_DEPTH
     \<Longrightarrow> fields_depth_le (MAX_DEPTH - depth) fields \<Longrightarrow> fields_depth_le (MAX_DEPTH - depth) fs"
proof (induction sf sd bytes depth and sf sd bytes depth and sf sd bytes depth index fields
    arbitrary: fs and fs and fs rule: parse_nested_decode_fields_decode_loop.induct)
  case (1 sf sd bytes depth)
  then show ?case by (simp add: parse_nested.simps split: if_splits)
next
  case (2 sf sd bytes depth)
  then show ?case
    by (simp add: decode_fields.simps [of _ _ _ depth] fields_depth_le_def split: if_splits)
next
  case (3 sf sd bytes depth index fields)
  show ?case
  proof (cases "index < length bytes")
    case True
    then obtain n raw j where f: "read_field bytes index = Some (n, raw, j)"
      using "3.prems"(1) by (auto simp: decode_loop.simps [of _ _ _ _ index] split: option.splits)
    have step: "decode_loop sf sd bytes depth j
        (add_field (show_nat (unat n)) (shown_value sf sd depth raw) fields) = Some fs"
      using True f "3.prems"(1) by (simp add: decode_loop.simps [of _ _ _ _ index] shown_value_def Let_def)
    have "obj_depth (shown_value sf sd depth raw) \<le> MAX_DEPTH - depth"
    proof (cases "\<exists>c nested. raw = RawBytes c \<and> parse_nested sf sd c (depth + 1) = Some nested")
      case nested: True
      then obtain c fs' where c: "raw = RawBytes c" "parse_nested sf sd c (depth + 1) = Some fs'" by blast
      have "depth + 1 \<le> MAX_DEPTH \<and> fields_depth_le (MAX_DEPTH - (depth + 1)) fs'"
        using "3.IH"(1) [OF True f refl refl c(1)] c(2) by simp
      then have "obj_depth (JObject fs') \<le> Suc (MAX_DEPTH - (depth + 1))" "Suc (MAX_DEPTH - (depth + 1)) = MAX_DEPTH - depth"
        by (simp add: obj_depth_object del: obj_depth.simps, linarith)
      then show ?thesis using c by (simp add: shown_value_def del: obj_depth.simps)
    next
      case False
      then show ?thesis
        by (auto simp: shown_value_def obj_depth_scalar split: raw_value.splits option.splits)
    qed
    then have add: "fields_depth_le (MAX_DEPTH - depth)
        (add_field (show_nat (unat n)) (shown_value sf sd depth raw) fields)"
      using "3.prems"(3) by (intro fields_depth_add)
    show ?thesis
      using "3.IH"(2) [OF True f refl refl refl, folded shown_value_def, OF _ "3.prems"(2)] step add by simp
  next
    case False
    then show ?thesis using "3.prems" by (simp add: decode_loop.simps [of _ _ _ _ index])
  qed
qed

section \<open>Properties\<close>

text \<open>Reading a varint never leaves the slice: a value takes one to ten bytes, all of them
  inside, and whatever 64-bit value was written as a varint at the position is the value read.\<close>
theorem varint_exact:
  "(case read_varint bytes start of
      Some (v, used) \<Rightarrow> 0 < used \<and> used \<le> 10 \<and> start + used \<le> length bytes
    | None \<Rightarrow> \<not> (\<exists>v pre rest. bytes = pre @ enc_varint v @ rest \<and> length pre = start))
   \<and> read_varint (pre @ enc_varint v @ rest) (length pre) = Some (v, length (enc_varint v))"
proof -
  have "\<not> (\<exists>v pre rest. bytes = pre @ enc_varint v @ rest \<and> length pre = start)"
    if "read_varint bytes start = None"
    using that read_varint_enc by auto
  then show ?thesis
    using read_varint_enc [of pre v rest] by (auto dest: read_varint_bounds split: option.splits)
qed

text \<open>Zigzag decoding undoes zigzag encoding on every signed 64-bit integer.\<close>
theorem zigzag_roundtrip:
  assumes "in_i64 i"
  shows "zigzag_decode (zigzag_encode i) = i"
  using assms by (rule zigzag_roundtrip_in)

theorem zigzag_roundtrip_witness:
  "zigzag_decode (zigzag_encode (- 9223372036854775808)) = - 9223372036854775808"
  by (rule zigzag_roundtrip) (simp add: in_i64_def)

text \<open>No occurrence of a field is dropped: a schemaless decode shows exactly the fields on the
  wire, each key once; a field written once shows as its value and one written several times as the
  array of its values in wire order.\<close>
theorem repeated_fields_kept:
  assumes "decode_raw show_f64 show_f32 bytes = Some v"
  shows "\<exists>raws fields. wire_fields bytes 0 = Some raws \<and> v = JObject fields
    \<and> distinct (map fst fields)
    \<and> (\<forall>n. bt_get fields (show_nat n)
          = collect (map (\<lambda>f. shown_value show_f64 show_f32 0 (snd f)) (filter (\<lambda>f. unat (fst f) = n) raws)))"
proof -
  obtain raws where raws: "wire_fields bytes 0 = Some raws"
    and v: "v = JObject (fold (add_raw show_f64 show_f32 0) raws [])"
    using assms by (auto simp: decode_raw_eq)
  show ?thesis
    using raws v distinct_fold_add_raw [of "[]"] map_of_fold_add_raw [of "[]" _ "[]"] by auto
qed

theorem repeated_fields_kept_witness:
  "\<exists>v. decode_raw (\<lambda>_. []) (\<lambda>_. []) [8, 3, 8, 5] = Some v
    \<and> (\<exists>raws. wire_fields [8, 3, 8, 5] 0 = Some raws)"
proof -
  have raws: "wire_fields (concat (map enc_field [(1, RawVarint 3), (1, RawVarint 5)])) 0
      = Some [(1, RawVarint 3), (1, RawVarint 5)]"
    by (rule wire_fields_enc) (simp_all add: field_ok_def enc_field_def enc_varint.simps drop_bit_eq_div)
  have bytes: "concat (map enc_field [(1, RawVarint 3), (1, RawVarint 5)]) = [8, 3, 8, 5]"
    by (simp add: enc_field_def enc_varint.simps drop_bit_eq_div take_bit_eq_mod push_bit_eq_mult)
  obtain v where v: "decode_raw (\<lambda>_. []) (\<lambda>_. []) [8, 3, 8, 5] = Some v"
    using raws unfolding bytes by (simp add: decode_raw_eq)
  from repeated_fields_kept [OF v] v show ?thesis by blast
qed

text \<open>Whatever the payload, objects nest at most 33 deep in a schemaless decode, so the
  recursion that builds and renders them is bounded.\<close>
theorem decode_raw_depth:
  assumes "decode_raw show_f64 show_f32 bytes = Some v"
  shows "obj_depth v \<le> 33"
proof -
  obtain fs where fs: "decode_fields show_f64 show_f32 bytes 0 = Some fs" and v: "v = JObject fs"
    using assms by (auto simp: decode_raw_def)
  have "fields_depth_le 32 fs" using decode_depth(2) [OF fs] by (simp add: MAX_DEPTH_def)
  then show ?thesis
    using obj_depth_object [of fs 32] by (simp add: v del: obj_depth.simps)
qed

theorem decode_raw_depth_witness:
  "\<exists>v. decode_raw (\<lambda>_. []) (\<lambda>_. []) [] = Some v \<and> obj_depth v \<le> 33"
proof -
  obtain v where v: "decode_raw (\<lambda>_. []) (\<lambda>_. []) [] = Some v"
    by (simp add: decode_raw_eq wire_fields.simps)
  from decode_raw_depth [OF v] v show ?thesis by blast
qed

text \<open>C19: Every well-formed sequence of fields survives: the bytes of any list of varint, fixed-width
  and length-delimited fields are accepted, and the decode shows the values of that very list.\<close>
theorem wire_roundtrip:
  assumes "list_all field_ok fields" and "length (concat (map enc_field fields)) < 2 ^ 63"
  shows "wire_fields (concat (map enc_field fields)) 0 = Some fields
    \<and> decode_raw show_f64 show_f32 (concat (map enc_field fields))
        = Some (JObject (fold (add_raw show_f64 show_f32 0) fields []))"
  using wire_fields_enc [OF assms] by (simp add: decode_raw_eq)

theorem wire_roundtrip_witness:
  "wire_fields (concat (map enc_field [(1, RawVarint 300), (2, RawBytes [104, 105])])) 0
    = Some [(1, RawVarint 300), (2, RawBytes [104, 105])]"
  by (rule wire_roundtrip [THEN conjunct1])
    (simp_all add: field_ok_def enc_field_def enc_varint.simps drop_bit_eq_div)

end
