(* ===== verification/Protobuf.thy ===== *)
theory Protobuf
  imports Wire App_Error
begin

text \<open>
  Protobuf decoding with and without a schema, \<^verbatim>\<open>backend/protobuf/src/lib.rs\<close>: the Confluent
  framing, the choice of a strategy, the cache of compiled schemas and the choice of the message a
  payload is read as. The compiler and the dynamic decoder are library code: a record
  \<open>proto_lib\<close> of what the code asks of them.
\<close>

section \<open>Definitions\<close>

record confluent_header =
  schema_id :: u32
  message_index :: "int list"
  body_offset :: nat

definition in_i32 :: "int \<Rightarrow> bool" where
  "in_i32 x \<longleftrightarrow> - (2 ^ 31) \<le> x \<and> x < 2 ^ 31"

fun read_indexes :: "byte list \<Rightarrow> nat \<Rightarrow> nat \<Rightarrow> (int list \<times> nat) option" where
  "read_indexes bytes 0 offset = Some ([], offset)"
| "read_indexes bytes (Suc count) offset =
     (case read_varint bytes offset of
        None \<Rightarrow> None
      | Some (raw, used) \<Rightarrow>
          let offset = offset + used;
              i = zigzag_decode raw
          in if in_i32 i
             then case read_indexes bytes count offset of
                    None \<Rightarrow> None
                  | Some (rest, offset) \<Rightarrow> Some (i # rest, offset)
             else None)"

definition detect_confluent_header :: "byte list \<Rightarrow> confluent_header option" where
  "detect_confluent_header bytes =
     (if length bytes < 5 then None
      else if bytes ! 0 \<noteq> 0 then None
      else
        let sid = of_nat (be_nat [bytes ! 1, bytes ! 2, bytes ! 3, bytes ! 4]);
            offset = 5
        in case read_varint bytes offset of
             None \<Rightarrow> None
           | Some (first, used) \<Rightarrow>
               let offset = offset + used in
               if first = 0
               then Some \<lparr>schema_id = sid, message_index = [0], body_offset = offset\<rparr>
               else if zigzag_decode first < 0 then None
               else
                 let count = nat (zigzag_decode first) in
                 if 32 < count then None
                 else case read_indexes bytes count offset of
                        None \<Rightarrow> None
                      | Some (indexes, offset) \<Rightarrow>
                          Some \<lparr>schema_id = sid, message_index = indexes, body_offset = offset\<rparr>)"

datatype protobuf_decode_strategy =
  ProtoManualSchema nat "int list"
  | ProtoSchemaRegistry u32 nat "int list"
  | ProtoRawFields nat

definition proto_decide_decode_strategy :: "byte list \<Rightarrow> bool \<Rightarrow> bool \<Rightarrow> protobuf_decode_strategy" where
  "proto_decide_decode_strategy bytes has_manual_schema has_registry =
     (let header = detect_confluent_header bytes;
          (offset, index, sid) =
            (case header of
               Some h \<Rightarrow> (body_offset h, message_index h, Some (schema_id h))
             | None \<Rightarrow> (0, [0], None))
      in if has_manual_schema then ProtoManualSchema offset index
         else case sid of
                Some i \<Rightarrow> if has_registry then ProtoSchemaRegistry i offset index else ProtoRawFields offset
              | None \<Rightarrow> ProtoRawFields offset)"

datatype protobuf_schema_source = ManualSource | RegistrySource | NoSource

record protobuf_decoded =
  decoded_value :: json
  decoded_source :: protobuf_schema_source
  decoded_message_type :: "string option"

text \<open>
  The library: \<open>open_schema\<close> compiles a source text with the well-known imports, \<open>load_pool\<close>
  turns the result into a descriptor pool, \<open>schema_messages\<close> are the top-level messages of the
  pool's schema file (none when the file is missing), \<open>child_messages\<close> those nested in a message,
  and \<open>decode_message\<close> and \<open>message_json\<close> read and render a payload.
\<close>

record ('s, 'p, 'd, 'm) proto_lib =
  open_schema :: "string \<Rightarrow> 's option"
  load_pool :: "'s \<Rightarrow> 'p option"
  schema_messages :: "'p \<Rightarrow> 'd list option"
  child_messages :: "'d \<Rightarrow> 'd list"
  full_name :: "'d \<Rightarrow> string"
  decode_message :: "'d \<Rightarrow> byte list \<Rightarrow> 'm option"
  message_json :: "'m \<Rightarrow> json option"

definition SCHEMA_CACHE_ENTRIES :: nat where
  "SCHEMA_CACHE_ENTRIES = 8"

definition compile_uncached :: "('s, 'p, 'd, 'm) proto_lib \<Rightarrow> string \<Rightarrow> report + 'p" where
  "compile_uncached lib proto_text =
     (case open_schema lib proto_text of
        None \<Rightarrow> Inl (fail_with Decode ''invalid .proto schema'')
      | Some files \<Rightarrow>
          (case load_pool lib files of
             None \<Rightarrow> Inl (fail_with Decode ''the .proto schema compiled but could not be loaded'')
           | Some pool \<Rightarrow> Inr pool))"

text \<open>
  The cache is locked twice, for the lookup and for the insertion after compiling; other threads
  may insert in between.
\<close>

definition cache_lookup :: "string \<Rightarrow> (string \<times> 'p) list \<Rightarrow> 'p option" where
  "cache_lookup proto_text cache = map_option snd (find (\<lambda>e. fst e = proto_text) cache)"

definition cache_insert :: "string \<Rightarrow> 'p \<Rightarrow> (string \<times> 'p) list \<Rightarrow> (string \<times> 'p) list" where
  "cache_insert proto_text pool cache =
     (if \<not> list_ex (\<lambda>e. fst e = proto_text) cache
      then let cache = (if SCHEMA_CACHE_ENTRIES \<le> length cache then tl cache else cache)
           in cache @ [(proto_text, pool)]
      else cache)"

text \<open>\<open>between\<close> is what other threads do to the cache while this one compiles.\<close>

definition compile ::
    "('s, 'p, 'd, 'm) proto_lib \<Rightarrow> ((string \<times> 'p) list \<Rightarrow> (string \<times> 'p) list) \<Rightarrow> string \<Rightarrow> (string \<times> 'p) list
      \<Rightarrow> (report + 'p) \<times> (string \<times> 'p) list" where
  "compile lib between proto_text cache =
     (case cache_lookup proto_text cache of
        Some pool \<Rightarrow> (Inr pool, cache)
      | None \<Rightarrow>
          (case compile_uncached lib proto_text of
             Inl r \<Rightarrow> (Inl r, between cache)
           | Inr pool \<Rightarrow> (Inr pool, cache_insert proto_text pool (between cache))))"

definition proto_validate_schema ::
    "('s, 'p, 'd, 'm) proto_lib \<Rightarrow> ((string \<times> 'p) list \<Rightarrow> (string \<times> 'p) list) \<Rightarrow> string \<Rightarrow> (string \<times> 'p) list
      \<Rightarrow> (report + unit) \<times> (string \<times> 'p) list" where
  "proto_validate_schema lib between proto_text cache =
     (case compile lib between proto_text cache of
        (Inl r, cache) \<Rightarrow> (Inl r, cache)
      | (Inr pool, cache) \<Rightarrow>
          if (case schema_messages lib pool of Some messages \<Rightarrow> length messages = 0 | None \<Rightarrow> False)
          then (Inl (fail_with Decode ''the .proto schema declares no messages''), cache)
          else (Inr (), cache))"

fun walk_index ::
    "('s, 'p, 'd, 'm) proto_lib \<Rightarrow> 'd list \<Rightarrow> 'd option \<Rightarrow> int list \<Rightarrow> report + 'd option" where
  "walk_index lib messages current [] = Inr current"
| "walk_index lib messages current (step # steps) =
     (if 0 \<le> step \<and> nat step < length messages
      then let message = messages ! nat step
           in walk_index lib (child_messages lib message) (Some message) steps
      else Inl (fail_with Decode
             (''the payload names message index '' @ show_int step
              @ '', which this schema does not have '' @ em_dash @ '' ''
              @ ''the topic may be pointed at the wrong schema'')))"

definition message_at :: "('s, 'p, 'd, 'm) proto_lib \<Rightarrow> 'p \<Rightarrow> int list \<Rightarrow> report + 'd" where
  "message_at lib pool index =
     (case schema_messages lib pool of
        None \<Rightarrow> Inl (fail_with Decode ''the schema file went missing after compiling'')
      | Some messages \<Rightarrow>
          and_then (walk_index lib messages None index) (\<lambda>current.
          case current of
            None \<Rightarrow> Inl (fail_with Decode ''the .proto schema declares no messages'')
          | Some message \<Rightarrow> Inr message))"

definition sole_message :: "('s, 'p, 'd, 'm) proto_lib \<Rightarrow> 'p \<Rightarrow> 'd option" where
  "sole_message lib pool =
     (case schema_messages lib pool of
        None \<Rightarrow> None
      | Some [] \<Rightarrow> None
      | Some (first # rest) \<Rightarrow> if rest = [] then Some first else None)"

definition resolve_message ::
    "('s, 'p, 'd, 'm) proto_lib \<Rightarrow> 'p \<Rightarrow> int list \<Rightarrow> protobuf_schema_source \<Rightarrow> report + 'd" where
  "resolve_message lib pool index source =
     (case message_at lib pool index of
        Inr descriptor \<Rightarrow> Inr descriptor
      | Inl r \<Rightarrow>
          if source = ManualSource
          then case sole_message lib pool of Some d \<Rightarrow> Inr d | None \<Rightarrow> Inl r
          else Inl r)"

definition proto_decode ::
    "('s, 'p, 'd, 'm) proto_lib \<Rightarrow> ((string \<times> 'p) list \<Rightarrow> (string \<times> 'p) list) \<Rightarrow> byte list \<Rightarrow> string
      \<Rightarrow> int list \<Rightarrow> protobuf_schema_source \<Rightarrow> (string \<times> 'p) list
      \<Rightarrow> (report + protobuf_decoded) \<times> (string \<times> 'p) list" where
  "proto_decode lib between bytes proto_text index source cache =
     (let (compiled, cache) = compile lib between proto_text cache in
      (and_then compiled (\<lambda>pool.
       and_then (resolve_message lib pool index source) (\<lambda>descriptor.
       case decode_message lib descriptor bytes of
         None \<Rightarrow> Inl (fail_with Decode ''the payload does not match this .proto schema'')
       | Some message \<Rightarrow>
           (case message_json lib message of
              None \<Rightarrow> Inl (fail_with Decode ''the decoded message could not be rendered as JSON'')
            | Some v \<Rightarrow>
                Inr \<lparr>decoded_value = v, decoded_source = source,
                     decoded_message_type = Some (full_name lib descriptor)\<rparr>))), cache))"

definition decode_without_schema ::
    "(u64 \<Rightarrow> string) \<Rightarrow> (u32 \<Rightarrow> string) \<Rightarrow> byte list \<Rightarrow> report + protobuf_decoded" where
  "decode_without_schema show_f64 show_f32 bytes =
     (case decode_raw show_f64 show_f32 bytes of
        None \<Rightarrow> Inl (fail_with Decode
            (''payload isn't valid protobuf '' @ em_dash
             @ '' no schema is set for this topic and the bytes ''
             @ ''don't parse as protobuf wire format either''))
      | Some v \<Rightarrow> Inr \<lparr>decoded_value = v, decoded_source = NoSource, decoded_message_type = None\<rparr>)"

section \<open>Framing lemmas\<close>

lemma read_indexes_many:
  "read_indexes bytes n i =
     (case read_many (varint_at bytes) n i of
        None \<Rightarrow> None
      | Some (vs, j) \<Rightarrow>
          if list_all (\<lambda>v. in_i32 (zigzag_decode v)) vs then Some (map zigzag_decode vs, j) else None)"
proof (induction n arbitrary: i)
  case (Suc n)
  show ?case
  proof (cases "read_varint bytes i")
    case None
    then have "varint_at bytes i = None" by (simp add: varint_at_def)
    with None show ?thesis by simp
  next
    case (Some r)
    obtain v used where r: "r = (v, used)" by (cases r)
    have "varint_at bytes i = Some (v, i + used)" using Some r by (simp add: varint_at_def)
    then show ?thesis
      using Some r Suc.IH [of "i + used"] by (auto simp: Let_def split: option.splits)
  qed
qed simp

lemma read_indexes_bounds:
  assumes "read_indexes bytes n i = Some (ixs, j)" and "i \<le> length bytes"
  shows "length ixs = n \<and> list_all in_i32 ixs \<and> i + n \<le> j \<and> j \<le> length bytes"
proof -
  obtain vs where vs: "read_many (varint_at bytes) n i = Some (vs, j)" "ixs = map zigzag_decode vs"
    "list_all (\<lambda>v. in_i32 (zigzag_decode v)) vs"
    using assms(1) by (auto simp: read_indexes_many split: option.splits if_splits)
  have "n = 0 \<longrightarrow> j = i" using vs(1) by (cases n) auto
  then show ?thesis
    using varint.many_progress [OF vs(1)] vs assms(2) by (auto simp: list_all_iff)
qed

lemma zigzag_eq_0: "zigzag_decode v = 0 \<Longrightarrow> v = 0"
proof -
  assume z: "zigzag_decode v = 0"
  have "even (uint v) \<and> uint v div 2 = 0"
  proof (cases "even (uint v)")
    case False
    then have "- (uint v div 2) - 1 = 0" using z by (simp add: zigzag_decode_eq)
    moreover have "0 \<le> uint v div 2" by simp
    ultimately show ?thesis by linarith
  qed (use z in \<open>simp add: zigzag_decode_eq\<close>)
  then have "uint v = 0" by (metis dvd_div_eq_0_iff)
  then show "v = 0" by (simp add: uint_0_iff)
qed

definition enc_header :: "u32 \<Rightarrow> int list \<Rightarrow> byte list" where
  "enc_header sid index =
     0 # be_bytes 4 (unat sid)
     @ (if index = [0] then [0]
        else concat (map enc_varint (map zigzag_encode (int (length index) # index))))"

lemma be_bytes_4: "be_bytes 4 n = [be_bytes 4 n ! 0, be_bytes 4 n ! 1, be_bytes 4 n ! 2, be_bytes 4 n ! 3]"
  by (rule nth_equalityI) (auto simp: less_Suc_eq numeral_eq_Suc)

lemma framed_prefix:
  assumes "bytes = 0 # be_bytes 4 (unat (sid :: u32)) @ body"
  shows "\<not> length bytes < 5" and "bytes ! 0 = 0"
    and "of_nat (be_nat [bytes ! 1, bytes ! 2, bytes ! 3, bytes ! 4]) = sid"
proof -
  have "[bytes ! 1, bytes ! 2, bytes ! 3, bytes ! 4] = be_bytes 4 (unat sid)"
    by (subst be_bytes_4) (simp add: assms nth_append numeral_eq_Suc)
  then show "of_nat (be_nat [bytes ! 1, bytes ! 2, bytes ! 3, bytes ! 4]) = sid" by simp
qed (simp_all add: assms)

lemma enc_varint_0: "enc_varint 0 = [0]"
  by (simp add: enc_varint.simps)

lemma read_indexes_enc:
  assumes "list_all in_i32 ixs" and "length (pre @ concat (map enc_varint (map zigzag_encode ixs)) @ rest) < 2 ^ 63"
  shows "read_indexes (pre @ concat (map enc_varint (map zigzag_encode ixs)) @ rest) (length ixs) (length pre)
    = Some (ixs, length pre + length (concat (map enc_varint (map zigzag_encode ixs))))"
proof -
  have i64: "list_all in_i64 ixs" using assms(1) by (auto simp: list_all_iff in_i32_def in_i64_def)
  then have same: "map (zigzag_decode \<circ> zigzag_encode) ixs = ixs"
    by (intro map_idI) (auto simp: list_all_iff zigzag_roundtrip_in)
  have all: "list_all (\<lambda>v. in_i32 (zigzag_decode v)) (map zigzag_encode ixs)"
    using assms(1) i64 by (auto simp: list_all_iff zigzag_roundtrip_in)
  show ?thesis
    using varint.many_enc [of "map zigzag_encode ixs" pre rest] assms(2) all same
    by (simp add: read_indexes_many list_all_iff)
qed

section \<open>The schema cache\<close>

text \<open>The caches any number of threads can produce: entries are only ever inserted after the text
  they are filed under was compiled.\<close>

inductive cache_reachable :: "('s, 'p, 'd, 'm) proto_lib \<Rightarrow> (string \<times> 'p) list \<Rightarrow> bool"
  for lib :: "('s, 'p, 'd, 'm) proto_lib" where
  cache_empty: "cache_reachable lib []"
| cache_step: "cache_reachable lib cache \<Longrightarrow> compile_uncached lib proto_text = Inr pool
    \<Longrightarrow> cache_reachable lib (cache_insert proto_text pool cache)"

definition cache_inv :: "('s, 'p, 'd, 'm) proto_lib \<Rightarrow> (string \<times> 'p) list \<Rightarrow> bool" where
  "cache_inv lib cache \<longleftrightarrow> length cache \<le> SCHEMA_CACHE_ENTRIES \<and> distinct (map fst cache)
     \<and> (\<forall>(proto_text, pool)\<in>set cache. compile_uncached lib proto_text = Inr pool)"

lemma cache_insert_inv:
  assumes "cache_inv lib cache" and "compile_uncached lib proto_text = Inr pool"
  shows "cache_inv lib (cache_insert proto_text pool cache)"
proof (cases "list_ex (\<lambda>e. fst e = proto_text) cache")
  case True
  then show ?thesis using assms by (simp add: cache_insert_def)
next
  case False
  have new: "proto_text \<notin> set (map fst cache)" using False by (auto simp: list_ex_iff)
  have tl: "set (tl cache) \<subseteq> set cache" by (cases cache) auto
  have dist: "distinct (map fst (tl cache))" "proto_text \<notin> set (map fst (tl cache))"
    using assms(1) new by (cases cache; auto simp: cache_inv_def)+
  show ?thesis
    using assms new tl dist False
    by (auto simp: cache_inv_def cache_insert_def SCHEMA_CACHE_ENTRIES_def)
qed

lemma cache_reachable_inv: "cache_reachable lib cache \<Longrightarrow> cache_inv lib cache"
proof (induction rule: cache_reachable.induct)
  case cache_empty
  then show ?case by (simp add: cache_inv_def)
next
  case (cache_step cache proto_text pool)
  then show ?case by (blast intro: cache_insert_inv)
qed

lemma cache_lookup_sound:
  "cache_inv lib cache \<Longrightarrow> cache_lookup proto_text cache = Some pool \<Longrightarrow> compile_uncached lib proto_text = Inr pool"
  by (auto simp: cache_lookup_def cache_inv_def find_Some_iff dest!: nth_mem)

lemma compile_sound:
  assumes "cache_reachable lib cache" and "\<And>c. cache_reachable lib c \<Longrightarrow> cache_reachable lib (between c)"
  shows "fst (compile lib between proto_text cache) = compile_uncached lib proto_text
    \<and> cache_reachable lib (snd (compile lib between proto_text cache))"
  using assms cache_lookup_sound [OF cache_reachable_inv [OF assms(1)]]
  by (auto simp: compile_def intro: cache_step split: option.splits sum.splits)

section \<open>Properties\<close>

lemma detect_header_enc:
  assumes "index \<noteq> []" and "length index \<le> 32" and "list_all in_i32 index"
    and "length (enc_header sid index @ body) < 2 ^ 63"
  shows "detect_confluent_header (enc_header sid index @ body)
    = Some \<lparr>schema_id = sid, message_index = index, body_offset = length (enc_header sid index)\<rparr>"
proof (cases "index = [0]")
  case True
  let ?bytes = "0 # be_bytes 4 (unat sid) @ 0 # body"
  have bytes: "enc_header sid index @ body = ?bytes" by (simp add: enc_header_def True)
  note pre = framed_prefix [of ?bytes sid "0 # body", OF refl]
  have "read_varint ?bytes 5 = Some (0, 1)"
    using read_varint_enc [of "0 # be_bytes 4 (unat sid)" 0 body] by (simp add: enc_varint_0)
  then show ?thesis
    unfolding bytes using pre by (simp add: detect_confluent_header_def True enc_header_def Let_def)
next
  case False
  let ?pre = "0 # be_bytes 4 (unat sid)"
  let ?n = "enc_varint (zigzag_encode (int (length index)))"
  let ?rest = "concat (map enc_varint (map zigzag_encode index))"
  let ?bytes = "?pre @ ?n @ ?rest @ body"
  have enc: "enc_header sid index = ?pre @ ?n @ ?rest" using False by (simp add: enc_header_def)
  have bytes: "enc_header sid index @ body = ?bytes" by (simp add: enc)
  have pre: "\<not> length ?bytes < 5" "?bytes ! 0 = 0"
    "of_nat (be_nat [?bytes ! 1, ?bytes ! 2, ?bytes ! 3, ?bytes ! 4]) = sid"
    using framed_prefix [of ?bytes sid "?n @ ?rest @ body"] by simp_all
  have count: "zigzag_decode (zigzag_encode (int (length index))) = int (length index)"
    using assms(2) by (intro zigzag_roundtrip_in) (simp add: in_i64_def)
  have nz: "zigzag_encode (int (length index)) \<noteq> 0"
  proof
    assume "zigzag_encode (int (length index)) = 0"
    moreover have "zigzag_decode 0 = 0" by (simp add: zigzag_decode_eq)
    ultimately show False using count assms(1) by simp
  qed
  have first: "read_varint ?bytes 5 = Some (zigzag_encode (int (length index)), length ?n)"
    using read_varint_enc [of ?pre "zigzag_encode (int (length index))" "?rest @ body"] by simp
  have rest: "read_indexes ?bytes (length index) (5 + length ?n) = Some (index, 5 + length ?n + length ?rest)"
    using read_indexes_enc [OF assms(3), of "?pre @ ?n" body] assms(4) by (simp add: enc)
  show ?thesis
    unfolding bytes detect_confluent_header_def Let_def
    using pre first nz count rest assms(2) by (simp add: enc)
qed

text \<open>The framing written in front of a payload is the framing read back: the schema id, the
  message index path (with the one-byte form of the path [0]) and the offset of the payload.\<close>
theorem confluent_header_roundtrip:
  assumes "index \<noteq> []" and "length index \<le> 32" and "list_all in_i32 index"
    and "length (enc_header sid index @ body) < 2 ^ 63"
  shows "detect_confluent_header (enc_header sid index @ body)
    = Some \<lparr>schema_id = sid, message_index = index, body_offset = length (enc_header sid index)\<rparr>"
  using assms by (rule detect_header_enc)

theorem confluent_header_roundtrip_witness:
  "detect_confluent_header (enc_header 7 [1, 0] @ [8, 1])
    = Some \<lparr>schema_id = 7, message_index = [1, 0], body_offset = length (enc_header 7 [1, 0])\<rparr>"
  by (rule confluent_header_roundtrip)
    (simp_all add: in_i32_def enc_header_def zigzag_encode_def enc_varint.simps drop_bit_eq_div)

text \<open>A header that is accepted lies inside the payload: its offset is past the five fixed bytes
  and at most the payload's length, and its path has one to 32 indexes, each a 32-bit integer.\<close>
theorem confluent_header_bounds:
  assumes "detect_confluent_header bytes = Some h"
  shows "6 \<le> body_offset h \<and> body_offset h \<le> length bytes
    \<and> 1 \<le> length (message_index h) \<and> length (message_index h) \<le> 32
    \<and> list_all in_i32 (message_index h)"
proof -
  obtain v used where r: "read_varint bytes 5 = Some (v, used)"
    using assms by (auto simp: detect_confluent_header_def Let_def split: if_splits option.splits)
  note used = read_varint_bounds [OF r]
  show ?thesis
  proof (cases "v = 0")
    case True
    then show ?thesis
      using assms r used by (auto simp: detect_confluent_header_def Let_def in_i32_def split: if_splits)
  next
    case False
    then obtain indexes j where i: "read_indexes bytes (nat (zigzag_decode v)) (5 + used) = Some (indexes, j)"
      and n: "0 \<le> zigzag_decode v" "nat (zigzag_decode v) \<le> 32"
      and h: "message_index h = indexes" "body_offset h = j"
      using assms r by (auto simp: detect_confluent_header_def Let_def split: if_splits option.splits)
    have "zigzag_decode v \<noteq> 0" using False zigzag_eq_0 by blast
    then show ?thesis using read_indexes_bounds [OF i] used n h by auto
  qed
qed

theorem confluent_header_bounds_witness:
  "\<exists>h. detect_confluent_header (enc_header 7 [0] @ [8, 1]) = Some h \<and> body_offset h \<le> 8"
proof -
  obtain h where h: "detect_confluent_header (enc_header 7 [0] @ [8, 1]) = Some h"
    using detect_header_enc [of "[0]" 7 "[8, 1]"] by (simp add: in_i32_def enc_header_def)
  from confluent_header_bounds [OF h] have "body_offset h \<le> 8" by (simp add: enc_header_def)
  with h show ?thesis by blast
qed

text \<open>The framing is stripped whoever supplies the schema: every strategy starts at the offset
  after the header when there is one and at zero otherwise, a manual schema wins over the registry,
  the registry is used only for a framed payload, and without a schema the fields are shown raw.\<close>
theorem proto_strategy:
  "proto_decide_decode_strategy bytes manual registry =
     (case detect_confluent_header bytes of
        Some h \<Rightarrow>
          if manual then ProtoManualSchema (body_offset h) (message_index h)
          else if registry then ProtoSchemaRegistry (schema_id h) (body_offset h) (message_index h)
          else ProtoRawFields (body_offset h)
      | None \<Rightarrow> if manual then ProtoManualSchema 0 [0] else ProtoRawFields 0)"
  by (simp add: proto_decide_decode_strategy_def Let_def split: option.splits)

text \<open>C34: The cache is transparent: on any cache that compiling threads can produce, compiling a
  schema gives what compiling it afresh gives, and the cache keeps at most eight schemas, one per
  text, each filed under the text it was compiled from, whatever other threads insert meanwhile.\<close>
theorem schema_cache_transparent:
  assumes "cache_reachable lib cache" and "\<And>c. cache_reachable lib c \<Longrightarrow> cache_reachable lib (between c)"
  shows "fst (compile lib between proto_text cache) = compile_uncached lib proto_text
    \<and> cache_reachable lib (snd (compile lib between proto_text cache))
    \<and> length (snd (compile lib between proto_text cache)) \<le> 8
    \<and> distinct (map fst (snd (compile lib between proto_text cache)))"
  using compile_sound [OF assms] cache_reachable_inv [of lib "snd (compile lib between proto_text cache)"]
  by (simp add: cache_inv_def SCHEMA_CACHE_ENTRIES_def)

definition example_lib :: "(string, string, string, string) proto_lib" where
  "example_lib = \<lparr>open_schema = Some, load_pool = Some, schema_messages = (\<lambda>p. Some [p]),
     child_messages = (\<lambda>d. []), full_name = id, decode_message = (\<lambda>d b. Some d),
     message_json = (\<lambda>m. Some JNull)\<rparr>"

theorem schema_cache_transparent_witness:
  "fst (compile example_lib id ''a'' (cache_insert ''a'' ''a'' [])) = Inr ''a''"
proof -
  have reach: "cache_reachable example_lib (cache_insert ''a'' ''a'' [])"
    by (rule cache_step [OF cache_empty]) (simp add: compile_uncached_def example_lib_def)
  from schema_cache_transparent [OF reach, of id "''a''"]
  show ?thesis by (simp add: compile_uncached_def example_lib_def)
qed

text \<open>The message a payload is read as is never guessed: it is the one its index path names, or,
  for a pasted schema only, the only message the schema declares; anything else is a decode error.\<close>
theorem resolve_message_never_guesses:
  "case resolve_message lib pool index source of
     Inr d \<Rightarrow> message_at lib pool index = Inr d
       \<or> source = ManualSource \<and> schema_messages lib pool = Some [d]
   | Inl r \<Rightarrow> current_context r = Decode \<and> message_at lib pool index = Inl r
       \<and> \<not> (source = ManualSource \<and> (\<exists>d. schema_messages lib pool = Some [d]))"
proof -
  have walk: "walk_index lib ms c is = Inl r \<Longrightarrow> current_context r = Decode" for ms c "is" r
    by (induction lib ms c "is" rule: walk_index.induct)
      (auto simp: Let_def fail_with_def attach_def new_report_def split: if_splits)
  have ctx: "message_at lib pool index = Inl r \<Longrightarrow> current_context r = Decode" for r
    by (auto simp: message_at_def and_then_Inl_iff fail_with_def attach_def new_report_def
        split: option.splits dest: walk)
  have sole: "sole_message lib pool = Some d \<longleftrightarrow> schema_messages lib pool = Some [d]" for d
    by (auto simp: sole_message_def split: option.splits list.splits)
  then have none: "sole_message lib pool = None \<Longrightarrow> schema_messages lib pool \<noteq> Some [d]" for d
    by (metis option.distinct(1))
  show ?thesis
    using ctx sole none by (auto simp: resolve_message_def split: sum.splits option.splits)
qed

end
