(* ===== verification/Assignment.thy ===== *)
theory Assignment
  imports Bytes App_Error
begin

text \<open>
  \<^verbatim>\<open>backend/kafka/src/assignment.rs\<close>: the partitions a consumer group member owns, read from
  the bytes of Kafka's ConsumerProtocolAssignment. The cursor is the slice and the position;
  every read gives the value and the position after it, or an error report.
\<close>

section \<open>Definitions\<close>

definition read_i16 :: "byte list \<Rightarrow> nat \<Rightarrow> report + int \<times> nat" where
  "read_i16 bytes pos =
     (if pos + 2 \<le> length bytes
      then Inr (sint (of_nat (be_nat (slice bytes pos (pos + 2))) :: 16 word), pos + 2)
      else Inl (fail_with Kafka ''truncated assignment: expected i16''))"

definition read_i32 :: "byte list \<Rightarrow> nat \<Rightarrow> report + int \<times> nat" where
  "read_i32 bytes pos =
     (if pos + 4 \<le> length bytes
      then Inr (sint (of_nat (be_nat (slice bytes pos (pos + 4))) :: 32 word), pos + 4)
      else Inl (fail_with Kafka ''truncated assignment: expected i32''))"

definition read_string :: "byte list \<Rightarrow> nat \<Rightarrow> report + string \<times> nat" where
  "read_string bytes pos =
     and_then (read_i16 bytes pos) (\<lambda>(len, pos).
     if len < 0 then Inl (fail_with Kafka ''truncated assignment: null topic name'')
     else
       let len = nat len in
       if pos + len \<le> length bytes
       then
         let s = slice bytes pos (pos + len);
             pos = pos + len
         in if utf8_ok s then Inr (chars_of s, pos)
            else Inl (fail_with Kafka ''assignment topic name is not valid UTF-8'')
       else Inl (fail_with Kafka ''truncated assignment: expected topic name bytes''))"

fun read_partitions :: "byte list \<Rightarrow> string \<Rightarrow> nat \<Rightarrow> nat \<Rightarrow> (string \<times> int) list
    \<Rightarrow> report + (string \<times> int) list \<times> nat" where
  "read_partitions bytes topic 0 pos result = Inr (result, pos)"
| "read_partitions bytes topic (Suc n) pos result =
     and_then (read_i32 bytes pos) (\<lambda>(p, pos). read_partitions bytes topic n pos (result @ [(topic, p)]))"

fun read_topics :: "byte list \<Rightarrow> nat \<Rightarrow> nat \<Rightarrow> (string \<times> int) list
    \<Rightarrow> report + (string \<times> int) list \<times> nat" where
  "read_topics bytes 0 pos result = Inr (result, pos)"
| "read_topics bytes (Suc n) pos result =
     and_then (read_string bytes pos) (\<lambda>(topic, pos).
     and_then (read_i32 bytes pos) (\<lambda>(partition_count, pos).
     if partition_count < 0 then read_topics bytes n pos result
     else and_then (read_partitions bytes topic (nat partition_count) pos result) (\<lambda>(result, pos).
       read_topics bytes n pos result)))"

definition decode_consumer_protocol_assignment :: "byte list \<Rightarrow> report + (string \<times> int) list" where
  "decode_consumer_protocol_assignment bytes =
     and_then (read_i16 bytes 0) (\<lambda>(version, pos).
     and_then (read_i32 bytes pos) (\<lambda>(topic_count, pos).
     if topic_count < 0 then Inr []
     else and_then (read_topics bytes (nat topic_count) pos []) (\<lambda>(result, pos). Inr result)))"

section \<open>The encodings\<close>

definition enc_int :: "nat \<Rightarrow> int \<Rightarrow> byte list" where
  "enc_int n i = be_bytes n (nat (i mod 256 ^ n))"

definition enc_string :: "string \<Rightarrow> byte list" where
  "enc_string s = enc_int 2 (int (length s)) @ bytes_of s"

definition enc_topic :: "string \<times> int list \<Rightarrow> byte list" where
  "enc_topic t = enc_string (fst t) @ enc_int 4 (int (length (snd t))) @ concat (map (enc_int 4) (snd t))"

definition enc_assignment :: "int \<Rightarrow> (string \<times> int list) list \<Rightarrow> byte list" where
  "enc_assignment version topics =
     enc_int 2 version @ enc_int 4 (int (length topics)) @ concat (map enc_topic topics)"

definition i32_ok :: "int \<Rightarrow> bool" where
  "i32_ok i \<longleftrightarrow> - (2 ^ 31) \<le> i \<and> i < 2 ^ 31"

definition i16_ok :: "int \<Rightarrow> bool" where
  "i16_ok i \<longleftrightarrow> - (2 ^ 15) \<le> i \<and> i < 2 ^ 15"

definition name_ok :: "string \<Rightarrow> bool" where
  "name_ok s \<longleftrightarrow> utf8_ok (bytes_of s) \<and> length s < 2 ^ 15"

definition topic_ok :: "string \<times> int list \<Rightarrow> bool" where
  "topic_ok t \<longleftrightarrow> name_ok (fst t) \<and> length (snd t) < 2 ^ 31 \<and> list_all i32_ok (snd t)"

lemma length_enc_int [simp]: "length (enc_int n i) = n"
  by (simp add: enc_int_def)

lemma be_nat_enc_int: "be_nat (enc_int n i) = nat (i mod 256 ^ n)"
proof -
  have "nat (i mod 256 ^ n) < nat (256 ^ n)" by (simp add: nat_less_iff)
  then show ?thesis by (simp add: enc_int_def be_nat_be_bytes nat_power_eq)
qed

lemma of_nat_mod_word16: "(of_nat (nat (i mod 65536)) :: 16 word) = word_of_int i"
  by (simp add: word_of_int_eq_iff of_nat_nat take_bit_eq_mod)

lemma of_nat_mod_word32: "(of_nat (nat (i mod 4294967296)) :: 32 word) = word_of_int i"
  by (simp add: word_of_int_eq_iff of_nat_nat take_bit_eq_mod)

lemma sint_enc_16: "i16_ok i \<Longrightarrow> sint (of_nat (be_nat (enc_int 2 i)) :: 16 word) = i"
  using of_nat_mod_word16 [of i]
  by (simp add: be_nat_enc_int i16_ok_def sint_sbintrunc' signed_take_bit_int_eq_self)

lemma sint_enc_32: "i32_ok i \<Longrightarrow> sint (of_nat (be_nat (enc_int 4 i)) :: 32 word) = i"
  using of_nat_mod_word32 [of i]
  by (simp add: be_nat_enc_int i32_ok_def sint_sbintrunc' signed_take_bit_int_eq_self)

text \<open>Each read of the cursor keeps the contract of a reader.\<close>

lemma read_i16_enc:
  "i16_ok i \<Longrightarrow> read_i16 (pre @ enc_int 2 i @ rest) (length pre) = Inr (i, length pre + 2)"
  using slice_append [of pre "enc_int 2 i" rest] by (simp add: read_i16_def sint_enc_16)

lemma read_i32_enc:
  "i32_ok i \<Longrightarrow> read_i32 (pre @ enc_int 4 i @ rest) (length pre) = Inr (i, length pre + 4)"
  using slice_append [of pre "enc_int 4 i" rest] by (simp add: read_i32_def sint_enc_32)

lemma read_string_enc:
  assumes "name_ok s"
  shows "read_string (pre @ enc_string s @ rest) (length pre) = Inr (s, length pre + length (enc_string s))"
proof -
  have "i16_ok (int (length s))" using assms by (simp add: i16_ok_def name_ok_def)
  then have len: "read_i16 (pre @ enc_string s @ rest) (length pre) = Inr (int (length s), length pre + 2)"
    using read_i16_enc [of "int (length s)" pre "bytes_of s @ rest"] by (simp add: enc_string_def)
  have "slice (pre @ enc_string s @ rest) (length pre + 2) (length pre + 2 + length s) = bytes_of s"
    using slice_append [of "pre @ enc_int 2 (int (length s))" "bytes_of s" rest] by (simp add: enc_string_def)
  then show ?thesis
    using assms len by (simp add: read_string_def Let_def name_ok_def) (simp add: enc_string_def)
qed

interpretation i16: byte_reader "\<lambda>bytes pos. ok (read_i16 bytes pos)" "enc_int 2" i16_ok
proof unfold_locales
  fix bs p v q
  assume "ok (read_i16 bs p) = Some (v, q)"
  then show "p < q \<and> q \<le> length bs" by (auto simp: read_i16_def split: if_splits)
qed (simp add: read_i16_enc)

interpretation i32: byte_reader "\<lambda>bytes pos. ok (read_i32 bytes pos)" "enc_int 4" i32_ok
proof unfold_locales
  fix bs p v q
  assume "ok (read_i32 bs p) = Some (v, q)"
  then show "p < q \<and> q \<le> length bs" by (auto simp: read_i32_def split: if_splits)
qed (simp add: read_i32_enc)

interpretation str: byte_reader "\<lambda>bytes pos. ok (read_string bytes pos)" enc_string name_ok
proof unfold_locales
  fix bs p v q
  assume "ok (read_string bs p) = Some (v, q)"
  then show "p < q \<and> q \<le> length bs"
    by (auto simp: read_string_def read_i16_def ok_def Let_def split: if_splits)
qed (simp add: read_string_enc)

lemma read_partitions_many:
  "read_partitions bytes topic n pos result =
     (case read_many (\<lambda>pos. ok (read_i32 bytes pos)) n pos of
        Some (ps, pos) \<Rightarrow> Inr (result @ map (Pair topic) ps, pos)
      | None \<Rightarrow> Inl (fail_with Kafka ''truncated assignment: expected i32''))"
proof (induction n arbitrary: pos result)
  case (Suc n)
  show ?case
  proof (cases "read_i32 bytes pos")
    case (Inl r)
    then have "r = fail_with Kafka ''truncated assignment: expected i32''"
      by (auto simp: read_i32_def split: if_splits)
    with Inl show ?thesis by simp
  next
    case (Inr v)
    then show ?thesis by (cases v) (auto simp: Suc.IH split: option.splits)
  qed
qed simp

lemma read_partitions_enc:
  assumes "list_all i32_ok ps" and "length (pre @ concat (map (enc_int 4) ps) @ rest) < 2 ^ 63"
  shows "read_partitions (pre @ concat (map (enc_int 4) ps) @ rest) topic (length ps) (length pre) result
    = Inr (result @ map (Pair topic) ps, length pre + length (concat (map (enc_int 4) ps)))"
  using i32.many_enc [OF assms] by (simp add: read_partitions_many)

definition owned :: "(string \<times> int list) list \<Rightarrow> (string \<times> int) list" where
  "owned topics = concat (map (\<lambda>(topic, ps). map (Pair topic) ps) topics)"

lemma read_topics_enc:
  "list_all topic_ok ts \<Longrightarrow> length (pre @ concat (map enc_topic ts) @ rest) < 2 ^ 63 \<Longrightarrow>
    read_topics (pre @ concat (map enc_topic ts) @ rest) (length ts) (length pre) result
    = Inr (result @ owned ts, length pre + length (concat (map enc_topic ts)))"
proof (induction ts arbitrary: pre result)
  case (Cons t ts)
  obtain topic ps where t: "t = (topic, ps)" by (cases t)
  let ?name = "enc_string topic" and ?count = "enc_int 4 (int (length ps))"
  let ?ps = "concat (map (enc_int 4) ps)" and ?rest = "concat (map enc_topic ts) @ rest"
  let ?bytes = "pre @ ?name @ ?count @ ?ps @ ?rest"
  have ok: "name_ok topic" "i32_ok (int (length ps))" "list_all i32_ok ps"
    using Cons.prems(1) by (simp_all add: t topic_ok_def i32_ok_def)
  have et: "enc_topic t = ?name @ ?count @ ?ps" by (simp add: t enc_topic_def)
  have bytes: "pre @ concat (map enc_topic (t # ts)) @ rest = ?bytes" by (simp add: et)
  have name: "read_string ?bytes (length pre) = Inr (topic, length (pre @ ?name))"
    using read_string_enc [OF ok(1), of pre "?count @ ?ps @ ?rest"] by simp
  have count: "read_i32 ?bytes (length (pre @ ?name)) = Inr (int (length ps), length (pre @ ?name @ ?count))"
    using read_i32_enc [OF ok(2), of "pre @ ?name" "?ps @ ?rest"] by simp
  have parts: "read_partitions ?bytes topic (length ps) (length (pre @ ?name @ ?count)) result
      = Inr (result @ map (Pair topic) ps, length (pre @ ?name @ ?count @ ?ps))"
    using read_partitions_enc [OF ok(3), of "pre @ ?name @ ?count" ?rest] Cons.prems(2) bytes by simp
  have "read_topics ?bytes (length ts) (length (pre @ ?name @ ?count @ ?ps)) (result @ map (Pair topic) ps)
      = Inr (result @ owned (t # ts), length pre + length (concat (map enc_topic (t # ts))))"
    using Cons.IH [of "pre @ ?name @ ?count @ ?ps" "result @ map (Pair topic) ps"] Cons.prems bytes
    by (simp add: et) (simp add: t owned_def)
  then show ?case unfolding bytes using name count parts by (simp add: t)
qed (simp add: owned_def)

section \<open>Properties\<close>

text \<open>Every assignment a coordinator encodes is decoded to exactly the partitions it assigns, in
  order, whatever user data follows them.\<close>
theorem assignment_roundtrip:
  assumes "list_all topic_ok topics" and "length topics < 2 ^ 31" and "i16_ok version"
    and "length (enc_assignment version topics @ user_data) < 2 ^ 63"
  shows "decode_consumer_protocol_assignment (enc_assignment version topics @ user_data) = Inr (owned topics)"
proof -
  let ?bytes = "enc_assignment version topics @ user_data"
  let ?v = "enc_int 2 version" and ?n = "enc_int 4 (int (length topics))"
  let ?topics = "concat (map enc_topic topics)"
  have version: "read_i16 ?bytes 0 = Inr (version, 2)"
    using read_i16_enc [OF assms(3), of "[]" "?n @ ?topics @ user_data"] by (simp add: enc_assignment_def)
  have "i32_ok (int (length topics))" using assms(2) by (simp add: i32_ok_def)
  then have count: "read_i32 ?bytes 2 = Inr (int (length topics), 6)"
    using read_i32_enc [of "int (length topics)" ?v "?topics @ user_data"] by (simp add: enc_assignment_def)
  have "read_topics ?bytes (length topics) 6 [] = Inr (owned topics, 6 + length ?topics)"
    using read_topics_enc [OF assms(1), of "?v @ ?n" user_data "[]"] assms(4) by (simp add: enc_assignment_def)
  then show ?thesis
    using version count by (simp add: decode_consumer_protocol_assignment_def)
qed

theorem assignment_roundtrip_witness:
  "decode_consumer_protocol_assignment (enc_assignment 0 [(''orders'', [0, 3]), (''x'', [])] @ [1, 2])
    = Inr [(''orders'', 0), (''orders'', 3)]"
  by (subst assignment_roundtrip)
    (simp_all add: topic_ok_def name_ok_def i32_ok_def i16_ok_def enc_assignment_def enc_topic_def
      enc_string_def owned_def bytes_of_def utf8_ok_ascii)

end
