(* ===== verification/Stream_Batches.thy ===== *)
theory Stream_Batches
  imports Main "HOL-Library.Sublist"
begin

text \<open>
  \<^verbatim>\<open>backend/core/src/message_stream.rs\<close>: forwarding a fetch's messages to the interface in
  batches. What the asynchronous loop sees is a list of events: a message arriving, with the value
  the stop flag has when it is looked at; the interval of a partly filled batch running out; and
  the end of the channel, which is the end of the list.
\<close>

section \<open>Definitions\<close>

datatype 'm stream_event = Received 'm bool | Elapsed

record 'm forward_state =
  emitted :: nat
  batch :: "'m list"
  reported_at :: nat
  batches :: "'m list list"
  reports :: "nat list"

definition start_state :: "'m forward_state" where
  "start_state = \<lparr>emitted = 0, batch = [], reported_at = 0, batches = [], reports = []\<rparr>"

text \<open>\<^verbatim>\<open>emitted += batch.len(); emit(std::mem::take(&mut batch))\<close>\<close>

definition emit_batch :: "'m forward_state \<Rightarrow> 'm forward_state" where
  "emit_batch s =
     s\<lparr>emitted := emitted s + length (batch s), batches := batches s @ [batch s], batch := []\<rparr>"

definition push_message :: "nat \<Rightarrow> nat \<Rightarrow> 'm \<Rightarrow> 'm forward_state \<Rightarrow> 'm forward_state" where
  "push_message batch_size progress_every message s =
     (let s = s\<lparr>batch := batch s @ [message]\<rparr>;
          s = (if batch_size \<le> length (batch s) then emit_batch s else s);
          seen = emitted s + length (batch s)
      in if 0 < progress_every \<and> progress_every \<le> seen - reported_at s
         then s\<lparr>reported_at := seen, reports := reports s @ [seen]\<rparr>
         else s)"

text \<open>
  The loop. The timer only runs while a batch is partly filled, so an \<open>Elapsed\<close> with an empty
  batch does not occur and is skipped. A set flag returns at once, dropping the partial batch.
\<close>

fun forward_loop :: "nat \<Rightarrow> nat \<Rightarrow> 'm stream_event list \<Rightarrow> 'm forward_state \<Rightarrow> nat \<times> 'm forward_state" where
  "forward_loop batch_size progress_every [] s =
     (let s' = s\<lparr>emitted := emitted s + length (batch s)\<rparr>
      in (emitted s', if batch s' \<noteq> [] then s'\<lparr>batches := batches s' @ [batch s']\<rparr> else s'))"
| "forward_loop batch_size progress_every (Elapsed # events) s =
     (if batch s = [] then forward_loop batch_size progress_every events s
      else forward_loop batch_size progress_every events (emit_batch s))"
| "forward_loop batch_size progress_every (Received message cancelled # events) s =
     (if cancelled then (emitted s, s)
      else forward_loop batch_size progress_every events (push_message batch_size progress_every message s))"

definition forward_in_batches :: "nat \<Rightarrow> nat \<Rightarrow> 'm stream_event list \<Rightarrow> nat \<times> 'm forward_state" where
  "forward_in_batches batch_size progress_every events =
     forward_loop (max batch_size 1) progress_every events start_state"

section \<open>Lemmas\<close>

text \<open>The messages of the events, up to a stop.\<close>

fun taken :: "'m stream_event list \<Rightarrow> 'm list" where
  "taken [] = []"
| "taken (Elapsed # events) = taken events"
| "taken (Received m cancelled # events) = (if cancelled then [] else m # taken events)"

fun stopped :: "'m stream_event list \<Rightarrow> bool" where
  "stopped [] = False"
| "stopped (Elapsed # events) = stopped events"
| "stopped (Received m cancelled # events) = (cancelled \<or> stopped events)"

definition forward_inv :: "nat \<Rightarrow> nat \<Rightarrow> 'm forward_state \<Rightarrow> bool" where
  "forward_inv sz every s \<longleftrightarrow>
     emitted s = length (concat (batches s))
     \<and> (\<forall>b\<in>set (batches s). b \<noteq> [] \<and> length b \<le> sz)
     \<and> length (batch s) < sz
     \<and> reported_at s \<le> emitted s + length (batch s)
     \<and> sorted_wrt (\<lambda>m n. m + every \<le> n) (reports s)
     \<and> (\<forall>n\<in>set (reports s). n \<le> reported_at s)"

lemma forward_inv_start: "0 < sz \<Longrightarrow> forward_inv sz every start_state"
  by (simp add: forward_inv_def start_state_def)

lemma forward_inv_emit: "forward_inv sz every s \<Longrightarrow> batch s \<noteq> [] \<Longrightarrow> forward_inv sz every (emit_batch s)"
  by (auto simp: forward_inv_def emit_batch_def)

lemma forward_inv_push:
  assumes "forward_inv sz every s"
  shows "forward_inv sz every (push_message sz every m s)"
    and "concat (batches (push_message sz every m s)) @ batch (push_message sz every m s)
           = concat (batches s) @ batch s @ [m]"
  using assms
  by (auto simp: forward_inv_def push_message_def emit_batch_def Let_def sorted_wrt_append)

lemma forward_loop_spec:
  assumes "forward_inv sz every s" and "forward_loop sz every events s = (n, out)"
  shows "n = length (concat (batches out))
    \<and> (\<forall>b\<in>set (batches out). b \<noteq> [] \<and> length b \<le> sz)
    \<and> prefix (concat (batches out)) (concat (batches s) @ batch s @ taken events)
    \<and> (\<not> stopped events \<longrightarrow> concat (batches out) = concat (batches s) @ batch s @ taken events)
    \<and> sorted_wrt (\<lambda>m n. m + every \<le> n) (reports out)"
  using assms
proof (induction sz every events s arbitrary: rule: forward_loop.induct)
  case (1 sz every s)
  then show ?case by (auto simp: forward_inv_def Let_def split: if_splits)
next
  case (2 sz every events s)
  show ?case
  proof (cases "batch s = []")
    case True
    have "forward_loop sz every events s = (n, out)" using "2.prems"(2) True by simp
    from "2.IH"(1) [OF True "2.prems"(1) this] show ?thesis by simp
  next
    case False
    have eq: "concat (batches (emit_batch s)) @ batch (emit_batch s) @ taken events
        = concat (batches s) @ batch s @ taken events"
      by (simp add: emit_batch_def)
    have "forward_loop sz every events (emit_batch s) = (n, out)" using "2.prems"(2) False by simp
    from "2.IH"(2) [OF False forward_inv_emit [OF "2.prems"(1) False] this, unfolded eq]
    show ?thesis by simp
  qed
next
  case (3 sz every m cancelled events s)
  show ?case
  proof (cases cancelled)
    case True
    then show ?thesis using 3 by (auto simp: forward_inv_def)
  next
    case False
    note push = forward_inv_push [OF "3.prems"(1), of m]
    have eq: "concat (batches (push_message sz every m s)) @ batch (push_message sz every m s) @ taken events
        = concat (batches s) @ batch s @ m # taken events"
      using push(2) by (metis append.assoc append_Cons append_Nil)
    have "forward_loop sz every events (push_message sz every m s) = (n, out)"
      using "3.prems"(2) False by simp
    from "3.IH" [OF False push(1) this, unfolded eq] False show ?thesis by simp
  qed
qed

section \<open>Properties\<close>

text \<open>Whatever the timing, the batches carry an initial segment of the messages, in order, each
  once; the returned count is exactly how many they carry; no batch is empty or over the batch size;
  and without a stop nothing is held back. Progress is reported in steps of at least the interval.\<close>
theorem stream_delivers_prefix:
  assumes "forward_in_batches sz every events = (n, out)"
  shows "n = length (concat (batches out))
    \<and> prefix (concat (batches out)) (taken events)
    \<and> (\<forall>b\<in>set (batches out). b \<noteq> [] \<and> length b \<le> max sz 1)
    \<and> (stopped events \<or> concat (batches out) = taken events)
    \<and> sorted_wrt (\<lambda>m n. m + every \<le> n) (reports out)"
  using forward_loop_spec [OF forward_inv_start, of "max sz 1" every events n out] assms
  by (auto simp: forward_in_batches_def start_state_def)

theorem stream_delivers_prefix_witness:
  "concat (batches (snd (forward_in_batches 2 1
      [Received ''a'' False, Received ''b'' False, Received ''c'' False, Elapsed, Received ''d'' False])))
    = [''a'', ''b'', ''c'', ''d'']"
proof -
  let ?events = "[Received ''a'' False, Received ''b'' False, Received ''c'' False, Elapsed, Received ''d'' False]"
  obtain n out where out: "forward_in_batches 2 1 ?events = (n, out)" by fastforce
  show ?thesis unfolding out using stream_delivers_prefix [OF out] by simp
qed

end
