(* ===== verification/Fetch_Cancellation.thy ===== *)
theory Fetch_Cancellation
  imports Salty_Prelude
begin

text \<open>
  \<^verbatim>\<open>backend/core/src/fetch_cancellation.rs\<close>: stopping fetches that are already running. A flag
  is an \<^verbatim>\<open>Arc<AtomicBool>\<close>, shared by the registry and the fetch that polls it, so it lives in a
  store of flags and the registry keeps its address. The owners are a list of pairs, one per
  request, in the order the map happens to iterate.
\<close>

section \<open>Definitions\<close>

record cancellations =
  flags :: "string \<rightharpoonup> nat"
  owners :: "(string \<times> string) list"
  store :: "nat \<Rightarrow> bool"
  next_flag :: nat

definition no_cancellations :: cancellations where
  "no_cancellations = \<lparr>flags = Map.empty, owners = [], store = (\<lambda>_. False), next_flag = 0\<rparr>"

text \<open>\<^verbatim>\<open>entry(id).or_insert_with(|| Arc::new(AtomicBool::new(false)))\<close>\<close>

definition flag_entry :: "string \<Rightarrow> cancellations \<Rightarrow> nat \<times> cancellations" where
  "flag_entry request_id s =
     (case flags s request_id of
        Some a \<Rightarrow> (a, s)
      | None \<Rightarrow>
          (next_flag s,
           s\<lparr>flags := (flags s)(request_id \<mapsto> next_flag s),
             store := (store s)(next_flag s := False),
             next_flag := next_flag s + 1\<rparr>))"

definition begin_fetch :: "string \<Rightarrow> cancellations \<Rightarrow> nat \<times> cancellations" where
  "begin_fetch request_id s = flag_entry request_id s"

definition begin_for_connection :: "string \<Rightarrow> string \<Rightarrow> cancellations \<Rightarrow> nat \<times> cancellations" where
  "begin_for_connection request_id connection_id s =
     begin_fetch request_id
       (s\<lparr>owners := (request_id, connection_id) # filter (\<lambda>e. fst e \<noteq> request_id) (owners s)\<rparr>)"

definition cancel :: "string \<Rightarrow> cancellations \<Rightarrow> cancellations" where
  "cancel request_id s =
     (let (a, s) = flag_entry request_id s in s\<lparr>store := (store s)(a := True)\<rparr>)"

definition cancel_all_for_connection :: "string \<Rightarrow> cancellations \<Rightarrow> string list \<times> cancellations" where
  "cancel_all_for_connection connection_id s =
     (let request_ids = map fst (filter (\<lambda>e. snd e = connection_id) (owners s))
      in (request_ids, fold cancel request_ids s))"

definition finish :: "string \<Rightarrow> cancellations \<Rightarrow> cancellations" where
  "finish request_id s =
     s\<lparr>flags := (flags s)(request_id := None),
       owners := filter (\<lambda>e. fst e \<noteq> request_id) (owners s)\<rparr>"

section \<open>Runs\<close>

text \<open>One call of the registry, by any command.\<close>

inductive cancel_step :: "cancellations \<Rightarrow> cancellations \<Rightarrow> bool" where
  step_begin: "cancel_step s (snd (begin_for_connection r c s))"
| step_cancel: "cancel_step s (cancel r s)"
| step_cancel_all: "cancel_step s (snd (cancel_all_for_connection c s))"
| step_finish: "cancel_step s (finish r s)"

inductive_cases cancel_stepE: "cancel_step s t"

definition reachable :: "cancellations \<Rightarrow> bool" where
  "reachable s \<longleftrightarrow> cancel_step\<^sup>*\<^sup>* no_cancellations s"

text \<open>Every registered flag is allocated, and no two requests share one.\<close>

definition cancel_inv :: "cancellations \<Rightarrow> bool" where
  "cancel_inv s \<longleftrightarrow> (\<forall>r a. flags s r = Some a \<longrightarrow> a < next_flag s)
     \<and> (\<forall>r q a. flags s r = Some a \<and> flags s q = Some a \<longrightarrow> r = q)
     \<and> distinct (map fst (owners s))"

lemma flag_entry_props:
  assumes "flag_entry r s = (a, t)" and "cancel_inv s"
  shows "cancel_inv t" and "flags t r = Some a" and "owners t = owners s"
    and "\<And>q. q \<noteq> r \<Longrightarrow> flags t q = flags s q"
    and "\<And>b. b < next_flag s \<Longrightarrow> store t b = store s b"
    and "next_flag s \<le> next_flag t"
    and "store t a = (if flags s r = None then False else store s a)"
proof -
  have new: "flags s q \<noteq> Some (next_flag s)" for q using assms(2) by (auto simp: cancel_inv_def)
  consider "flags s r = Some a" "t = s"
    | "flags s r = None" "a = next_flag s"
      "t = s\<lparr>flags := (flags s)(r \<mapsto> a), store := (store s)(a := False), next_flag := a + 1\<rparr>"
    using assms(1) by (auto simp: flag_entry_def split: option.splits)
  note cases = this
  show "cancel_inv t"
    using cases assms(2) new by cases (auto simp: cancel_inv_def less_Suc_eq split: if_splits)
  show "flags t r = Some a" "owners t = owners s" "q \<noteq> r \<Longrightarrow> flags t q = flags s q"
    "b < next_flag s \<Longrightarrow> store t b = store s b" "next_flag s \<le> next_flag t"
    "store t a = (if flags s r = None then False else store s a)" for q b
    using cases by (cases; simp)+
qed

lemma cancel_inv_owners:
  "cancel_inv s \<Longrightarrow> distinct (map fst os) \<Longrightarrow> cancel_inv (s\<lparr>owners := os\<rparr>)"
  by (simp add: cancel_inv_def)

lemma cancel_props:
  assumes "cancel_inv s"
  shows "cancel_inv (cancel r s)"
    and "owners (cancel r s) = owners s"
    and "\<exists>a. flags (cancel r s) r = Some a \<and> store (cancel r s) a
           \<and> (\<forall>b < next_flag s. b \<noteq> a \<longrightarrow> store (cancel r s) b = store s b)"
    and "q \<noteq> r \<Longrightarrow> flags (cancel r s) q = flags s q"
    and "flags s r = Some a \<Longrightarrow> flags (cancel r s) r = Some a"
    and "next_flag s \<le> next_flag (cancel r s)"
proof -
  obtain b t where t: "flag_entry r s = (b, t)" by fastforce
  note props = flag_entry_props [OF t assms]
  have c: "cancel r s = t\<lparr>store := (store t)(b := True)\<rparr>" by (simp add: cancel_def t)
  show "cancel_inv (cancel r s)" using props(1) by (simp add: c cancel_inv_def)
  show "owners (cancel r s) = owners s" using props(3) by (simp add: c)
  show "\<exists>a. flags (cancel r s) r = Some a \<and> store (cancel r s) a
      \<and> (\<forall>b < next_flag s. b \<noteq> a \<longrightarrow> store (cancel r s) b = store s b)"
    using props(2,5) by (auto simp: c)
  show "q \<noteq> r \<Longrightarrow> flags (cancel r s) q = flags s q" using props(4) by (simp add: c)
  show "flags (cancel r s) r = Some a" if "flags s r = Some a"
  proof -
    have "b = a" using t that by (simp add: flag_entry_def)
    then show ?thesis using props(2) by (simp add: c)
  qed
  show "next_flag s \<le> next_flag (cancel r s)" using props(6) by (simp add: c)
qed

definition fold_cancel_ok :: "string list \<Rightarrow> cancellations \<Rightarrow> bool" where
  "fold_cancel_ok rs s \<longleftrightarrow>
     cancel_inv (fold cancel rs s) \<and> next_flag s \<le> next_flag (fold cancel rs s)
     \<and> (\<forall>q a. flags s q = Some a \<longrightarrow> flags (fold cancel rs s) q = Some a)
     \<and> (\<forall>a < next_flag s. store (fold cancel rs s) a \<longleftrightarrow> store s a \<or> (\<exists>r\<in>set rs. flags s r = Some a))"

lemma cancel_store:
  assumes "cancel_inv s" and "a < next_flag s"
  shows "store (cancel r s) a \<longleftrightarrow> store s a \<or> flags s r = Some a"
proof (cases "flags s r")
  case None
  then show ?thesis using assms(2) by (simp add: cancel_def flag_entry_def)
next
  case (Some d)
  then show ?thesis by (auto simp: cancel_def flag_entry_def)
qed

lemma cancel_flags_old:
  assumes "cancel_inv s" and "a < next_flag s"
  shows "flags (cancel r s) q = Some a \<longleftrightarrow> flags s q = Some a"
  using assms(2) by (auto simp: cancel_def flag_entry_def split: option.splits)

lemma fold_cancel_ok: "cancel_inv s \<Longrightarrow> fold_cancel_ok rs s"
proof (induction rs arbitrary: s)
  case Nil
  then show ?case by (simp add: fold_cancel_ok_def)
next
  case (Cons r rs)
  note inv = cancel_props(1) [OF Cons.prems, of r] and grow = cancel_props(6) [OF Cons.prems, of r]
  have IH: "fold_cancel_ok rs (cancel r s)" by (rule Cons.IH [OF inv])
  have keep: "flags (cancel r s) q = Some a" if "flags s q = Some a" for q a
    using that Cons.prems cancel_flags_old [OF Cons.prems] by (simp add: cancel_inv_def)
  have "store (fold cancel (r # rs) s) a \<longleftrightarrow> store s a \<or> (\<exists>r\<in>set (r # rs). flags s r = Some a)"
    if "a < next_flag s" for a
  proof -
    have "store (fold cancel rs (cancel r s)) a
        \<longleftrightarrow> store (cancel r s) a \<or> (\<exists>q\<in>set rs. flags (cancel r s) q = Some a)"
      using IH that grow by (simp add: fold_cancel_ok_def)
    then show ?thesis
      using cancel_store [OF Cons.prems that] cancel_flags_old [OF Cons.prems that] by auto
  qed
  then show ?case using IH keep grow by (auto simp: fold_cancel_ok_def)
qed

lemma cancel_step_props:
  assumes "cancel_step s t" and "cancel_inv s"
  shows "cancel_inv t" and "next_flag s \<le> next_flag t"
    and "a < next_flag s \<Longrightarrow> store s a \<Longrightarrow> store t a"
proof -
  have begin_case: "cancel_inv t \<and> next_flag s \<le> next_flag t \<and> (a < next_flag s \<longrightarrow> store t a = store s a)"
    if t: "t = snd (begin_for_connection r c s)" for r c
  proof -
    let ?s = "s\<lparr>owners := (r, c) # filter (\<lambda>e. fst e \<noteq> r) (owners s)\<rparr>"
    have "distinct (map fst (filter (\<lambda>e. fst e \<noteq> r) (owners s)))"
      using assms(2) by (simp add: cancel_inv_def distinct_map_filter)
    then have inv: "cancel_inv ?s"
      using assms(2) by (intro cancel_inv_owners) auto
    obtain b where "flag_entry r ?s = (b, t)"
      using t by (metis begin_for_connection_def begin_fetch_def prod.collapse)
    from flag_entry_props [OF this inv] show ?thesis by simp
  qed
  have all_case: "cancel_inv t \<and> next_flag s \<le> next_flag t \<and> (a < next_flag s \<longrightarrow> store s a \<longrightarrow> store t a)"
    if "t = fold cancel rs s" for rs
    using fold_cancel_ok [OF assms(2)] that by (auto simp: fold_cancel_ok_def)
  consider r c where "t = snd (begin_for_connection r c s)" | r where "t = cancel r s"
    | c where "t = snd (cancel_all_for_connection c s)" | r where "t = finish r s"
    using assms(1) by (elim cancel_stepE) blast+
  then have "cancel_inv t \<and> next_flag s \<le> next_flag t \<and> (a < next_flag s \<longrightarrow> store s a \<longrightarrow> store t a)"
  proof cases
    case 1
    then show ?thesis using begin_case by blast
  next
    case (2 r)
    then show ?thesis using all_case [of "[r]"] by simp
  next
    case 3
    then show ?thesis using all_case by (simp add: cancel_all_for_connection_def Let_def)
  next
    case 4
    then show ?thesis
      using assms(2) by (auto simp: finish_def cancel_inv_def distinct_map_filter)
  qed
  then show "cancel_inv t" "next_flag s \<le> next_flag t" "a < next_flag s \<Longrightarrow> store s a \<Longrightarrow> store t a"
    by blast+
qed

lemma cancel_steps_props:
  assumes "cancel_step\<^sup>*\<^sup>* s t" and "cancel_inv s"
  shows "cancel_inv t \<and> next_flag s \<le> next_flag t \<and> (a < next_flag s \<longrightarrow> store s a \<longrightarrow> store t a)"
  using assms
proof (induction rule: rtranclp_induct)
  case (step t u)
  from step.IH [OF step.prems] have t: "cancel_inv t" "next_flag s \<le> next_flag t"
    "a < next_flag s \<longrightarrow> store s a \<longrightarrow> store t a" by auto
  from cancel_step_props [OF step.hyps(2) t(1)] t(2,3) show ?case by fastforce
qed simp

lemma reachable_inv: "reachable s \<Longrightarrow> cancel_inv s"
  using cancel_steps_props [of no_cancellations s] by (simp add: reachable_def cancel_inv_def no_cancellations_def)

section \<open>Properties\<close>



text \<open>Disconnecting stops exactly the fetches that read from the connection: among the flags handed
  out so far, the ones set afterwards are those set before and those of the requests registered for
  this connection.\<close>
theorem cancel_all_exact:
  assumes "reachable s" and "a < next_flag s"
  shows "store (snd (cancel_all_for_connection c s)) a
    \<longleftrightarrow> store s a \<or> (\<exists>r. (r, c) \<in> set (owners s) \<and> flags s r = Some a)"
proof -
  let ?rs = "map fst (filter (\<lambda>e. snd e = c) (owners s))"
  have "store (fold cancel ?rs s) a \<longleftrightarrow> store s a \<or> (\<exists>r\<in>set ?rs. flags s r = Some a)"
    using fold_cancel_ok [OF reachable_inv [OF assms(1)]] assms(2) by (simp add: fold_cancel_ok_def)
  moreover have "(\<exists>r\<in>set ?rs. flags s r = Some a) \<longleftrightarrow> (\<exists>r. (r, c) \<in> set (owners s) \<and> flags s r = Some a)"
    by auto
  moreover have "snd (cancel_all_for_connection c s) = fold cancel ?rs s"
    by (simp add: cancel_all_for_connection_def Let_def)
  ultimately show ?thesis by simp
qed

definition two_fetches :: cancellations where
  "two_fetches = snd (begin_for_connection ''r'' ''a'' (snd (begin_for_connection ''q'' ''b'' no_cancellations)))"

theorem cancel_all_exact_witness:
  "store (snd (cancel_all_for_connection ''a'' two_fetches)) 1
    \<and> \<not> store (snd (cancel_all_for_connection ''a'' two_fetches)) 0"
proof -
  have r: "reachable two_fetches"
    unfolding reachable_def two_fetches_def
    by (rule rtranclp.rtrancl_into_rtrancl, rule rtranclp.rtrancl_into_rtrancl, rule rtranclp.rtrancl_refl)
      (rule step_begin)+
  have two: "next_flag two_fetches = 2" "store two_fetches 0 = False"
    "owners two_fetches = [(''r'', ''a''), (''q'', ''b'')]"
    "flags two_fetches ''r'' = Some 1" "flags two_fetches ''q'' = Some 0"
    by (simp_all add: two_fetches_def begin_for_connection_def begin_fetch_def flag_entry_def no_cancellations_def)
  show ?thesis
    using cancel_all_exact [OF r, of 1 "''a''"] cancel_all_exact [OF r, of 0 "''a''"] by (simp add: two)
qed

text \<open>A cancel for requests that already finished is not without effect: each one leaves a flag
  registered under its id, and nothing finishes those ids again.\<close>
theorem late_cancels_stay:
  "set rs \<subseteq> dom (flags (fold cancel rs (fold finish rs s)))"
proof -
  have mono: "dom (flags t) \<subseteq> dom (flags (cancel r t))" and here: "r \<in> dom (flags (cancel r t))" for r t
    by (auto simp: cancel_def flag_entry_def split: option.splits)
  have "dom (flags t) \<union> set rs \<subseteq> dom (flags (fold cancel rs t))" for t
  proof (induction rs arbitrary: t)
    case (Cons r rs)
    from Cons.IH [of "cancel r t"] mono [of t r] here [of r t] show ?case by auto
  qed simp
  then show ?thesis by blast
qed

end
