(* ===== verification/Connections.thy ===== *)
theory Connections
  imports App_Error "HOL-Library.Char_ord" "HOL-Library.List_Lexorder"
begin

text \<open>
  Saved connections: their types (\<^verbatim>\<open>backend/core/src/connection.rs\<close>), what an export file carries
  of them (\<^verbatim>\<open>connection_export.rs\<close>), the table they are stored in
  (\<^verbatim>\<open>backend/db/src/connections.rs\<close>) and the export and import commands
  (\<^verbatim>\<open>src-tauri/src/commands/connections.rs\<close>).

  The four structs of the code share their fields, so each record extends the one before it:
  \<^verbatim>\<open>PortableConnection\<close>, \<^verbatim>\<open>NewConnection\<close> with the secrets and the publish flag,
  \<^verbatim>\<open>Connection\<close> with the identity and the dates. A \<^verbatim>\<open>ConnectionRow\<close> has the fields of a
  connection with the two enumerations as text, which the type parameters express.
\<close>

section \<open>Definitions\<close>

datatype security_protocol = Plaintext | Ssl | SaslPlaintext | SaslSsl

datatype sasl_mechanism = Plain | ScramSha256 | ScramSha512

fun show_protocol :: "security_protocol \<Rightarrow> string" where
  "show_protocol Plaintext = ''PLAINTEXT''"
| "show_protocol Ssl = ''SSL''"
| "show_protocol SaslPlaintext = ''SASL_PLAINTEXT''"
| "show_protocol SaslSsl = ''SASL_SSL''"

fun show_mechanism :: "sasl_mechanism \<Rightarrow> string" where
  "show_mechanism Plain = ''PLAIN''"
| "show_mechanism ScramSha256 = ''SCRAM-SHA-256''"
| "show_mechanism ScramSha512 = ''SCRAM-SHA-512''"

definition read_protocol :: "string \<Rightarrow> security_protocol option" where
  "read_protocol s =
     (if s = ''PLAINTEXT'' then Some Plaintext else if s = ''SSL'' then Some Ssl
      else if s = ''SASL_PLAINTEXT'' then Some SaslPlaintext
      else if s = ''SASL_SSL'' then Some SaslSsl else None)"

definition read_mechanism :: "string \<Rightarrow> sasl_mechanism option" where
  "read_mechanism s =
     (if s = ''PLAIN'' then Some Plain else if s = ''SCRAM-SHA-256'' then Some ScramSha256
      else if s = ''SCRAM-SHA-512'' then Some ScramSha512 else None)"

record ('p, 'm) portable_connection =
  conn_name :: string
  bootstrap_servers :: string
  kafka_version :: string
  zookeeper_enabled :: bool
  zookeeper_host :: "string option"
  zookeeper_port :: "int option"
  zookeeper_chroot_path :: "string option"
  security_protocol :: "'p"
  sasl_mechanism :: "'m option"
  sasl_username :: "string option"
  sasl_oauth_url :: "string option"
  schema_registry_endpoint :: "string option"
  schema_registry_trust_store_location :: "string option"
  schema_registry_keystore_location :: "string option"
  ssl_truststore_location :: "string option"
  ssl_keystore_location :: "string option"

record ('p, 'm) new_connection = "('p, 'm) portable_connection" +
  sasl_password :: "string option"
  schema_registry_basic_auth_credentials :: "string option"
  schema_registry_trust_store_password :: "string option"
  schema_registry_keystore_password :: "string option"
  schema_registry_keystore_key_password :: "string option"
  ssl_truststore_password :: "string option"
  ssl_keystore_password :: "string option"
  ssl_keystore_key_password :: "string option"
  allow_publishing :: bool

record ('p, 'm) connection = "('p, 'm) new_connection" +
  conn_id :: string
  created_at :: string
  updated_at :: string

type_synonym portable = "(security_protocol, sasl_mechanism) portable_connection"
type_synonym new_conn = "(security_protocol, sasl_mechanism) new_connection"
type_synonym conn = "(security_protocol, sasl_mechanism) connection"
type_synonym connection_row = "(string, string) connection"

datatype connection_status = Unknown | Reachable | Unreachable

definition portable_of :: "conn \<Rightarrow> portable" where
  "portable_of connection =
     \<lparr>conn_name = conn_name connection,
      bootstrap_servers = bootstrap_servers connection,
      kafka_version = kafka_version connection,
      zookeeper_enabled = zookeeper_enabled connection,
      zookeeper_host = zookeeper_host connection,
      zookeeper_port = zookeeper_port connection,
      zookeeper_chroot_path = zookeeper_chroot_path connection,
      security_protocol = security_protocol connection,
      sasl_mechanism = sasl_mechanism connection,
      sasl_username = sasl_username connection,
      sasl_oauth_url = sasl_oauth_url connection,
      schema_registry_endpoint = schema_registry_endpoint connection,
      schema_registry_trust_store_location = schema_registry_trust_store_location connection,
      schema_registry_keystore_location = schema_registry_keystore_location connection,
      ssl_truststore_location = ssl_truststore_location connection,
      ssl_keystore_location = ssl_keystore_location connection\<rparr>"

definition new_of_portable :: "portable \<Rightarrow> new_conn" where
  "new_of_portable portable =
     \<lparr>conn_name = conn_name portable,
      bootstrap_servers = bootstrap_servers portable,
      kafka_version = kafka_version portable,
      zookeeper_enabled = zookeeper_enabled portable,
      zookeeper_host = zookeeper_host portable,
      zookeeper_port = zookeeper_port portable,
      zookeeper_chroot_path = zookeeper_chroot_path portable,
      security_protocol = security_protocol portable,
      sasl_mechanism = sasl_mechanism portable,
      sasl_username = sasl_username portable,
      sasl_oauth_url = sasl_oauth_url portable,
      schema_registry_endpoint = schema_registry_endpoint portable,
      schema_registry_trust_store_location = schema_registry_trust_store_location portable,
      schema_registry_keystore_location = schema_registry_keystore_location portable,
      ssl_truststore_location = ssl_truststore_location portable,
      ssl_keystore_location = ssl_keystore_location portable,
      sasl_password = None,
      schema_registry_basic_auth_credentials = None,
      schema_registry_trust_store_password = None,
      schema_registry_keystore_password = None,
      schema_registry_keystore_key_password = None,
      ssl_truststore_password = None,
      ssl_keystore_password = None,
      ssl_keystore_key_password = None,
      allow_publishing = False\<rparr>"

text \<open>What the \<^verbatim>\<open>Debug\<close> implementation of a new connection prints: field names and values.\<close>

datatype debug_value =
  DbgText "string option" | DbgBool bool | DbgInt "int option" | DbgProtocol security_protocol
  | DbgMechanism "sasl_mechanism option"

definition redacted :: "string option \<Rightarrow> string option" where
  "redacted v = map_option (\<lambda>_. ''[redacted]'') v"

definition debug_new_connection :: "new_conn \<Rightarrow> (string \<times> debug_value) list" where
  "debug_new_connection c =
     [(''name'', DbgText (Some (conn_name c))),
      (''bootstrap_servers'', DbgText (Some (bootstrap_servers c))),
      (''kafka_version'', DbgText (Some (kafka_version c))),
      (''zookeeper_enabled'', DbgBool (zookeeper_enabled c)),
      (''zookeeper_host'', DbgText (zookeeper_host c)),
      (''zookeeper_port'', DbgInt (zookeeper_port c)),
      (''zookeeper_chroot_path'', DbgText (zookeeper_chroot_path c)),
      (''security_protocol'', DbgProtocol (security_protocol c)),
      (''sasl_mechanism'', DbgMechanism (sasl_mechanism c)),
      (''sasl_username'', DbgText (sasl_username c)),
      (''sasl_password'', DbgText (redacted (sasl_password c))),
      (''sasl_oauth_url'', DbgText (sasl_oauth_url c)),
      (''schema_registry_endpoint'', DbgText (schema_registry_endpoint c)),
      (''schema_registry_basic_auth_credentials'', DbgText (redacted (schema_registry_basic_auth_credentials c))),
      (''schema_registry_trust_store_location'', DbgText (schema_registry_trust_store_location c)),
      (''schema_registry_trust_store_password'', DbgText (redacted (schema_registry_trust_store_password c))),
      (''schema_registry_keystore_location'', DbgText (schema_registry_keystore_location c)),
      (''schema_registry_keystore_password'', DbgText (redacted (schema_registry_keystore_password c))),
      (''schema_registry_keystore_key_password'', DbgText (redacted (schema_registry_keystore_key_password c))),
      (''ssl_truststore_location'', DbgText (ssl_truststore_location c)),
      (''ssl_truststore_password'', DbgText (redacted (ssl_truststore_password c))),
      (''ssl_keystore_location'', DbgText (ssl_keystore_location c)),
      (''ssl_keystore_password'', DbgText (redacted (ssl_keystore_password c))),
      (''ssl_keystore_key_password'', DbgText (redacted (ssl_keystore_key_password c))),
      (''allow_publishing'', DbgBool (allow_publishing c))]"

section \<open>Export files\<close>

definition CURRENT_EXPORT_VERSION :: nat where
  "CURRENT_EXPORT_VERSION = 1"

record export_file =
  salty_connections_version :: nat
  file_connections :: "portable list"

definition new_export_file :: "portable list \<Rightarrow> export_file" where
  "new_export_file connections =
     \<lparr>salty_connections_version = CURRENT_EXPORT_VERSION, file_connections = connections\<rparr>"

text \<open>\<open>from_json\<close> is the JSON library reading a text as an export file.\<close>

definition parse_export :: "(string \<Rightarrow> export_file option) \<Rightarrow> string \<Rightarrow> report + export_file" where
  "parse_export from_json s =
     (case from_json s of
        None \<Rightarrow> Inl (fail_with Validation ''not a valid salty connections export file'')
      | Some file \<Rightarrow>
          if salty_connections_version file \<noteq> CURRENT_EXPORT_VERSION
          then Inl (fail_with Validation
                 (''unsupported connections export file version ''
                  @ show_nat (salty_connections_version file)
                  @ '' (expected '' @ show_nat CURRENT_EXPORT_VERSION @ '')''))
          else Inr file)"

definition select_for_export :: "conn list \<Rightarrow> string list option \<Rightarrow> portable list" where
  "select_for_export all_conns ids =
     (case ids of
        None \<Rightarrow> map portable_of all_conns
      | Some ids \<Rightarrow> map portable_of (filter (\<lambda>c. conn_id c \<in> set ids) all_conns))"

fun partition_importable :: "portable list \<Rightarrow> string set \<Rightarrow> portable list \<times> nat" where
  "partition_importable [] existing_names = ([], 0)"
| "partition_importable (entry # entries) existing_names =
     (let (importable, skipped) = partition_importable entries existing_names
      in if conn_name entry \<in> existing_names then (importable, skipped + 1)
         else (entry # importable, skipped))"

section \<open>The table\<close>

text \<open>
  The rows in insertion order. A statement the database fails to execute (\<open>up = False\<close>) reports a
  database error and changes nothing. The identifier and the date of a new row come from outside.
\<close>

definition into_connection :: "connection_row \<Rightarrow> report + conn" where
  "into_connection row =
     (case read_protocol (security_protocol row) of
        None \<Rightarrow> Inl (fail_with Db (''invalid security_protocol '' @ security_protocol row))
      | Some protocol \<Rightarrow>
          (case (case sasl_mechanism row of
                   None \<Rightarrow> Some None
                 | Some s \<Rightarrow> map_option Some (read_mechanism s)) of
             None \<Rightarrow> Inl (fail_with Db ''invalid sasl_mechanism'')
           | Some mechanism \<Rightarrow>
               Inr \<lparr>conn_name = conn_name row,
                 bootstrap_servers = bootstrap_servers row,
                 kafka_version = kafka_version row,
                 zookeeper_enabled = zookeeper_enabled row,
                 zookeeper_host = zookeeper_host row,
                 zookeeper_port = zookeeper_port row,
                 zookeeper_chroot_path = zookeeper_chroot_path row,
                 security_protocol = protocol,
                 sasl_mechanism = mechanism,
                 sasl_username = sasl_username row,
                 sasl_oauth_url = sasl_oauth_url row,
                 schema_registry_endpoint = schema_registry_endpoint row,
                 schema_registry_trust_store_location = schema_registry_trust_store_location row,
                 schema_registry_keystore_location = schema_registry_keystore_location row,
                 ssl_truststore_location = ssl_truststore_location row,
                 ssl_keystore_location = ssl_keystore_location row,
                 sasl_password = sasl_password row,
                 schema_registry_basic_auth_credentials = schema_registry_basic_auth_credentials row,
                 schema_registry_trust_store_password = schema_registry_trust_store_password row,
                 schema_registry_keystore_password = schema_registry_keystore_password row,
                 schema_registry_keystore_key_password = schema_registry_keystore_key_password row,
                 ssl_truststore_password = ssl_truststore_password row,
                 ssl_keystore_password = ssl_keystore_password row,
                 ssl_keystore_key_password = ssl_keystore_key_password row,
                 allow_publishing = allow_publishing row,
                 conn_id = conn_id row,
                 created_at = created_at row,
                 updated_at = updated_at row\<rparr>))"

definition row_of :: "string \<Rightarrow> string \<Rightarrow> string \<Rightarrow> new_conn \<Rightarrow> connection_row" where
  "row_of i created updated n =
     \<lparr>conn_name = conn_name n,
      bootstrap_servers = bootstrap_servers n,
      kafka_version = kafka_version n,
      zookeeper_enabled = zookeeper_enabled n,
      zookeeper_host = zookeeper_host n,
      zookeeper_port = zookeeper_port n,
      zookeeper_chroot_path = zookeeper_chroot_path n,
      security_protocol = show_protocol (security_protocol n),
      sasl_mechanism = map_option show_mechanism (sasl_mechanism n),
      sasl_username = sasl_username n,
      sasl_oauth_url = sasl_oauth_url n,
      schema_registry_endpoint = schema_registry_endpoint n,
      schema_registry_trust_store_location = schema_registry_trust_store_location n,
      schema_registry_keystore_location = schema_registry_keystore_location n,
      ssl_truststore_location = ssl_truststore_location n,
      ssl_keystore_location = ssl_keystore_location n,
      sasl_password = sasl_password n,
      schema_registry_basic_auth_credentials = schema_registry_basic_auth_credentials n,
      schema_registry_trust_store_password = schema_registry_trust_store_password n,
      schema_registry_keystore_password = schema_registry_keystore_password n,
      schema_registry_keystore_key_password = schema_registry_keystore_key_password n,
      ssl_truststore_password = ssl_truststore_password n,
      ssl_keystore_password = ssl_keystore_password n,
      ssl_keystore_key_password = ssl_keystore_key_password n,
      allow_publishing = allow_publishing n,
      conn_id = i, created_at = created, updated_at = updated\<rparr>"

definition conn_get :: "bool \<Rightarrow> connection_row list \<Rightarrow> string \<Rightarrow> report + conn" where
  "conn_get up rows i =
     (if \<not> up then Inl (fail_with Db (''failed to fetch connection '' @ i))
      else case find (\<lambda>r. conn_id r = i) rows of
        None \<Rightarrow> Inl (fail_with NotFound (''connection '' @ i @ '' not found''))
      | Some row \<Rightarrow> into_connection row)"

definition conn_create ::
    "bool \<Rightarrow> string \<Rightarrow> string \<Rightarrow> new_conn \<Rightarrow> connection_row list \<Rightarrow> (report + conn) \<times> connection_row list" where
  "conn_create up i now n rows =
     (if \<not> up \<or> i \<in> conn_id ` set rows then (Inl (fail_with Db ''failed to insert connection''), rows)
      else let rows = rows @ [row_of i now now n] in (conn_get up rows i, rows))"

fun into_connections :: "connection_row list \<Rightarrow> report + conn list" where
  "into_connections [] = Inr []"
| "into_connections (r # rs) =
     and_then (into_connection r) (\<lambda>c. and_then (into_connections rs) (\<lambda>cs. Inr (c # cs)))"

definition conn_list :: "bool \<Rightarrow> connection_row list \<Rightarrow> report + conn list" where
  "conn_list up rows =
     (if \<not> up then Inl (fail_with Db ''failed to list connections'')
      else into_connections (sort_key created_at rows))"

definition conn_update ::
    "bool \<Rightarrow> string \<Rightarrow> string \<Rightarrow> new_conn \<Rightarrow> connection_row list \<Rightarrow> (report + conn) \<times> connection_row list" where
  "conn_update up i now n rows =
     (if \<not> up then (Inl (fail_with Db (''failed to update connection '' @ i)), rows)
      else
        let rows' = map (\<lambda>r. if conn_id r = i then row_of i (created_at r) now n else r) rows
        in if i \<notin> conn_id ` set rows
           then (Inl (fail_with NotFound (''connection '' @ i @ '' not found'')), rows')
           else (conn_get up rows' i, rows'))"

definition conn_delete :: "bool \<Rightarrow> string \<Rightarrow> connection_row list \<Rightarrow> (report + unit) \<times> connection_row list" where
  "conn_delete up i rows =
     (if \<not> up then (Inl (fail_with Db (''failed to delete connection '' @ i)), rows)
      else
        let rows' = filter (\<lambda>r. conn_id r \<noteq> i) rows
        in if i \<notin> conn_id ` set rows
           then (Inl (fail_with NotFound (''connection '' @ i @ '' not found'')), rows')
           else (Inr (), rows'))"

section \<open>Export and import\<close>

definition connections_export ::
    "bool \<Rightarrow> (export_file \<Rightarrow> string option) \<Rightarrow> string list option \<Rightarrow> connection_row list \<Rightarrow> report + string" where
  "connections_export up to_json ids rows =
     and_then (conn_list up rows) (\<lambda>all_conns.
     let file = new_export_file (select_for_export all_conns ids)
     in case to_json file of
          None \<Rightarrow> Inl (fail_with Validation ''failed to serialize the connections export file'')
        | Some s \<Rightarrow> Inr s)"

text \<open>Every entry is inserted on its own, the \<open>k\<close>-th under the identifier and date \<open>fresh k\<close>; the
  first failure ends the import with the entries before it in place.\<close>

fun import_all ::
    "bool \<Rightarrow> portable list \<Rightarrow> nat \<Rightarrow> (nat \<Rightarrow> string \<times> string) \<Rightarrow> connection_row list
      \<Rightarrow> (report + unit) \<times> connection_row list" where
  "import_all up [] k fresh rows = (Inr (), rows)"
| "import_all up (p # ps) k fresh rows =
     (case conn_create up (fst (fresh k)) (snd (fresh k)) (new_of_portable p) rows of
        (Inl r, rows) \<Rightarrow> (Inl r, rows)
      | (Inr _, rows) \<Rightarrow> import_all up ps (k + 1) fresh rows)"

definition connections_import ::
    "bool \<Rightarrow> (string \<Rightarrow> export_file option) \<Rightarrow> string option \<Rightarrow> (nat \<Rightarrow> string \<times> string)
      \<Rightarrow> connection_row list \<Rightarrow> (report + nat \<times> nat) \<times> connection_row list" where
  "connections_import up from_json file_text fresh rows =
     (case file_text of
        None \<Rightarrow> (Inl (fail_with Validation ''failed to read the connections export file''), rows)
      | Some s \<Rightarrow>
          (case parse_export from_json s of
             Inl r \<Rightarrow> (Inl r, rows)
           | Inr file \<Rightarrow>
               (case conn_list up rows of
                  Inl r \<Rightarrow> (Inl r, rows)
                | Inr existing \<Rightarrow>
                    let (importable, skipped) =
                          partition_importable (file_connections file) (conn_name ` set existing);
                        imported = length importable
                    in case import_all up importable 0 fresh rows of
                         (Inl r, rows) \<Rightarrow> (Inl r, rows)
                       | (Inr _, rows) \<Rightarrow> (Inr (imported, skipped), rows))))"

section \<open>Lemmas\<close>

lemma read_show_protocol [simp]: "read_protocol (show_protocol p) = Some p"
  by (cases p) (simp_all add: read_protocol_def)

lemma read_show_mechanism [simp]: "read_mechanism (show_mechanism m) = Some m"
  by (cases m) (simp_all add: read_mechanism_def)

lemma into_row_of:
  "\<exists>c. into_connection (row_of i created updated n) = Inr c \<and> new_connection.truncate c = n
    \<and> conn_id c = i \<and> created_at c = created \<and> updated_at c = updated"
  by (cases "sasl_mechanism n"; cases n)
    (auto simp: into_connection_def row_of_def new_connection.defs)

lemma conn_id_row_of [simp]: "conn_id (row_of i created updated n) = i" "created_at (row_of i created updated n) = created"
  by (simp_all add: row_of_def)

lemma conn_get_id: "conn_get up rows i = Inr c \<Longrightarrow> conn_id c = i"
  by (auto simp: conn_get_def into_connection_def find_Some_iff split: if_splits option.splits)

lemma find_append: "find P (xs @ ys) = (case find P xs of Some x \<Rightarrow> Some x | None \<Rightarrow> find P ys)"
  by (induction xs) auto

lemma find_map_id:
  "(\<And>r. conn_id (f r) = conn_id r) \<Longrightarrow> (\<And>r. conn_id r = j \<Longrightarrow> f r = r) \<Longrightarrow>
    find (\<lambda>r. conn_id r = j) (map f rows) = find (\<lambda>r. conn_id r = j) rows"
  by (induction rows) auto

lemma find_None_id: "find (\<lambda>r. conn_id r = i) rows = None \<longleftrightarrow> i \<notin> conn_id ` set rows"
  by (auto simp: find_None_iff)

lemma find_filter_id: "j \<noteq> i \<Longrightarrow> find (\<lambda>r. conn_id r = j) (filter (\<lambda>r. conn_id r \<noteq> i) rows) = find (\<lambda>r. conn_id r = j) rows"
  by (induction rows) auto

section \<open>Properties\<close>

text \<open>What is saved is what is read back: creating or editing a connection returns, and from then
  on reads, exactly the submitted settings, secrets and publish flag under the same identifier; an
  edit keeps the creation date; and no other connection changes.\<close>
theorem saved_connection_roundtrip:
  assumes "(res = conn_create True i now n rows \<and> i \<notin> conn_id ` set rows \<and> born = now)
      \<or> (res = conn_update True i now n rows
          \<and> (\<exists>r. find (\<lambda>r. conn_id r = i) rows = Some r \<and> born = created_at r))"
  shows "\<exists>c. fst res = Inr c \<and> conn_get True (snd res) i = Inr c \<and> new_connection.truncate c = n
    \<and> conn_id c = i \<and> created_at c = born \<and> updated_at c = now
    \<and> (\<forall>j. j = i \<or> conn_get True (snd res) j = conn_get True rows j)"
  using assms
proof (elim disjE conjE exE)
  assume res: "res = conn_create True i now n rows" and new: "i \<notin> conn_id ` set rows" and born: "born = now"
  have none: "find (\<lambda>r. conn_id r = i) rows = None" using new by (simp add: find_None_id)
  have rows: "snd res = rows @ [row_of i now now n]" "fst res = conn_get True (snd res) i"
    using res new by (simp_all add: conn_create_def Let_def)
  have get: "conn_get True (snd res) i = into_connection (row_of i now now n)"
    by (simp add: rows conn_get_def find_append none)
  have "j = i \<or> conn_get True (snd res) j = conn_get True rows j" for j
    by (auto simp: rows conn_get_def find_append split: option.splits)
  then show ?thesis using into_row_of [of i now now n] get rows(2) born by metis
next
  fix r
  assume res: "res = conn_update True i now n rows" and r: "find (\<lambda>r. conn_id r = i) rows = Some r"
    and born: "born = created_at r"
  have old: "i \<in> conn_id ` set rows" using r find_None_id [of i rows] by auto
  let ?f = "\<lambda>r. if conn_id r = i then row_of i (created_at r) now n else r"
  have rows: "snd res = map ?f rows" "fst res = conn_get True (snd res) i"
    using res old by (simp_all add: conn_update_def Let_def)
  have "find (\<lambda>r. conn_id r = i) (map ?f rows) = Some (row_of i (created_at r) now n)"
    using r by (induction rows) auto
  then have get: "conn_get True (snd res) i = into_connection (row_of i born now n)"
    by (simp add: rows conn_get_def born)
  have "j = i \<or> conn_get True (snd res) j = conn_get True rows j" for j
  proof (cases "j = i")
    case False
    then have "find (\<lambda>r. conn_id r = j) (map ?f rows) = find (\<lambda>r. conn_id r = j) rows"
      by (intro find_map_id) auto
    then show ?thesis by (simp add: rows conn_get_def)
  qed simp
  then show ?thesis using into_row_of [of i born now n] get rows(2) by metis
qed

definition example_conn :: new_conn where
  "example_conn = new_of_portable \<lparr>conn_name = ''x'', bootstrap_servers = ''x'', kafka_version = ''x'', zookeeper_enabled = False, zookeeper_host = None, zookeeper_port = None, zookeeper_chroot_path = None, security_protocol = Plaintext, sasl_mechanism = None, sasl_username = None, sasl_oauth_url = None, schema_registry_endpoint = None, schema_registry_trust_store_location = None, schema_registry_keystore_location = None, ssl_truststore_location = None, ssl_keystore_location = None\<rparr>"

theorem saved_connection_roundtrip_witness:
  "\<exists>c. conn_get True (snd (conn_create True ''1'' ''now'' example_conn [])) ''1'' = Inr c \<and> created_at c = ''now''"
  using saved_connection_roundtrip [of "conn_create True ''1'' ''now'' example_conn []" "''1''" "''now''" example_conn "[]" "''now''"]
  by auto

text \<open>Printing a connection for a log reveals of each of its eight secrets only whether it is
  set.\<close>
theorem debug_hides_secrets:
  assumes "(sasl_password c = None) = (sasl_password d = None)
      \<and> (schema_registry_basic_auth_credentials c = None) = (schema_registry_basic_auth_credentials d = None)
      \<and> (schema_registry_trust_store_password c = None) = (schema_registry_trust_store_password d = None)
      \<and> (schema_registry_keystore_password c = None) = (schema_registry_keystore_password d = None)
      \<and> (schema_registry_keystore_key_password c = None) = (schema_registry_keystore_key_password d = None)
      \<and> (ssl_truststore_password c = None) = (ssl_truststore_password d = None)
      \<and> (ssl_keystore_password c = None) = (ssl_keystore_password d = None)
      \<and> (ssl_keystore_key_password c = None) = (ssl_keystore_key_password d = None)"
    and "portable_connection.truncate c = portable_connection.truncate d" and "allow_publishing c = allow_publishing d"
  shows "debug_new_connection c = debug_new_connection d"
proof -
  have red: "redacted a = redacted b" if "(a = None) = (b = None)" for a b
    using that by (cases a; cases b) (auto simp: redacted_def)
  have secrets: "redacted (sasl_password c) = redacted (sasl_password d)"
    "redacted (schema_registry_basic_auth_credentials c) = redacted (schema_registry_basic_auth_credentials d)"
    "redacted (schema_registry_trust_store_password c) = redacted (schema_registry_trust_store_password d)"
    "redacted (schema_registry_keystore_password c) = redacted (schema_registry_keystore_password d)"
    "redacted (schema_registry_keystore_key_password c) = redacted (schema_registry_keystore_key_password d)"
    "redacted (ssl_truststore_password c) = redacted (ssl_truststore_password d)"
    "redacted (ssl_keystore_password c) = redacted (ssl_keystore_password d)"
    "redacted (ssl_keystore_key_password c) = redacted (ssl_keystore_key_password d)"
    by (rule red, insert assms(1), blast)+
  show ?thesis
    using assms(2,3) by (simp add: debug_new_connection_def portable_connection.defs secrets)
qed

theorem debug_hides_secrets_witness:
  "debug_new_connection (example_conn\<lparr>sasl_password := Some ''a''\<rparr>)
    = debug_new_connection (example_conn\<lparr>sasl_password := Some ''b''\<rparr>)"
  by (rule debug_hides_secrets) (simp_all add: portable_connection.defs)

fun imported_rows :: "nat \<Rightarrow> (nat \<Rightarrow> string \<times> string) \<Rightarrow> portable list \<Rightarrow> connection_row list" where
  "imported_rows k fresh [] = []"
| "imported_rows k fresh (p # ps) =
     row_of (fst (fresh k)) (snd (fresh k)) (snd (fresh k)) (new_of_portable p) # imported_rows (k + 1) fresh ps"

lemma import_all_rows:
  "inj (fst \<circ> fresh) \<Longrightarrow> (\<And>j. k \<le> j \<Longrightarrow> fst (fresh j) \<notin> conn_id ` set rows) \<Longrightarrow>
    import_all True ps k fresh rows = (Inr (), rows @ imported_rows k fresh ps)"
proof (induction ps arbitrary: k rows)
  case (Cons p ps)
  let ?row = "row_of (fst (fresh k)) (snd (fresh k)) (snd (fresh k)) (new_of_portable p)"
  have new: "fst (fresh k) \<notin> conn_id ` set rows" using Cons.prems(2) by simp
  have none: "find (\<lambda>r. conn_id r = fst (fresh k)) rows = None" using new by (simp add: find_None_id)
  obtain c where c: "into_connection ?row = Inr c" using into_row_of by blast
  have create: "conn_create True (fst (fresh k)) (snd (fresh k)) (new_of_portable p) rows = (Inr c, rows @ [?row])"
    using new none c by (simp add: conn_create_def Let_def conn_get_def find_append)
  have "fst (fresh j) \<notin> conn_id ` set (rows @ [?row])" if "k + 1 \<le> j" for j
  proof -
    have "fst (fresh j) \<noteq> fst (fresh k)" using injD [OF Cons.prems(1), of j k] that by auto
    then show ?thesis using Cons.prems(2) [of j] that by simp
  qed
  from Cons.IH [OF Cons.prems(1) this] show ?case by (simp add: create)
qed simp

lemma into_imported_rows:
  "\<exists>cs. into_connections (imported_rows k fresh ps) = Inr cs \<and> map portable_of cs = ps
    \<and> (\<forall>c\<in>set cs. \<exists>p. new_connection.truncate c = new_of_portable p)"
proof (induction ps arbitrary: k)
  case (Cons p ps)
  obtain cs where cs: "into_connections (imported_rows (k + 1) fresh ps) = Inr cs" "map portable_of cs = ps"
    "\<forall>c\<in>set cs. \<exists>p. new_connection.truncate c = new_of_portable p"
    using Cons.IH by blast
  obtain c where c: "into_connection (row_of (fst (fresh k)) (snd (fresh k)) (snd (fresh k)) (new_of_portable p)) = Inr c"
    "new_connection.truncate c = new_of_portable p"
    using into_row_of by blast
  have "portable_of c = p"
    using c(2) by (cases p) (simp add: portable_of_def new_of_portable_def new_connection.defs)
  then show ?case using cs c by (intro exI [of _ "c # cs"]) auto
qed simp

lemma partition_importable_eq:
  "partition_importable es names =
     (filter (\<lambda>e. conn_name e \<notin> names) es, length (filter (\<lambda>e. conn_name e \<in> names) es))"
  by (induction es) auto

definition carries_no_secret :: "conn \<Rightarrow> bool" where
  "carries_no_secret c \<longleftrightarrow> \<not> allow_publishing c \<and> sasl_password c = None
     \<and> schema_registry_basic_auth_credentials c = None
     \<and> schema_registry_trust_store_password c = None
     \<and> schema_registry_keystore_password c = None
     \<and> schema_registry_keystore_key_password c = None
     \<and> ssl_truststore_password c = None
     \<and> ssl_keystore_password c = None
     \<and> ssl_keystore_key_password c = None"

text \<open>C33: Exporting connections and importing the file on another machine recreates exactly the
  exported settings, in order, and nothing else: no imported connection carries a secret and none
  may publish, whatever the exported ones held.\<close>
theorem export_import_roundtrip:
  assumes "connections_export True to_json ids rows = Inr s"
    and "\<And>f t. to_json f = Some t \<Longrightarrow> from_json t = Some f"
    and "inj (fst \<circ> fresh)"
  shows "\<exists>all_conns imported n rows'. conn_list True rows = Inr all_conns
    \<and> connections_import True from_json (Some s) fresh [] = (Inr (n, 0), rows')
    \<and> into_connections rows' = Inr imported
    \<and> map portable_of imported = select_for_export all_conns ids
    \<and> n = length imported
    \<and> list_all carries_no_secret imported"
proof -
  obtain all_conns where all_conns: "conn_list True rows = Inr all_conns"
    and json: "to_json (new_export_file (select_for_export all_conns ids)) = Some s"
    using assms(1) by (auto simp: connections_export_def Let_def split: option.splits)
  let ?ps = "select_for_export all_conns ids"
  have parse: "parse_export from_json s = Inr (new_export_file ?ps)"
    using assms(2) [OF json] by (simp add: parse_export_def new_export_file_def)
  have part: "partition_importable ?ps {} = (?ps, 0)" by (simp add: partition_importable_eq)
  have all: "import_all True ?ps 0 fresh [] = (Inr (), imported_rows 0 fresh ?ps)"
    using import_all_rows [OF assms(3), of 0 "[]"] by simp
  have import: "connections_import True from_json (Some s) fresh [] = (Inr (length ?ps, 0), imported_rows 0 fresh ?ps)"
    using parse part all
    by (simp add: connections_import_def conn_list_def new_export_file_def)
  obtain cs where cs: "into_connections (imported_rows 0 fresh ?ps) = Inr cs" "map portable_of cs = ?ps"
    "\<forall>c\<in>set cs. \<exists>p. new_connection.truncate c = new_of_portable p"
    using into_imported_rows by blast
  have "carries_no_secret c" if "new_connection.truncate c = new_of_portable p" for c p
    using that by (simp add: carries_no_secret_def new_of_portable_def new_connection.defs)
  then have "list_all carries_no_secret cs" using cs(3) by (auto simp: list_all_iff)
  moreover have "length cs = length ?ps" using cs(2) by (metis length_map)
  ultimately show ?thesis using all_conns import cs by metis
qed

theorem export_import_roundtrip_witness:
  "\<exists>rows'. connections_import True (\<lambda>t. if t = ''{}'' then Some (new_export_file []) else None) (Some ''{}'')
     (\<lambda>k. (replicate k CHR ''i'', ''now'')) [] = (Inr (0, 0), rows')"
proof -
  let ?to_json = "\<lambda>f. if f = new_export_file [] then Some ''{}'' else None"
  let ?from_json = "\<lambda>t. if t = ''{}'' then Some (new_export_file []) else None"
  let ?fresh = "\<lambda>k. (replicate k CHR ''i'', ''now'')"
  have export: "connections_export True ?to_json None [] = Inr ''{}''"
    by (simp add: connections_export_def conn_list_def select_for_export_def)
  have reads: "?to_json f = Some t \<Longrightarrow> ?from_json t = Some f" for f t by (auto split: if_splits)
  have inj: "inj (fst \<circ> ?fresh)" by (auto simp: inj_def dest: arg_cong [of _ _ length])
  from export_import_roundtrip [OF export, of ?from_json ?fresh, OF reads inj]
  show ?thesis by (auto simp: conn_list_def select_for_export_def)
qed

text \<open>Importing never touches what is there: the existing rows stay as they are, entries whose name
  is taken are counted and left out, and every other entry is created.\<close>
theorem import_keeps_existing:
  assumes "conn_list True rows = Inr existing" and "from_json s = Some (new_export_file entries)"
    and "inj (fst \<circ> fresh)" and "\<And>k. fst (fresh k) \<notin> conn_id ` set rows"
  shows "\<exists>added. connections_import True from_json (Some s) fresh rows
      = (Inr (length added, length entries - length added), rows @ added)
    \<and> (\<exists>cs. into_connections added = Inr cs
        \<and> map portable_of cs = filter (\<lambda>e. conn_name e \<notin> conn_name ` set existing) entries)"
proof -
  let ?ps = "filter (\<lambda>e. conn_name e \<notin> conn_name ` set existing) entries"
  have part: "partition_importable entries (conn_name ` set existing) = (?ps, length entries - length ?ps)"
    using sum_length_filter_compl [of "\<lambda>e. conn_name e \<in> conn_name ` set existing" entries]
    by (simp add: partition_importable_eq)
  have all: "import_all True ?ps 0 fresh rows = (Inr (), rows @ imported_rows 0 fresh ?ps)"
    using import_all_rows [OF assms(3), of 0 rows] assms(4) by simp
  obtain cs where cs: "into_connections (imported_rows 0 fresh ?ps) = Inr cs" "map portable_of cs = ?ps"
    using into_imported_rows by blast
  have len: "length (imported_rows k fresh ps) = length ps" for k ps
    by (induction ps arbitrary: k) auto
  show ?thesis
    using part all assms(1,2) cs len
    by (intro exI [of _ "imported_rows 0 fresh ?ps"])
      (simp add: connections_import_def parse_export_def new_export_file_def)
qed

theorem import_keeps_existing_witness:
  "\<exists>added. connections_import True (\<lambda>_. Some (new_export_file [])) (Some ''{}'')
     (\<lambda>k. (replicate k CHR ''i'', ''now'')) [] = (Inr (length added, 0 - length added), [] @ added)"
proof -
  have inj: "inj (fst \<circ> (\<lambda>k. (replicate k CHR ''i'', ''now'')))"
    by (auto simp: inj_def dest: arg_cong [of _ _ length])
  have list: "conn_list True [] = Inr []" by (simp add: conn_list_def)
  from import_keeps_existing [OF list, of "\<lambda>_. Some (new_export_file [])" "''{}''" "[]", OF refl inj]
  show ?thesis by auto
qed

text \<open>Names are only compared with the connections that existed before the import: a file with
  two entries of one name creates both.\<close>
theorem import_can_duplicate_names:
  "\<exists>entries importable. partition_importable entries {} = (importable, 0) \<and> \<not> distinct (map conn_name importable)"
  by (rule exI [of _ "[portable_connection.truncate example_conn, portable_connection.truncate example_conn]"])
    (simp add: partition_importable_eq)

end
