(* ===== verification/Db_Tables.thy ===== *)
theory Db_Tables
  imports App_Error
begin

text \<open>
  The two small tables of the database: the tabs of the window (\<^verbatim>\<open>backend/db/src/tabs.rs\<close>) and
  the schemas pasted for topics (\<^verbatim>\<open>backend/db/src/topic_schemas.rs\<close>). A table is its rows in
  insertion order; a statement the database fails to execute (\<open>up = False\<close>) reports a database
  error and changes nothing, and a transaction that fails is rolled back.
\<close>

section \<open>Tabs\<close>

record tab =
  tab_id :: string
  tab_name :: string
  tab_position :: int

definition tabs_list :: "bool \<Rightarrow> tab list \<Rightarrow> report + tab list" where
  "tabs_list up rows =
     (if up then Inr (sort_key tab_position rows) else Inl (fail_with Db ''failed to list tabs''))"

text \<open>\<^verbatim>\<open>SELECT COALESCE(MAX(position), -1) + 1 FROM tabs\<close>\<close>

definition next_position :: "tab list \<Rightarrow> int" where
  "next_position rows =
     (case rows of [] \<Rightarrow> - 1 | r # rs \<Rightarrow> fold max (map tab_position rs) (tab_position r)) + 1"

definition tabs_create :: "bool \<Rightarrow> string \<Rightarrow> string \<Rightarrow> tab list \<Rightarrow> (report + tab) \<times> tab list" where
  "tabs_create up i name rows =
     (if \<not> up then (Inl (fail_with Db ''failed to start transaction for tab creation''), rows)
      else
        let t = \<lparr>tab_id = i, tab_name = name, tab_position = next_position rows\<rparr>
        in if i \<in> tab_id ` set rows then (Inl (fail_with Db ''failed to insert tab''), rows)
           else (Inr t, rows @ [t]))"

definition tabs_rename :: "bool \<Rightarrow> string \<Rightarrow> string \<Rightarrow> tab list \<Rightarrow> (report + unit) \<times> tab list" where
  "tabs_rename up i name rows =
     (if \<not> up then (Inl (fail_with Db (''failed to rename tab '' @ i)), rows)
      else
        let rows' = map (\<lambda>t. if tab_id t = i then t\<lparr>tab_name := name\<rparr> else t) rows
        in if i \<notin> tab_id ` set rows then (Inl (fail_with NotFound (''tab '' @ i @ '' not found'')), rows')
           else (Inr (), rows'))"

fun reposition :: "int \<Rightarrow> string list \<Rightarrow> tab list \<Rightarrow> tab list" where
  "reposition p [] rows = rows"
| "reposition p (i # is) rows =
     reposition (p + 1) is (map (\<lambda>t. if tab_id t = i then t\<lparr>tab_position := p\<rparr> else t) rows)"

definition tabs_reorder :: "bool \<Rightarrow> string list \<Rightarrow> tab list \<Rightarrow> (report + unit) \<times> tab list" where
  "tabs_reorder up ids rows =
     (if \<not> up then (Inl (fail_with Db ''failed to start transaction for tab reorder''), rows)
      else (Inr (), reposition 0 ids rows))"

definition tabs_delete :: "bool \<Rightarrow> string \<Rightarrow> tab list \<Rightarrow> (report + unit) \<times> tab list" where
  "tabs_delete up i rows =
     (if \<not> up then (Inl (fail_with Db (''failed to delete tab '' @ i)), rows)
      else
        let rows' = filter (\<lambda>t. tab_id t \<noteq> i) rows
        in if i \<notin> tab_id ` set rows then (Inl (fail_with NotFound (''tab '' @ i @ '' not found'')), rows')
           else (Inr (), rows'))"

section \<open>Topic schemas\<close>

text \<open>A schema is filed under connection, topic and format; the table only takes the two formats.\<close>

type_synonym schema_key = "string \<times> string \<times> string"
type_synonym schema_table = "(schema_key \<times> string) list"

definition schema_get :: "bool \<Rightarrow> string \<Rightarrow> string \<Rightarrow> string \<Rightarrow> schema_table \<Rightarrow> report + string option" where
  "schema_get up c topic format rows =
     (if up then Inr (map_of rows (c, topic, format))
      else Inl (fail_with Db (''failed to load schema for '' @ c @ ''/'' @ topic @ ''/'' @ format)))"

fun upsert :: "schema_key \<Rightarrow> string \<Rightarrow> schema_table \<Rightarrow> schema_table" where
  "upsert k v [] = [(k, v)]"
| "upsert k v ((j, w) # rows) = (if j = k then (j, v) # rows else (j, w) # upsert k v rows)"

definition schema_set ::
    "bool \<Rightarrow> string \<Rightarrow> string \<Rightarrow> string \<Rightarrow> string \<Rightarrow> schema_table \<Rightarrow> (report + unit) \<times> schema_table" where
  "schema_set up c topic format schema_text rows =
     (if up \<and> format \<in> {''avro'', ''protobuf''} then (Inr (), upsert (c, topic, format) schema_text rows)
      else (Inl (fail_with Db (''failed to save schema for '' @ c @ ''/'' @ topic @ ''/'' @ format)), rows))"

definition schema_delete ::
    "bool \<Rightarrow> string \<Rightarrow> string \<Rightarrow> string \<Rightarrow> schema_table \<Rightarrow> (report + unit) \<times> schema_table" where
  "schema_delete up c topic format rows =
     (if up then (Inr (), filter (\<lambda>r. fst r \<noteq> (c, topic, format)) rows)
      else (Inl (fail_with Db (''failed to delete schema for '' @ c @ ''/'' @ topic @ ''/'' @ format)), rows))"

definition schema_delete_all :: "bool \<Rightarrow> string \<Rightarrow> schema_table \<Rightarrow> (report + unit) \<times> schema_table" where
  "schema_delete_all up c rows =
     (if up then (Inr (), filter (\<lambda>r. fst (fst r) \<noteq> c) rows)
      else (Inl (fail_with Db (''failed to delete topic schemas for connection '' @ c)), rows))"

section \<open>Lemmas\<close>

lemma fold_max_ge: "x \<in> set xs \<or> x \<le> m \<Longrightarrow> x \<le> fold max xs (m :: int)"
  by (induction xs arbitrary: m) (auto simp: max_def)

lemma next_position_gt: "t \<in> set rows \<Longrightarrow> tab_position t < next_position rows"
proof (cases rows)
  case (Cons r rs)
  assume "t \<in> set rows"
  then have "tab_position t \<le> fold max (map tab_position rs) (tab_position r)"
    using Cons by (intro fold_max_ge) auto
  then show ?thesis by (simp add: next_position_def Cons)
qed simp

lemma insort_key_snoc: "f y \<le> f x \<Longrightarrow> insort_key f y (zs @ [x]) = insort_key f y zs @ [x]"
  by (induction zs) auto

lemma sort_key_snoc:
  "(\<And>y. y \<in> set xs \<Longrightarrow> f y \<le> f x) \<Longrightarrow> sort_key f (xs @ [x]) = sort_key f xs @ [x]"
  by (induction xs) (simp_all add: insort_key_snoc)

lemma upsert_lookup: "map_of (upsert k v rows) = (map_of rows)(k \<mapsto> v)"
  by (induction k v rows rule: upsert.induct) auto

lemma reposition_map:
  "distinct is \<Longrightarrow> reposition p is rows =
     map (\<lambda>t. if tab_id t \<in> set is
              then t\<lparr>tab_position := p + int (length (takeWhile (\<lambda>i. i \<noteq> tab_id t) is))\<rparr> else t) rows"
proof (induction "is" arbitrary: p rows)
  case (Cons i "is")
  then show ?case by (auto simp: comp_def)
qed simp

lemma takeWhile_index: "distinct xs \<Longrightarrow> i < length xs \<Longrightarrow> length (takeWhile (\<lambda>y. y \<noteq> xs ! i) xs) = i"
proof (induction xs arbitrary: i)
  case (Cons x xs)
  then show ?case by (cases i) auto
qed simp

section \<open>Properties\<close>

text \<open>A new tab opens at the end: the list afterwards is the list before with the new tab last.\<close>
theorem tab_created_last:
  assumes "i \<notin> tab_id ` set rows" and "tabs_list True rows = Inr before"
  shows "\<exists>t. fst (tabs_create True i name rows) = Inr t \<and> tab_id t = i \<and> tab_name t = name
    \<and> tabs_list True (snd (tabs_create True i name rows)) = Inr (before @ [t])"
proof -
  let ?t = "\<lparr>tab_id = i, tab_name = name, tab_position = next_position rows\<rparr>"
  have "sort_key tab_position (rows @ [?t]) = sort_key tab_position rows @ [?t]"
    using next_position_gt [of _ rows] by (intro sort_key_snoc) (auto intro: less_imp_le)
  then show ?thesis using assms by (auto simp: tabs_create_def tabs_list_def Let_def)
qed

theorem tab_created_last_witness:
  "\<exists>t. tabs_list True (snd (tabs_create True ''b'' ''B'' [\<lparr>tab_id = ''a'', tab_name = ''A'', tab_position = 4\<rparr>]))
    = Inr [\<lparr>tab_id = ''a'', tab_name = ''A'', tab_position = 4\<rparr>, t] \<and> tab_id t = ''b''"
  using tab_created_last [of "''b''" "[\<lparr>tab_id = ''a'', tab_name = ''A'', tab_position = 4\<rparr>]" _ "''B''"]
  by (auto simp: tabs_list_def)

text \<open>Reordering puts the tabs in the order given: when the ids are those of all the tabs, each
  once, the list afterwards has exactly that order, and every tab keeps its name.\<close>
theorem tabs_reordered:
  assumes "distinct ids" and "set ids = tab_id ` set rows" and "distinct (map tab_id rows)"
    and "tabs_list True (snd (tabs_reorder True ids rows)) = Inr after"
  shows "map tab_id after = ids
    \<and> (\<lambda>t. (tab_id t, tab_name t)) ` set after = (\<lambda>t. (tab_id t, tab_name t)) ` set rows"
proof -
  let ?idx = "\<lambda>t. length (takeWhile (\<lambda>i. i \<noteq> tab_id t) ids)"
  let ?f = "\<lambda>t. t\<lparr>tab_position := int (?idx t)\<rparr>"
  have "reposition 0 ids rows = map ?f rows"
    using assms(2) by (auto simp: reposition_map [OF assms(1)])
  then have after: "after = sort_key tab_position (map ?f rows)"
    using assms(4) by (simp add: tabs_list_def tabs_reorder_def)
  have len: "length rows = length ids"
    using assms(1-3) by (metis distinct_card length_map list.set_map)
  have idx: "ids ! ?idx t = tab_id t" "?idx t < length ids" if "t \<in> set rows" for t
  proof -
    have "tab_id t \<in> set ids" using that assms(2) by simp
    then obtain k where k: "k < length ids" "ids ! k = tab_id t" by (auto simp: in_set_conv_nth)
    then have "?idx t = k" using takeWhile_index [OF assms(1) k(1)] by simp
    then show "ids ! ?idx t = tab_id t" "?idx t < length ids" using k by auto
  qed
  have pos: "ids ! nat (tab_position t) = tab_id t \<and> 0 \<le> tab_position t \<and> tab_position t < int (length ids)"
    if "t \<in> set after" for t
    using that idx by (auto simp: after)
  have "distinct (map tab_id after)"
  proof -
    have "map tab_id (map ?f rows) = map tab_id rows" by simp
    then have "distinct (map tab_id (map ?f rows))" using assms(3) by (simp only:)
    then show ?thesis unfolding after by (simp only: distinct_map distinct_sort set_sort)
  qed
  then have dist: "distinct (map tab_position after)"
    unfolding distinct_map using pos by (auto simp: inj_on_def) metis
  have "length after = length ids" by (simp add: after len)
  then have card: "card (set (map tab_position after)) = length ids" using distinct_card [OF dist] by simp
  have "set (map tab_position after) \<subseteq> {0..<int (length ids)}" using pos by auto
  then have positions: "set (map tab_position after) = {0..<int (length ids)}"
    using card by (intro card_subset_eq) auto
  have "map tab_position after = map int [0..<length ids]"
  proof (rule sorted_distinct_set_unique)
    show "sorted (map tab_position after)" by (simp add: after)
    show "sorted (map int [0..<length ids])" by (simp add: sorted_map sorted_wrt_iff_nth_less)
    show "distinct (map int [0..<length ids])" by (simp add: distinct_map)
    show "set (map tab_position after) = set (map int [0..<length ids])"
      unfolding positions by (auto simp: image_iff intro!: bexI [of _ "nat _"])
  qed (rule dist)
  then have "map (\<lambda>p. ids ! nat p) (map tab_position after) = ids"
    by (simp add: comp_def map_nth)
  moreover have "map tab_id after = map (\<lambda>p. ids ! nat p) (map tab_position after)"
    using pos by simp
  moreover have "(\<lambda>t. (tab_id t, tab_name t)) ` set after = (\<lambda>t. (tab_id t, tab_name t)) ` set rows"
    by (auto simp: after image_image)
  ultimately show ?thesis by simp
qed

definition three_tabs :: "tab list" where
  "three_tabs = map (\<lambda>(i, p). \<lparr>tab_id = i, tab_name = i, tab_position = p\<rparr>) [(''a'', 0), (''b'', 1), (''c'', 2)]"

theorem tabs_reordered_witness:
  "map tab_id (sort_key tab_position (snd (tabs_reorder True [''c'', ''a'', ''b''] three_tabs))) = [''c'', ''a'', ''b'']"
  by (rule tabs_reordered [of _ three_tabs, THEN conjunct1])
    (auto simp: three_tabs_def tabs_list_def)

text \<open>A pasted schema belongs to one connection, topic and format: saving or clearing it changes
  no other, saving replaces what was there, and deleting a connection forgets all of its schemas and
  no other connection's.\<close>
theorem topic_schemas_isolated:
  assumes "format \<in> {''avro'', ''protobuf''}"
  shows "schema_get True d u g (snd (schema_set True c topic format s rows))
      = (if (d, u, g) = (c, topic, format) then Inr (Some s) else schema_get True d u g rows)
    \<and> schema_get True d u g (snd (schema_delete True c topic format rows))
      = (if (d, u, g) = (c, topic, format) then Inr None else schema_get True d u g rows)
    \<and> schema_get True d u g (snd (schema_delete_all True c rows))
      = (if d = c then Inr None else schema_get True d u g rows)"
proof -
  have filter: "map_of (filter (\<lambda>r. P (fst r)) rows) k = (if P k then map_of rows k else None)"
    for P :: "schema_key \<Rightarrow> bool" and k
    by (induction rows) auto
  show ?thesis
    using assms
    by (auto simp: schema_get_def schema_set_def schema_delete_def schema_delete_all_def upsert_lookup
        filter [of "\<lambda>k. k \<noteq> (c, topic, format)"] filter [of "\<lambda>k. fst k \<noteq> c"])
qed

theorem topic_schemas_isolated_witness:
  "schema_get True ''a'' ''t'' ''avro'' (snd (schema_set True ''a'' ''t'' ''protobuf'' ''message M {}''
     [((''a'', ''t'', ''avro''), ''int'')])) = Inr (Some ''int'')"
  using topic_schemas_isolated [of "''protobuf''" "''a''" "''t''" "''avro''" "''a''" "''t''" "''message M {}''"
      "[((''a'', ''t'', ''avro''), ''int'')]"]
  by (simp add: schema_get_def)

end
