(* ===== verification/Migration.thy ===== *)
theory Migration
  imports Salty_Prelude
begin

text \<open>
  \<^verbatim>\<open>backend/core/src/data_migration.rs\<close>: copying the database of the program's previous name.
  A directory is the list of its path components, a file a directory and a name. Which copies are
  made is read off the directories before the first one is written, none of which the copies
  change; then the actions are executed one by one. A crash, or an I/O error, ends the run after
  some of them, possibly in the middle of a copy, which then leaves anything at its destination.
\<close>

section \<open>Definitions\<close>

type_synonym dir = "string list"
type_synonym fpath = "dir \<times> string"

record fs =
  file_at :: "fpath \<rightharpoonup> byte list"
  dirs :: "dir set"

definition LEGACY_IDENTIFIER :: string where
  "LEGACY_IDENTIFIER = ''dev.kafkaoxide.app''"

definition LEGACY_DB_FILE :: string where
  "LEGACY_DB_FILE = ''kafkaoxide.sqlite''"

definition DB_FILE :: string where
  "DB_FILE = ''salty.sqlite''"

definition SIDECAR_SUFFIXES :: "string list" where
  "SIDECAR_SUFFIXES = [''-wal'', ''-shm'']"

definition with_suffix :: "fpath \<Rightarrow> string \<Rightarrow> fpath" where
  "with_suffix path suffix = (fst path, snd path @ suffix)"

definition legacy_dir_for :: "dir \<Rightarrow> dir option" where
  "legacy_dir_for data_dir =
     (if data_dir = [] then None
      else if last data_dir = LEGACY_IDENTIFIER then None
      else Some (butlast data_dir @ [LEGACY_IDENTIFIER]))"

datatype action = CreateDirAll dir | CopyFile fpath fpath | RenameFile fpath fpath

definition execute :: "action \<Rightarrow> fs \<Rightarrow> fs" where
  "execute a s =
     (case a of
        CreateDirAll d \<Rightarrow> s\<lparr>dirs := dirs s \<union> {take n d | n. n \<le> length d}\<rparr>
      | CopyFile src dst \<Rightarrow> s\<lparr>file_at := (file_at s)(dst := file_at s src)\<rparr>
      | RenameFile src dst \<Rightarrow> s\<lparr>file_at := (file_at s)(dst := file_at s src, src := None)\<rparr>)"

definition interrupt :: "action \<Rightarrow> byte list option \<Rightarrow> fs \<Rightarrow> fs" where
  "interrupt a junk s =
     (case a of CopyFile src dst \<Rightarrow> s\<lparr>file_at := (file_at s)(dst := junk)\<rparr> | _ \<Rightarrow> s)"

fun sidecar_copies :: "fs \<Rightarrow> fpath \<Rightarrow> fpath \<Rightarrow> string list \<Rightarrow> (fpath \<times> fpath) list" where
  "sidecar_copies s legacy_db db [] = []"
| "sidecar_copies s legacy_db db (suffix # suffixes) =
     (let src = with_suffix legacy_db suffix
      in if file_at s src \<noteq> None
         then (src, with_suffix db suffix) # sidecar_copies s legacy_db db suffixes
         else sidecar_copies s legacy_db db suffixes)"

text \<open>\<open>None\<close>: nothing to do. Otherwise the actions, the directory they copy from and the names of the
  files written.\<close>

definition adoption :: "fs \<Rightarrow> dir \<Rightarrow> (action list \<times> dir \<times> string list) option" where
  "adoption s data_dir =
     (if file_at s (data_dir, DB_FILE) \<noteq> None then None
      else case legacy_dir_for data_dir of
        None \<Rightarrow> None
      | Some legacy_dir \<Rightarrow>
          let legacy_db = (legacy_dir, LEGACY_DB_FILE) in
          if file_at s legacy_db = None then None
          else
            let sidecars = sidecar_copies s legacy_db (data_dir, DB_FILE) SIDECAR_SUFFIXES;
                destination = (data_dir, DB_FILE);
                partial = (data_dir, DB_FILE @ ''.partial'')
            in Some (CreateDirAll data_dir # map (\<lambda>(src, dst). CopyFile src dst) sidecars
                       @ [CopyFile legacy_db partial, RenameFile partial destination],
                     legacy_dir,
                     map (\<lambda>(src, dst). snd dst) sidecars @ [DB_FILE]))"

definition adopt_legacy_app_data :: "fs \<Rightarrow> dir \<Rightarrow> (dir \<times> string list) option \<times> fs" where
  "adopt_legacy_app_data s data_dir =
     (case adoption s data_dir of
        None \<Rightarrow> (None, s)
      | Some (actions, legacy_dir, files) \<Rightarrow> (Some (legacy_dir, files), fold execute actions s))"

text \<open>The run cut off after \<open>k\<close> actions, in the middle of the next one.\<close>

definition crashed :: "nat \<Rightarrow> byte list option \<Rightarrow> fs \<Rightarrow> dir \<Rightarrow> fs" where
  "crashed k junk s data_dir =
     (case adoption s data_dir of
        None \<Rightarrow> s
      | Some (actions, legacy_dir, files) \<Rightarrow>
          let s' = fold execute (take k actions) s
          in if k < length actions then interrupt (actions ! k) junk s' else s')"

section \<open>Lemmas\<close>

definition legacy_file :: "dir \<Rightarrow> string \<Rightarrow> fpath" where
  "legacy_file legacy_dir suffix = (legacy_dir, LEGACY_DB_FILE @ suffix)"

definition new_file :: "dir \<Rightarrow> string \<Rightarrow> fpath" where
  "new_file data_dir suffix = (data_dir, DB_FILE @ suffix)"

lemma legacy_dir_differs: "legacy_dir_for d = Some l \<Longrightarrow> l \<noteq> d"
  by (auto simp: legacy_dir_for_def split: if_splits dest: arg_cong [of _ _ last])

text \<open>The actions of an adoption, written out for the two sidecars.\<close>

lemma adoption_actions:
  assumes "adoption s d = Some (actions, l, files)"
  shows "file_at s (d, DB_FILE) = None" and "legacy_dir_for d = Some l"
    and "file_at s (l, LEGACY_DB_FILE) \<noteq> None"
    and "actions = [CreateDirAll d]
      @ (if file_at s (legacy_file l ''-wal'') \<noteq> None then [CopyFile (legacy_file l ''-wal'') (new_file d ''-wal'')] else [])
      @ (if file_at s (legacy_file l ''-shm'') \<noteq> None then [CopyFile (legacy_file l ''-shm'') (new_file d ''-shm'')] else [])
      @ [CopyFile (l, LEGACY_DB_FILE) (new_file d ''.partial''), RenameFile (new_file d ''.partial'') (d, DB_FILE)]"
  using assms
  by (auto simp: adoption_def Let_def SIDECAR_SUFFIXES_def with_suffix_def legacy_file_def new_file_def
      split: if_splits option.splits)

lemma new_file_neq [simp]:
  "new_file d ''-wal'' \<noteq> new_file d ''-shm''" "new_file d ''-shm'' \<noteq> new_file d ''-wal''"
  "new_file d ''.partial'' \<noteq> new_file d ''-wal''" "new_file d ''-wal'' \<noteq> new_file d ''.partial''"
  "new_file d ''.partial'' \<noteq> new_file d ''-shm''" "new_file d ''-shm'' \<noteq> new_file d ''.partial''"
  "(d, DB_FILE) \<noteq> new_file d ''.partial''" "new_file d ''.partial'' \<noteq> (d, DB_FILE)"
  "(d, DB_FILE) \<noteq> new_file d ''-wal''" "new_file d ''-wal'' \<noteq> (d, DB_FILE)"
  "(d, DB_FILE) \<noteq> new_file d ''-shm''" "new_file d ''-shm'' \<noteq> (d, DB_FILE)"
  by (auto simp: new_file_def)

lemma fst_files [simp]: "fst (new_file d x) = d" "fst (legacy_file l x) = l"
  by (simp_all add: new_file_def legacy_file_def)

lemma legacy_neq_new: "l \<noteq> d \<Longrightarrow> legacy_file l x \<noteq> new_file d y" "l \<noteq> d \<Longrightarrow> legacy_file l x \<noteq> (d, z)"
  "l \<noteq> d \<Longrightarrow> (l, z) \<noteq> new_file d y"
  by (auto simp: new_file_def legacy_file_def)

text \<open>What a cut-off run leaves: nothing outside the new directory changes, and the database is there
  only when everything it needs is.\<close>

definition adopted_ok :: "fs \<Rightarrow> dir \<Rightarrow> dir \<Rightarrow> fs \<Rightarrow> bool" where
  "adopted_ok s l d t \<longleftrightarrow>
     file_at t (d, DB_FILE) = file_at s (l, LEGACY_DB_FILE)
     \<and> (\<forall>x\<in>{''-wal'', ''-shm''}. file_at s (legacy_file l x) \<noteq> None
           \<longrightarrow> file_at t (new_file d x) = file_at s (legacy_file l x))"

fun writes :: "action \<Rightarrow> fpath set" where
  "writes (CreateDirAll d) = {}"
| "writes (CopyFile src dst) = {dst}"
| "writes (RenameFile src dst) = {src, dst}"

lemma execute_unwritten: "f \<notin> writes a \<Longrightarrow> file_at (execute a s) f = file_at s f"
  by (cases a) (auto simp: execute_def)

lemma interrupt_unwritten: "f \<notin> writes a \<Longrightarrow> file_at (interrupt a junk s) f = file_at s f"
  by (cases a) (auto simp: interrupt_def)

lemma fold_execute_unwritten:
  "(\<And>a. a \<in> set acts \<Longrightarrow> f \<notin> writes a) \<Longrightarrow> file_at (fold execute acts s) f = file_at s f"
  by (induction acts arbitrary: s) (simp_all add: execute_unwritten)

lemma adoption_writes:
  assumes "adoption s d = Some (actions, l, files)"
  shows "\<forall>a\<in>set actions. \<forall>f\<in>writes a. fst f = d"
    and "a \<in> set (butlast actions) \<Longrightarrow> (d, DB_FILE) \<notin> writes a"
    and "last actions = RenameFile (new_file d ''.partial'') (d, DB_FILE)" and "actions \<noteq> []"
  using adoption_actions(4) [OF assms] by (auto simp: butlast_append split: if_splits)

lemma adopted_ok_adopt:
  assumes "adoption s d = Some (actions, l, files)"
  shows "adopted_ok s l d (fold execute actions s)"
proof -
  note acts = adoption_actions [OF assms]
  have ld: "l \<noteq> d" using acts(2) by (rule legacy_dir_differs)
  note neq = legacy_neq_new [OF ld]
  show ?thesis
    by (cases "file_at s (legacy_file l ''-wal'')"; cases "file_at s (legacy_file l ''-shm'')")
      (auto simp: acts(4) execute_def adopted_ok_def neq)
qed

lemma crashed_eq:
  assumes "adoption s d = Some (actions, l, files)"
  shows "crashed k junk s d =
    (if k < length actions then interrupt (actions ! k) junk (fold execute (take k actions) s) else fold execute actions s)"
  by (simp add: crashed_def assms Let_def)

lemma crashed_outside:
  assumes "adoption s d = Some (actions, l, files)" and f: "fst f \<noteq> d"
  shows "file_at (crashed k junk s d) f = file_at s f"
proof -
  have w: "f \<notin> writes a" if "a \<in> set actions" for a
    using adoption_writes(1) [OF assms(1)] that f by blast
  have run: "file_at (fold execute acts s) f = file_at s f" if "set acts \<subseteq> set actions" for acts
    using w that by (intro fold_execute_unwritten) blast
  show ?thesis
  proof (cases "k < length actions")
    case True
    then show ?thesis
      using run [OF set_take_subset] w [OF nth_mem] by (simp add: crashed_eq [OF assms(1)] interrupt_unwritten)
  qed (simp add: crashed_eq [OF assms(1)] run)
qed

lemma crashed_none:
  assumes "adoption s d = Some (actions, l, files)" and k: "k < length actions"
  shows "file_at (crashed k junk s d) (d, DB_FILE) = None"
proof -
  note w = adoption_writes [OF assms(1)]
  from k have "set (take k actions) \<subseteq> set (butlast actions)"
    by (simp add: butlast_conv_take set_take_subset_set_take)
  then have "file_at (fold execute (take k actions) s) (d, DB_FILE) = file_at s (d, DB_FILE)"
    using w(2) by (intro fold_execute_unwritten) blast
  then have none: "file_at (fold execute (take k actions) s) (d, DB_FILE) = None"
    using adoption_actions(1) [OF assms(1)] by simp
  have "file_at (interrupt (actions ! k) junk (fold execute (take k actions) s)) (d, DB_FILE) = None"
  proof (cases "k = length actions - 1")
    case True
    then have "actions ! k = RenameFile (new_file d ''.partial'') (d, DB_FILE)"
      using w(3,4) by (simp add: last_conv_nth)
    then show ?thesis using none by (simp add: interrupt_def)
  next
    case False
    then have "actions ! k \<in> set (butlast actions)"
      using k by (auto simp: in_set_conv_nth nth_butlast intro!: exI [of _ k])
    then show ?thesis using w(2) none by (simp add: interrupt_unwritten)
  qed
  then show ?thesis using k by (simp add: crashed_eq [OF assms(1)])
qed

lemma crashed_db:
  assumes "adoption s d = Some (actions, l, files)"
  shows "file_at (crashed k junk s d) (d, DB_FILE) = None \<or> adopted_ok s l d (crashed k junk s d)"
  using crashed_none [OF assms, of k junk] adopted_ok_adopt [OF assms] by (cases "k < length actions") (simp_all add: crashed_eq [OF assms])

section \<open>Properties\<close>

text \<open>C25: The migration is safe against being cut off anywhere, even in the middle of a copy: the old
  directory and everything else outside the new one is untouched, and the new database is either
  absent, so the next start tries again, or complete, with every sidecar of the old one beside it.\<close>
theorem migration_crash_safe:
  assumes "adoption s d = Some (actions, l, files)"
  shows "(\<forall>f. fst f = d \<or> file_at (crashed k junk s d) f = file_at s f)
    \<and> (file_at (crashed k junk s d) (d, DB_FILE) = None
      \<or> file_at (crashed k junk s d) (d, DB_FILE) = file_at s (l, LEGACY_DB_FILE)
        \<and> (\<forall>x\<in>{''-wal'', ''-shm''}. file_at s (legacy_file l x) = None
             \<or> file_at (crashed k junk s d) (new_file d x) = file_at s (legacy_file l x)))"
  using crashed_outside [OF assms] crashed_db [OF assms, of k junk] unfolding adopted_ok_def by blast

definition old_install :: fs where
  "old_install = \<lparr>file_at = [([''d'', LEGACY_IDENTIFIER], LEGACY_DB_FILE) \<mapsto> [1],
      ([''d'', LEGACY_IDENTIFIER], LEGACY_DB_FILE @ ''-wal'') \<mapsto> [2]], dirs = {}\<rparr>"

lemma old_install_adoption:
  "\<exists>actions files. adoption old_install [''d'', ''salty''] = Some (actions, [''d'', LEGACY_IDENTIFIER], files)"
  by (simp add: adoption_def old_install_def legacy_dir_for_def LEGACY_IDENTIFIER_def LEGACY_DB_FILE_def DB_FILE_def Let_def)

theorem migration_crash_safe_witness:
  "file_at (crashed 2 (Some [9]) old_install [''d'', ''salty'']) ([''d'', LEGACY_IDENTIFIER], LEGACY_DB_FILE)
    = Some [1]"
proof -
  obtain actions files where a:
    "adoption old_install [''d'', ''salty''] = Some (actions, [''d'', LEGACY_IDENTIFIER], files)"
    using old_install_adoption by blast
  have "file_at (crashed 2 (Some [9]) old_install [''d'', ''salty'']) ([''d'', LEGACY_IDENTIFIER], LEGACY_DB_FILE)
      = file_at old_install ([''d'', LEGACY_IDENTIFIER], LEGACY_DB_FILE)"
    using spec [OF migration_crash_safe [OF a, of 2 "Some [9]", THEN conjunct1],
        of "([''d'', LEGACY_IDENTIFIER], LEGACY_DB_FILE)"]
    by (simp add: LEGACY_IDENTIFIER_def)
  then show ?thesis by (simp add: old_install_def LEGACY_DB_FILE_def)
qed

text \<open>The migration runs once: after it finishes, a further start finds nothing to do, and a start
  after a cut-off run that left no database copies the whole of the old one.\<close>
theorem migration_retries_until_done:
  assumes "adoption s d = Some (actions, l, files)"
  shows "adopt_legacy_app_data (snd (adopt_legacy_app_data s d)) d = (None, snd (adopt_legacy_app_data s d))
    \<and> (file_at (crashed k junk s d) (d, DB_FILE) = None \<longrightarrow>
        (\<exists>t files'. adopt_legacy_app_data (crashed k junk s d) d = (Some (l, files'), t)
          \<and> file_at t (d, DB_FILE) = file_at s (l, LEGACY_DB_FILE)
          \<and> (\<forall>x\<in>{''-wal'', ''-shm''}. file_at s (legacy_file l x) = None
               \<or> file_at t (new_file d x) = file_at s (legacy_file l x))))"
proof (intro conjI impI)
  note acts = adoption_actions [OF assms]
  have "file_at (snd (adopt_legacy_app_data s d)) (d, DB_FILE) \<noteq> None"
    using adopted_ok_adopt [OF assms] acts(3) by (simp add: adopt_legacy_app_data_def assms adopted_ok_def)
  then show "adopt_legacy_app_data (snd (adopt_legacy_app_data s d)) d = (None, snd (adopt_legacy_app_data s d))"
    by (simp add: adopt_legacy_app_data_def [of "snd _"] adoption_def)
  assume none: "file_at (crashed k junk s d) (d, DB_FILE) = None"
  let ?c = "crashed k junk s d"
  have ld: "l \<noteq> d" using acts(2) by (rule legacy_dir_differs)
  have old: "file_at ?c (l, x) = file_at s (l, x)" for x using crashed_outside [OF assms] ld by simp
  have "\<exists>actions' files'. adoption ?c d = Some (actions', l, files')"
    using none acts(2,3) old by (simp add: adoption_def Let_def)
  then obtain actions' files' where again: "adoption ?c d = Some (actions', l, files')" by blast
  have "adopted_ok ?c l d (fold execute actions' ?c)" by (rule adopted_ok_adopt [OF again])
  then show "\<exists>t files'. adopt_legacy_app_data ?c d = (Some (l, files'), t)
      \<and> file_at t (d, DB_FILE) = file_at s (l, LEGACY_DB_FILE)
      \<and> (\<forall>x\<in>{''-wal'', ''-shm''}. file_at s (legacy_file l x) = None
           \<or> file_at t (new_file d x) = file_at s (legacy_file l x))"
    using again old by (auto simp: adopt_legacy_app_data_def adopted_ok_def legacy_file_def)
qed

theorem migration_retries_until_done_witness:
  "fst (adopt_legacy_app_data (snd (adopt_legacy_app_data old_install [''d'', ''salty''])) [''d'', ''salty'']) = None"
proof -
  obtain actions files where a:
    "adoption old_install [''d'', ''salty''] = Some (actions, [''d'', LEGACY_IDENTIFIER], files)"
    using old_install_adoption by blast
  from migration_retries_until_done [OF a, of 0 None] show ?thesis by simp
qed

text \<open>The old version, run again, folds its write-ahead log into its database and removes it.\<close>

definition checkpointed :: "dir \<Rightarrow> byte list \<Rightarrow> fs \<Rightarrow> fs" where
  "checkpointed l db s = s\<lparr>file_at := (file_at s)((l, LEGACY_DB_FILE) := Some db,
     legacy_file l ''-wal'' := None, legacy_file l ''-shm'' := None)\<rparr>"

text \<open>C38: The sidecars of a cut-off run are never removed. When the run stopped after copying the
  write-ahead log, the old version then ran once more and left no log behind, and the migration is
  tried again, the newer database ends up beside the log of the older one, which the database
  engine replays over it.\<close>
theorem stale_wal_after_retry:
  assumes "adoption s d = Some (actions, l, files)" and "file_at s (legacy_file l ''-wal'') = Some wal"
  shows "\<exists>files' t. adopt_legacy_app_data (checkpointed l db (crashed 2 None s d)) d = (Some (l, files'), t)
    \<and> file_at t (d, DB_FILE) = Some db \<and> file_at t (legacy_file l ''-wal'') = None
    \<and> file_at t (new_file d ''-wal'') = Some wal"
proof -
  note acts = adoption_actions [OF assms(1)]
  have ld: "l \<noteq> d" using acts(2) by (rule legacy_dir_differs)
  note neq = legacy_neq_new [OF ld] legacy_neq_new [OF ld, THEN not_sym]
  let ?c = "checkpointed l db (crashed 2 None s d)"
  have lwal: "legacy_file l x = (l, LEGACY_DB_FILE @ x)" for x by (simp add: legacy_file_def)
  have len: "2 < length actions" and two: "take 2 actions = [CreateDirAll d, CopyFile (legacy_file l ''-wal'') (new_file d ''-wal'')]"
    and third: "\<exists>src x. actions ! 2 = CopyFile src (new_file d x) \<and> x \<in> {''-shm'', ''.partial''}"
    using acts(4) assms(2) by auto
  obtain src x where x: "actions ! 2 = CopyFile src (new_file d x)" "x \<in> {''-shm'', ''.partial''}"
    using third by blast
  have crash: "file_at (crashed 2 None s d) (new_file d ''-wal'') = Some wal"
    "file_at (crashed 2 None s d) (d, DB_FILE) = None"
    using x len two assms(2) acts(1) by (auto simp: crashed_eq [OF assms(1)] interrupt_def execute_def)
  have c: "file_at ?c (new_file d ''-wal'') = Some wal" "file_at ?c (d, DB_FILE) = None"
    "file_at ?c (l, LEGACY_DB_FILE) = Some db" "file_at ?c (legacy_file l ''-wal'') = None"
    "file_at ?c (legacy_file l ''-shm'') = None"
    using crash neq ld by (auto simp: checkpointed_def lwal)
  then have "\<exists>acts' files'. adoption ?c d = Some (acts', l, files')"
    using acts(2) by (simp add: adoption_def Let_def)
  then obtain acts' files' where again: "adoption ?c d = Some (acts', l, files')" by blast
  show ?thesis
    using adoption_actions(4) [OF again] c neq
    by (auto simp: adopt_legacy_app_data_def again execute_def)
qed

theorem stale_wal_after_retry_witness:
  "\<exists>files' t. adopt_legacy_app_data (checkpointed [''d'', LEGACY_IDENTIFIER] [3]
      (crashed 2 None old_install [''d'', ''salty''])) [''d'', ''salty''] = (Some ([''d'', LEGACY_IDENTIFIER], files'), t)
    \<and> file_at t ([''d'', ''salty''], DB_FILE) = Some [3] \<and> file_at t (new_file [''d'', ''salty''] ''-wal'') = Some [2]"
proof -
  obtain actions files where a:
    "adoption old_install [''d'', ''salty''] = Some (actions, [''d'', LEGACY_IDENTIFIER], files)"
    using old_install_adoption by blast
  have "file_at old_install (legacy_file [''d'', LEGACY_IDENTIFIER] ''-wal'') = Some [2]"
    by (simp add: old_install_def legacy_file_def)
  from stale_wal_after_retry [OF a this, of "[3]"] show ?thesis by blast
qed

end
