(* ===== verification/Fetch_Plan.thy ===== *)
theory Fetch_Plan
  imports Fetch_Math App_Error
begin

text \<open>
  What a message fetch decides before it polls (\<^verbatim>\<open>backend/kafka/src/client.rs\<close>, with the
  filter and message types of \<^verbatim>\<open>backend/core/src/message.rs\<close>): the watermarks of the target
  partitions, the offsets the filter starts and ends at, how many messages match, and how many to
  read from where. The broker is the parameter record \<open>broker\<close>: what a watermark query
  answers, which offsets a partition list accepts, and what \<^verbatim>\<open>offsets_for_times\<close> resolves.
  A panic inside the blocking task is what the task's caller reports it as, \<open>task_panicked\<close>.
\<close>

section \<open>The data\<close>

record message_filter =
  f_partitions :: "int list option"
  f_max_messages_per_partition :: "u32 option"
  f_max_total_messages :: "u32 option"
  f_from_timestamp_ms :: "int option"
  f_to_timestamp_ms :: "int option"
  f_offset :: "int option"
  f_include_payload :: bool
  f_max_payload_preview_bytes :: "u32 option"

definition default_filter :: message_filter where
  "default_filter =
     \<lparr>f_partitions = None, f_max_messages_per_partition = None, f_max_total_messages = None,
      f_from_timestamp_ms = None, f_to_timestamp_ms = None, f_offset = None,
      f_include_payload = False, f_max_payload_preview_bytes = None\<rparr>"

record broker =
  query_watermarks :: "string \<Rightarrow> int \<Rightarrow> string + int \<times> int"
  accepts_offset :: "int \<Rightarrow> bool"
  offsets_for_times :: "string \<Rightarrow> int list \<Rightarrow> int \<Rightarrow> (int \<times> int option) list option"

definition task_panicked :: report where
  "task_panicked = fail_with Kafka ''fetch_messages task panicked''"

text \<open>The topic of a metadata response.\<close>

definition find_topic :: "string \<Rightarrow> (string \<times> 'p) list \<Rightarrow> report + 'p" where
  "find_topic topic topics =
     (case find (\<lambda>(name, ps). name = topic) topics of
        Some (name, ps) \<Rightarrow> Inr ps
      | None \<Rightarrow> Inl (fail_with NotFound (''topic '' @ topic @ '' not found'')))"

section \<open>Watermarks\<close>

definition WATERMARK_LOOKUP_CONCURRENCY :: nat where
  "WATERMARK_LOOKUP_CONCURRENCY = 16"

fun lookup_chunk ::
    "(int \<Rightarrow> string + int \<times> int) \<Rightarrow> int list \<Rightarrow> (int \<times> string) + (int \<times> int \<times> int) list" where
  "lookup_chunk query [] = Inr []"
| "lookup_chunk query (p # ps) =
     (case query p of
        Inl why \<Rightarrow> Inl (p, why)
      | Inr marks \<Rightarrow>
          (case lookup_chunk query ps of
             Inl e \<Rightarrow> Inl e
           | Inr found \<Rightarrow> Inr ((p, marks) # found)))"

fun join_chunks ::
    "string \<Rightarrow> ((int \<times> string) + (int \<times> int \<times> int) list) list \<Rightarrow> (int \<times> int \<times> int) list
      \<Rightarrow> report + (int \<times> int \<times> int) list" where
  "join_chunks topic [] watermarks = Inr watermarks"
| "join_chunks topic (Inr found # handles) watermarks =
     join_chunks topic handles (fold (\<lambda>(p, marks) m. bt_insert p marks m) found watermarks)"
| "join_chunks topic (Inl (p, why) # handles) watermarks =
     Inl (fail_with Kafka (''failed to fetch watermarks for '' @ topic @ '':'' @ show_int p @ '': '' @ why))"

definition watermarks_for_partitions ::
    "broker \<Rightarrow> string \<Rightarrow> int list \<Rightarrow> report + (int \<times> int \<times> int) list" where
  "watermarks_for_partitions b topic partitions =
     (if partitions = [] then Inr []
      else
        let per_thread = max ((length partitions + WATERMARK_LOOKUP_CONCURRENCY - 1)
              div WATERMARK_LOOKUP_CONCURRENCY) 1
        in join_chunks topic (map (lookup_chunk (query_watermarks b topic)) (chunks per_thread partitions)) [])"

text \<open>\<^verbatim>\<open>count_topic_messages\<close> sums the widths; an \<^verbatim>\<open>i64\<close> difference wraps, the \<^verbatim>\<open>u64\<close> sum too.\<close>

definition count_messages :: "(int \<times> int \<times> int) list \<Rightarrow> int" where
  "count_messages watermarks = (\<Sum>(p, low, high)\<leftarrow>watermarks. max (i64 (high - low)) 0) mod 2 ^ 64"

section \<open>Offsets\<close>

text \<open>\<^verbatim>\<open>collect::<Result<BTreeMap<_, _>, _>>()\<close> over the partitions.\<close>

fun try_each :: "('a \<Rightarrow> report + 'b) \<Rightarrow> 'a list \<Rightarrow> report + ('a \<times> 'b) list" where
  "try_each f [] = Inr []"
| "try_each f (x # xs) =
     (case f x of
        Inl e \<Rightarrow> Inl e
      | Inr y \<Rightarrow> (case try_each f xs of Inl e \<Rightarrow> Inl e | Inr ys \<Rightarrow> Inr ((x, y) # ys)))"

definition collect_map :: "(int \<Rightarrow> report + 'b) \<Rightarrow> int list \<Rightarrow> report + (int \<times> 'b) list" where
  "collect_map f ps = and_then (try_each f ps) (\<lambda>found. Inr (bt_of_list found))"

definition watermarks_of :: "string \<Rightarrow> (int \<times> int \<times> int) list \<Rightarrow> int \<Rightarrow> report + int \<times> int" where
  "watermarks_of topic watermarks_by_partition p =
     (case bt_get watermarks_by_partition p of
        Some marks \<Rightarrow> Inr marks
      | None \<Rightarrow> Inl (fail_with NotFound (''no such partition: '' @ topic @ '':'' @ show_int p)))"

definition resolve_offsets_by_timestamp ::
    "broker \<Rightarrow> string \<Rightarrow> int list \<Rightarrow> int \<Rightarrow> (int \<Rightarrow> report + int) \<Rightarrow> report + (int \<times> int) list" where
  "resolve_offsets_by_timestamp b topic partitions timestamp_ms fallback =
     (if partitions \<noteq> [] \<and> \<not> accepts_offset b timestamp_ms
      then Inl (fail_with Kafka ''failed to build offsets_for_times request'')
      else case offsets_for_times b topic partitions timestamp_ms of
        None \<Rightarrow> Inl (fail_with Kafka ''failed to resolve timestamp to offsets'')
      | Some resolved \<Rightarrow>
          collect_map (\<lambda>p.
            case Option.bind (map_of resolved p) id of
              Some raw \<Rightarrow> if 0 \<le> raw then Inr raw else fallback p
            | None \<Rightarrow> fallback p) partitions)"

definition explicit_start_offsets ::
    "string \<Rightarrow> (int \<times> int \<times> int) list \<Rightarrow> int list \<Rightarrow> int \<Rightarrow> report + (int \<times> int) list" where
  "explicit_start_offsets topic marks partitions offset =
     collect_map (\<lambda>p. and_then (watermarks_of topic marks p) (\<lambda>(low, high).
        case clamp_offset offset low high of
          Some start \<Rightarrow> Inr start
        | None \<Rightarrow> Inl task_panicked)) partitions"

text \<open>\<^verbatim>\<open>Option::map(..).transpose()?\<close>\<close>

definition if_given :: "'a option \<Rightarrow> ('a \<Rightarrow> report + 'b) \<Rightarrow> report + 'b option" where
  "if_given x f = (case x of None \<Rightarrow> Inr None | Some a \<Rightarrow> and_then (f a) (\<lambda>b. Inr (Some b)))"

definition filter_start_offsets ::
    "string \<Rightarrow> (int \<times> int \<times> int) list \<Rightarrow> int list \<Rightarrow> (int \<times> int) list option \<Rightarrow> (int \<times> int) list option
      \<Rightarrow> report + (int \<times> int) list" where
  "filter_start_offsets topic marks partitions explicit from_ts =
     (if explicit \<noteq> None \<or> from_ts \<noteq> None
      then collect_map (\<lambda>p.
        case combined_start_offset (Option.bind explicit (\<lambda>m. bt_get m p)) (Option.bind from_ts (\<lambda>m. bt_get m p)) of
          Some start \<Rightarrow> Inr start
        | None \<Rightarrow> Inl task_panicked) partitions
      else collect_map (\<lambda>p. and_then (watermarks_of topic marks p) (\<lambda>(low, high). Inr low)) partitions)"

definition end_offsets_for ::
    "broker \<Rightarrow> string \<Rightarrow> (int \<times> int \<times> int) list \<Rightarrow> int list \<Rightarrow> int option \<Rightarrow> report + (int \<times> int) list" where
  "end_offsets_for b topic marks partitions to_timestamp_ms =
     (let high_of = (\<lambda>p. and_then (watermarks_of topic marks p) (\<lambda>(low, high). Inr high)) in
      case to_timestamp_ms of
        Some to_ms \<Rightarrow> resolve_offsets_by_timestamp b topic partitions to_ms high_of
      | None \<Rightarrow> collect_map high_of partitions)"

definition newest_first_starts ::
    "string \<Rightarrow> (int \<times> int \<times> int) list \<Rightarrow> int list \<Rightarrow> (int \<times> int) list \<Rightarrow> (int \<times> int) list \<Rightarrow> report + (int \<times> int) list" where
  "newest_first_starts topic marks partitions ends limits =
     collect_map (\<lambda>p. and_then (watermarks_of topic marks p) (\<lambda>(low, high).
        let e = (case bt_get ends p of Some e \<Rightarrow> e | None \<Rightarrow> high);
            taken = (case bt_get limits p of Some l \<Rightarrow> l | None \<Rightarrow> 0)
        in Inr (newest_first_start_offset low e taken))) partitions"

record fetch_plan =
  plan_total_matching :: int
  plan_starts :: "(int \<times> int) list"
  plan_ends :: "(int \<times> int) list"
  plan_limits :: "(int \<times> int) list"

definition plan_fetch ::
    "broker \<Rightarrow> string \<Rightarrow> message_filter \<Rightarrow> int list \<Rightarrow> (int \<times> int \<times> int) list \<Rightarrow> report + fetch_plan" where
  "plan_fetch b topic flt partitions marks =
     (let high_of = (\<lambda>p. and_then (watermarks_of topic marks p) (\<lambda>(low, high). Inr high)) in
      and_then (if_given (f_offset flt) (explicit_start_offsets topic marks partitions)) (\<lambda>explicit.
      and_then (if_given (f_from_timestamp_ms flt)
                 (\<lambda>from_ms. resolve_offsets_by_timestamp b topic partitions from_ms high_of)) (\<lambda>from_ts.
      and_then (filter_start_offsets topic marks partitions explicit from_ts) (\<lambda>starts.
      and_then (end_offsets_for b topic marks partitions (f_to_timestamp_ms flt)) (\<lambda>ends.
        let total_matching = (\<Sum>(p, available)\<leftarrow>partition_limits starts ends None. max available 0) mod 2 ^ 64;
            windows = partition_limits starts ends
              (Some (effective_max_messages_per_partition (f_max_messages_per_partition flt)))
        in case distribute_total_budget windows (f_max_total_messages flt) of
             None \<Rightarrow> Inl task_panicked
           | Some limits \<Rightarrow>
               and_then (if explicit \<noteq> None \<or> from_ts \<noteq> None then Inr starts
                         else newest_first_starts topic marks partitions ends limits) (\<lambda>start_offsets.
               Inr \<lparr>plan_total_matching = total_matching, plan_starts = start_offsets,
                     plan_ends = ends, plan_limits = limits\<rparr>))))))"

definition working_partitions :: "fetch_plan \<Rightarrow> int list" where
  "working_partitions plan = map fst (filter (\<lambda>(p, limit). 0 < limit) (plan_limits plan))"

section \<open>Lemmas\<close>

text \<open>Querying one after the other.\<close>

fun watermarks_in_order :: "broker \<Rightarrow> string \<Rightarrow> int list \<Rightarrow> (int \<times> int \<times> int) list \<Rightarrow> report + (int \<times> int \<times> int) list" where
  "watermarks_in_order b topic [] found = Inr found"
| "watermarks_in_order b topic (p # ps) found =
     (case query_watermarks b topic p of
        Inl why \<Rightarrow> Inl (fail_with Kafka (''failed to fetch watermarks for '' @ topic @ '':'' @ show_int p @ '': '' @ why))
      | Inr marks \<Rightarrow> watermarks_in_order b topic ps (bt_insert p marks found))"

lemma lookup_chunk_in_order:
  "watermarks_in_order b topic (ps @ qs) found =
     (case lookup_chunk (query_watermarks b topic) ps of
        Inl (p, why) \<Rightarrow> Inl (fail_with Kafka (''failed to fetch watermarks for '' @ topic @ '':'' @ show_int p @ '': '' @ why))
      | Inr new \<Rightarrow> watermarks_in_order b topic qs (fold (\<lambda>(p, marks) m. bt_insert p marks m) new found))"
  by (induction ps arbitrary: found) (auto split: sum.splits)

lemma join_chunks_in_order:
  "join_chunks topic (map (lookup_chunk (query_watermarks b topic)) pss) found
     = watermarks_in_order b topic (concat pss) found"
proof (induction pss arbitrary: found)
  case (Cons ps pss)
  then show ?case by (cases "lookup_chunk (query_watermarks b topic) ps") (auto simp: lookup_chunk_in_order)
qed simp

lemma watermarks_for_partitions_in_order:
  "watermarks_for_partitions b topic ps = watermarks_in_order b topic ps []"
  by (simp add: watermarks_for_partitions_def Let_def join_chunks_in_order)

lemma watermarks_in_order_ok:
  "watermarks_in_order b topic ps found = Inr marks \<Longrightarrow> bt_ok found \<Longrightarrow>
    (\<forall>p m. bt_get found p = Some m \<longrightarrow> query_watermarks b topic p = Inr m) \<Longrightarrow>
    bt_ok marks \<and> fst ` set marks = fst ` set found \<union> set ps
    \<and> (\<forall>p m. bt_get marks p = Some m \<longrightarrow> query_watermarks b topic p = Inr m)"
proof (induction ps arbitrary: found)
  case (Cons p ps)
  obtain m where m: "query_watermarks b topic p = Inr m"
    using Cons.prems(1) by (cases "query_watermarks b topic p") auto
  have "watermarks_in_order b topic ps (bt_insert p m found) = Inr marks" using Cons.prems(1) m by simp
  moreover have "bt_ok (bt_insert p m found)" using Cons.prems(2) by simp
  moreover have "\<forall>q k. bt_get (bt_insert p m found) q = Some k \<longrightarrow> query_watermarks b topic q = Inr k"
    using Cons.prems(3) m by (simp add: fun_upd_apply)
  ultimately have "bt_ok marks \<and> fst ` set marks = fst ` set (bt_insert p m found) \<union> set ps
      \<and> (\<forall>p m. bt_get marks p = Some m \<longrightarrow> query_watermarks b topic p = Inr m)"
    by (rule Cons.IH)
  then show ?case unfolding set_keys_bt_insert by simp
qed simp

lemma watermarks_found:
  assumes "watermarks_for_partitions b topic ps = Inr marks"
  shows "bt_ok marks" and "fst ` set marks = set ps"
    and "\<forall>p m. bt_get marks p = Some m \<longrightarrow> query_watermarks b topic p = Inr m"
  using watermarks_in_order_ok [OF assms [unfolded watermarks_for_partitions_in_order]] by simp_all

lemma watermarks_found_at:
  assumes "watermarks_for_partitions b topic ps = Inr marks" and "p \<in> set ps"
  obtains m where "bt_get marks p = Some m" and "query_watermarks b topic p = Inr m"
proof -
  note w = watermarks_found [OF assms(1)]
  have "bt_get marks p \<noteq> None" using w(2) assms(2) by (simp add: map_of_eq_None_iff)
  then show ?thesis using w(3) that by blast
qed

lemma try_each_Inr:
  "try_each f xs = Inr ys \<Longrightarrow> map fst ys = xs \<and> (\<forall>(x, y)\<in>set ys. f x = Inr y)"
  by (induction xs arbitrary: ys) (auto split: sum.splits)

lemma try_each_Inl: "try_each f xs = Inl e \<Longrightarrow> \<exists>x\<in>set xs. f x = Inl e"
  by (induction xs) (auto split: sum.splits)

lemma collect_map_Inr:
  assumes "collect_map f ps = Inr m"
  shows "bt_ok m" and "fst ` set m = set ps" and "p \<in> set ps \<Longrightarrow> \<exists>y. f p = Inr y \<and> bt_get m p = Some y"
proof -
  obtain found where found: "try_each f ps = Inr found" "m = bt_of_list found"
    using assms by (auto simp: collect_map_def)
  note t = try_each_Inr [OF found(1)]
  show "bt_ok m" by (simp add: found(2))
  have get: "bt_get m = map_of (rev found)" by (simp add: found(2) map_of_bt_of_list)
  have dom: "dom (bt_get m) = set ps"
    unfolding get using t by (metis dom_map_of_conv_image_fst list.set_map set_rev)
  then show "fst ` set m = set ps" by (simp add: dom_map_of_conv_image_fst)
  show "\<exists>y. f p = Inr y \<and> bt_get m p = Some y" if p: "p \<in> set ps"
  proof -
    obtain y where y: "bt_get m p = Some y" using p dom by auto
    then have "(p, y) \<in> set (rev found)" unfolding get by (rule map_of_SomeD)
    then show ?thesis using t y by auto
  qed
qed

lemma collect_map_Inl: "collect_map f ps = Inl e \<Longrightarrow> \<exists>p\<in>set ps. f p = Inl e"
  by (auto simp: collect_map_def and_then_Inl_iff dest: try_each_Inl)

text \<open>What a broker documents: offsets are not negative and fit, a low watermark is not above the
  high one, and a timestamp resolves to an offset between them.\<close>

definition marks_ok :: "(int \<times> int \<times> int) list \<Rightarrow> bool" where
  "marks_ok marks \<longleftrightarrow> bt_ok marks \<and> (\<forall>(p, low, high)\<in>set marks. 0 \<le> low \<and> low \<le> high \<and> high < 2 ^ 63)"

definition times_ok :: "broker \<Rightarrow> string \<Rightarrow> (int \<times> int \<times> int) list \<Rightarrow> int list \<Rightarrow> bool" where
  "times_ok b topic marks ps \<longleftrightarrow>
     (\<forall>ms resolved p raw low high.
        offsets_for_times b topic ps ms = Some resolved \<and> map_of resolved p = Some (Some raw)
        \<and> bt_get marks p = Some (low, high) \<and> 0 \<le> raw \<longrightarrow> low \<le> raw \<and> raw \<le> high)"

definition within_marks :: "(int \<times> int \<times> int) list \<Rightarrow> int list \<Rightarrow> (int \<times> int) list \<Rightarrow> bool" where
  "within_marks marks ps m \<longleftrightarrow>
     bt_ok m \<and> fst ` set m = set ps
     \<and> (\<forall>p\<in>set ps. \<exists>low high x. bt_get marks p = Some (low, high) \<and> bt_get m p = Some x \<and> low \<le> x \<and> x \<le> high)"

lemma marks_ok_get:
  "marks_ok marks \<Longrightarrow> bt_get marks p = Some (low, high) \<Longrightarrow> 0 \<le> low \<and> low \<le> high \<and> high < 2 ^ 63"
  by (auto simp: marks_ok_def dest!: map_of_SomeD)

lemma marks_get: "set ps \<subseteq> fst ` set marks \<Longrightarrow> p \<in> set ps \<Longrightarrow> \<exists>low high. bt_get marks p = Some (low, high)"
  by (metis (no_types, opaque_lifting) map_of_eq_None_iff not_None_eq subsetD surj_pair)

lemma collect_within:
  assumes "collect_map f ps = Inr m"
    and "\<And>p y. p \<in> set ps \<Longrightarrow> f p = Inr y \<Longrightarrow> \<exists>low high. bt_get marks p = Some (low, high) \<and> low \<le> y \<and> y \<le> high"
  shows "within_marks marks ps m"
  unfolding within_marks_def
proof (intro conjI ballI)
  fix p assume p: "p \<in> set ps"
  obtain y where "f p = Inr y" "bt_get m p = Some y" using collect_map_Inr(3) [OF assms(1) p] by blast
  with assms(2) [OF p] show "\<exists>low high x. bt_get marks p = Some (low, high) \<and> bt_get m p = Some x \<and> low \<le> x \<and> x \<le> high"
    by blast
qed (use collect_map_Inr(1,2) [OF assms(1)] in auto)

lemma task_panicked_neq [simp]:
  "fail_with NotFound t \<noteq> task_panicked" "fail_with Kafka (CHR ''f'' # CHR ''a'' # t) \<noteq> task_panicked"
  by (simp_all add: task_panicked_def fail_with_def new_report_def attach_def)

lemma resolve_within:
  assumes "marks_ok marks" and "times_ok b topic marks ps" and "set ps \<subseteq> fst ` set marks"
    and res: "resolve_offsets_by_timestamp b topic ps ms
      (\<lambda>p. and_then (watermarks_of topic marks p) (\<lambda>(low, high). Inr high)) = Inr m"
  shows "within_marks marks ps m"
proof -
  obtain resolved where r: "offsets_for_times b topic ps ms = Some resolved"
    using res by (auto simp: resolve_offsets_by_timestamp_def split: if_splits option.splits)
  show ?thesis
  proof (rule collect_within)
    show "collect_map (\<lambda>p. case Option.bind (map_of resolved p) id of
        Some raw \<Rightarrow> if 0 \<le> raw then Inr raw else and_then (watermarks_of topic marks p) (\<lambda>(low, high). Inr high)
      | None \<Rightarrow> and_then (watermarks_of topic marks p) (\<lambda>(low, high). Inr high)) ps = Inr m"
      using res by (auto simp: resolve_offsets_by_timestamp_def r split: if_splits)
    fix p y
    assume p: "p \<in> set ps" and y: "(case Option.bind (map_of resolved p) id of
        Some raw \<Rightarrow> if 0 \<le> raw then Inr raw else and_then (watermarks_of topic marks p) (\<lambda>(low, high). Inr high)
      | None \<Rightarrow> and_then (watermarks_of topic marks p) (\<lambda>(low, high). Inr high)) = Inr y"
    obtain low high where lh: "bt_get marks p = Some (low, high)" using marks_get [OF assms(3) p] by blast
    have "low \<le> y \<and> y \<le> high"
    proof (cases "\<exists>raw. map_of resolved p = Some (Some raw) \<and> 0 \<le> raw")
      case True
      then show ?thesis using y assms(2) r lh unfolding times_ok_def by (auto split: if_splits)
    next
      case False
      then have "y = high"
        using y lh by (auto simp: watermarks_of_def bind_eq_Some_conv split: option.splits if_splits)
      then show ?thesis using marks_ok_get [OF assms(1) lh] by simp
    qed
    with lh show "\<exists>low high. bt_get marks p = Some (low, high) \<and> low \<le> y \<and> y \<le> high" by blast
  qed
qed

lemma high_never_panics:
  "and_then (watermarks_of topic marks p) (\<lambda>(low, high). Inr (f low high)) \<noteq> Inl task_panicked"
  by (auto simp: and_then_Inl_iff watermarks_of_def split: option.splits)

lemma resolve_never_panics:
  "resolve_offsets_by_timestamp b topic ps ms
      (\<lambda>p. and_then (watermarks_of topic marks p) (\<lambda>(low, high). Inr high)) \<noteq> Inl task_panicked"
  using high_never_panics [of topic marks _ "\<lambda>low high. high"]
  by (auto simp: resolve_offsets_by_timestamp_def dest!: collect_map_Inl split: option.splits if_splits)

lemma clamp_within: "low \<le> high \<Longrightarrow> \<exists>start. clamp_offset offset low high = Some start \<and> low \<le> start \<and> start \<le> high \<and> min offset high \<le> start"
  by (auto simp: clamp_offset_def)

lemma explicit_never_panics:
  assumes "marks_ok marks"
  shows "explicit_start_offsets topic marks ps offset \<noteq> Inl task_panicked"
proof
  assume "explicit_start_offsets topic marks ps offset = Inl task_panicked"
  then obtain p where "and_then (watermarks_of topic marks p) (\<lambda>(low, high).
        case clamp_offset offset low high of Some start \<Rightarrow> Inr start | None \<Rightarrow> Inl task_panicked) = Inl task_panicked"
    unfolding explicit_start_offsets_def by (blast dest: collect_map_Inl)
  then show False
    using marks_ok_get [OF assms, of p] clamp_within [of _ _ offset]
    by (fastforce simp: and_then_Inl_iff watermarks_of_def split: option.splits)
qed

lemma explicit_within:
  assumes "marks_ok marks" and "set ps \<subseteq> fst ` set marks" and e: "explicit_start_offsets topic marks ps offset = Inr m"
  shows "within_marks marks ps m"
    and "p \<in> set ps \<Longrightarrow> bt_get marks p = Some (low, high) \<Longrightarrow> bt_get m p = Some x \<Longrightarrow> min offset high \<le> x"
proof -
  have get: "\<exists>low high. bt_get marks p = Some (low, high) \<and> clamp_offset offset low high = Some y"
    if "p \<in> set ps" and "and_then (watermarks_of topic marks p) (\<lambda>(low, high).
        case clamp_offset offset low high of Some start \<Rightarrow> Inr start | None \<Rightarrow> Inl task_panicked) = Inr y" for p y
    using that(2) by (auto simp: watermarks_of_def split: option.splits)
  show "within_marks marks ps m"
    using e unfolding explicit_start_offsets_def
  proof (rule collect_within)
    fix p y
    assume "p \<in> set ps" and "and_then (watermarks_of topic marks p) (\<lambda>(low, high).
        case clamp_offset offset low high of Some start \<Rightarrow> Inr start | None \<Rightarrow> Inl task_panicked) = Inr y"
    from get [OF this] show "\<exists>low high. bt_get marks p = Some (low, high) \<and> low \<le> y \<and> y \<le> high"
      using clamp_within [of _ _ offset] marks_ok_get [OF assms(1), of p] by fastforce
  qed
  show "min offset high \<le> x"
    if p: "p \<in> set ps" and marks: "bt_get marks p = Some (low, high)" and x: "bt_get m p = Some x"
  proof -
    obtain y where y: "and_then (watermarks_of topic marks p) (\<lambda>(low, high).
        case clamp_offset offset low high of Some start \<Rightarrow> Inr start | None \<Rightarrow> Inl task_panicked) = Inr y" "bt_get m p = Some y"
      using collect_map_Inr(3) [OF e [unfolded explicit_start_offsets_def] p] by blast
    from get [OF p y(1)] show ?thesis
      using clamp_within [of low high offset] marks_ok_get [OF assms(1) marks] marks x y(2) by auto
  qed
qed

lemma within_get:
  "within_marks marks ps m \<Longrightarrow> p \<in> set ps \<Longrightarrow> bt_get marks p = Some (low, high) \<Longrightarrow>
    \<exists>x. bt_get m p = Some x \<and> low \<le> x \<and> x \<le> high"
  unfolding within_marks_def by fastforce

lemma filter_starts_within:
  assumes "marks_ok marks" and "set ps \<subseteq> fst ` set marks"
    and "\<And>m. explicit = Some m \<Longrightarrow> within_marks marks ps m" and "\<And>m. from_ts = Some m \<Longrightarrow> within_marks marks ps m"
    and f: "filter_start_offsets topic marks ps explicit from_ts = Inr m"
  shows "within_marks marks ps m"
proof (cases "explicit \<noteq> None \<or> from_ts \<noteq> None")
  case True
  then have c: "collect_map (\<lambda>p.
        case combined_start_offset (Option.bind explicit (\<lambda>m. bt_get m p)) (Option.bind from_ts (\<lambda>m. bt_get m p)) of
          Some start \<Rightarrow> Inr start | None \<Rightarrow> Inl task_panicked) ps = Inr m"
    using f by (auto simp: filter_start_offsets_def)
  show ?thesis
    using c
  proof (rule collect_within)
    fix p y
    assume p: "p \<in> set ps" and y: "(case combined_start_offset (Option.bind explicit (\<lambda>m. bt_get m p)) (Option.bind from_ts (\<lambda>m. bt_get m p)) of
          Some start \<Rightarrow> Inr start | None \<Rightarrow> Inl task_panicked) = Inr y"
    obtain low high where lh: "bt_get marks p = Some (low, high)" using marks_get [OF assms(2) p] by blast
    have "low \<le> y \<and> y \<le> high"
      using y True within_get [OF assms(3) p lh] within_get [OF assms(4) p lh]
      by (cases explicit; cases from_ts) force+
    with lh show "\<exists>low high. bt_get marks p = Some (low, high) \<and> low \<le> y \<and> y \<le> high" by blast
  qed
next
  case False
  then have c: "collect_map (\<lambda>p. and_then (watermarks_of topic marks p) (\<lambda>(low, high). Inr low)) ps = Inr m"
    using f by (simp add: filter_start_offsets_def)
  then show ?thesis
    by (rule collect_within)
      (use marks_ok_get [OF assms(1)] in \<open>fastforce simp: watermarks_of_def split: option.splits\<close>)
qed

lemma filter_starts_never_panic:
  assumes "set ps \<subseteq> fst ` set marks"
    and "\<And>m. explicit = Some m \<Longrightarrow> within_marks marks ps m" and "\<And>m. from_ts = Some m \<Longrightarrow> within_marks marks ps m"
  shows "filter_start_offsets topic marks ps explicit from_ts \<noteq> Inl task_panicked"
proof
  assume f: "filter_start_offsets topic marks ps explicit from_ts = Inl task_panicked"
  show False
  proof (cases "explicit \<noteq> None \<or> from_ts \<noteq> None")
    case True
    then obtain p where p: "p \<in> set ps"
      and none: "combined_start_offset (Option.bind explicit (\<lambda>m. bt_get m p)) (Option.bind from_ts (\<lambda>m. bt_get m p)) = None"
      using f by (auto simp: filter_start_offsets_def dest!: collect_map_Inl split: option.splits)
    obtain low high where lh: "bt_get marks p = Some (low, high)" using marks_get [OF assms(1) p] by blast
    show False
      using none True within_get [OF assms(2) p lh] within_get [OF assms(3) p lh]
      by (cases explicit; cases from_ts) force+
  next
    case False
    then show False
      using f high_never_panics [of topic marks _ "\<lambda>low high. low"]
      by (auto simp: filter_start_offsets_def dest!: collect_map_Inl)
  qed
qed

lemma high_within:
  assumes "marks_ok marks" and "collect_map (\<lambda>p. and_then (watermarks_of topic marks p) (\<lambda>(low, high). Inr high)) ps = Inr m"
  shows "within_marks marks ps m"
  using assms(2)
  by (rule collect_within) (use marks_ok_get [OF assms(1)] in \<open>fastforce simp: watermarks_of_def split: option.splits\<close>)

lemma ends_within:
  assumes "marks_ok marks" and "times_ok b topic marks ps" and "set ps \<subseteq> fst ` set marks"
    and "end_offsets_for b topic marks ps to_ms = Inr m"
  shows "within_marks marks ps m"
  using assms(4) high_within [OF assms(1)] resolve_within [OF assms(1-3)]
  by (auto simp: end_offsets_for_def Let_def split: option.splits)

lemma ends_never_panic: "end_offsets_for b topic marks ps to_ms \<noteq> Inl task_panicked"
  using resolve_never_panics high_never_panics [of topic marks _ "\<lambda>low high. high"]
  by (auto simp: end_offsets_for_def Let_def dest!: collect_map_Inl split: option.splits)

lemma windows_get:
  assumes "marks_ok marks" and "within_marks marks ps starts" and "within_marks marks ps ends" and "p \<in> set ps"
    and "bt_get marks p = Some (low, high)" and "bt_get starts p = Some st" and "bt_get ends p = Some e"
  shows "bt_get (partition_limits starts ends (Some c)) p = Some (min (max (e - st) 0) (uint c))"
proof -
  have "in_i64 (e - st)"
    using marks_ok_get [OF assms(1,5)] within_get [OF assms(2,4,5)] within_get [OF assms(3,4,5)] assms(6,7)
    by (auto simp: in_i64_def)
  then show ?thesis
    unfolding partition_limits_def Let_def by (simp add: bt_get_map_values assms(6,7) i64_id)
qed

lemma windows_shape:
  "bt_ok starts \<Longrightarrow> bt_ok (partition_limits starts ends c)"
  "map fst (partition_limits starts ends c) = map fst starts"
  "\<forall>(p, w)\<in>set (partition_limits starts ends (Some k)). 0 \<le> w"
  by (auto simp: partition_limits_def Let_def bt_ok_def comp_def case_prod_unfold)

text \<open>What the split leaves of a window, with or without an overall budget.\<close>

lemma distribute_cases:
  assumes "bt_ok windows" and "\<forall>(p, w)\<in>set windows. 0 \<le> w"
  shows "\<exists>limits. distribute_total_budget windows budget = Some limits \<and> map fst limits = map fst windows
    \<and> sum_list (map snd limits) = (case budget of None \<Rightarrow> \<Sum>(p, w)\<leftarrow>windows. w | Some m \<Rightarrow> min (uint m) (\<Sum>(p, w)\<leftarrow>windows. w))
    \<and> (\<forall>p w. bt_get windows p = Some w \<longrightarrow> (\<exists>l. bt_get limits p = Some l \<and> 0 \<le> l \<and> l \<le> w))"
proof (cases budget)
  case None
  then show ?thesis
    using assms(2) by (auto simp: distribute_total_budget_def case_prod_unfold dest!: map_of_SomeD)
next
  case (Some m)
  obtain al where al: "distribute_total_budget windows budget = Some al" "map fst al = map fst windows"
    "sum_list (map snd al) = min (uint m) (\<Sum>(p, w)\<leftarrow>windows. max w 0)"
    "\<forall>p w t. bt_get windows p = Some w \<and> bt_get al p = Some t \<longrightarrow> 0 \<le> t \<and> t \<le> max w 0"
    using distribute_total_budget_exact [OF assms(1), of m] Some by blast
  have pos: "(\<Sum>(p, w)\<leftarrow>windows. max w 0) = (\<Sum>(p, w)\<leftarrow>windows. w)"
    using assms(2) by (intro arg_cong [of _ _ sum_list] map_cong) auto
  have "\<exists>l. bt_get al p = Some l \<and> 0 \<le> l \<and> l \<le> w" if w: "bt_get windows p = Some w" for p w
  proof -
    have "0 \<le> w" using w assms(2) by (auto dest!: map_of_SomeD)
    moreover have "p \<in> fst ` set al" using w al(2) by (metis map_of_SomeD image_eqI fst_conv list.set_map)
    then obtain l where "bt_get al p = Some l" by (metis map_of_eq_None_iff not_None_eq)
    ultimately show ?thesis using al(4) w by fastforce
  qed
  then show ?thesis using al(1-3) Some by (simp add: pos)
qed

lemma split_limit:
  assumes "bt_ok windows" and "\<forall>(p, w)\<in>set windows. 0 \<le> w"
    and "distribute_total_budget windows budget = Some limits" and "bt_get windows p = Some w"
  shows "\<exists>l. bt_get limits p = Some l \<and> 0 \<le> l \<and> l \<le> w"
proof -
  obtain limits' where "distribute_total_budget windows budget = Some limits'"
    "\<forall>p w. bt_get windows p = Some w \<longrightarrow> (\<exists>l. bt_get limits' p = Some l \<and> 0 \<le> l \<and> l \<le> w)"
    using distribute_cases [OF assms(1,2), of budget] by blast
  then show ?thesis using assms(3,4) by simp
qed

lemma filter_starts_pinned:
  assumes "filter_start_offsets topic marks ps (Some m) from_ts = Inr starts" and p: "p \<in> set ps"
    and "bt_get m p = Some x" and "bt_get starts p = Some st"
  shows "x \<le> st"
proof -
  have c: "collect_map (\<lambda>p.
        case combined_start_offset (Option.bind (Some m) (\<lambda>m. bt_get m p)) (Option.bind from_ts (\<lambda>m. bt_get m p)) of
          Some start \<Rightarrow> Inr start | None \<Rightarrow> Inl task_panicked) ps = Inr starts"
    using assms(1) by (simp add: filter_start_offsets_def)
  show ?thesis
    using collect_map_Inr(3) [OF c p] assms(3,4)
    by (cases "Option.bind from_ts (\<lambda>m. bt_get m p)") auto
qed

lemma filter_starts_free:
  assumes "filter_start_offsets topic marks ps None None = Inr starts" and p: "p \<in> set ps"
    and "bt_get marks p = Some (low, high)"
  shows "bt_get starts p = Some low"
proof -
  have c: "collect_map (\<lambda>p. and_then (watermarks_of topic marks p) (\<lambda>(low, high). Inr low)) ps = Inr starts"
    using assms(1) by (simp add: filter_start_offsets_def)
  show ?thesis using collect_map_Inr(3) [OF c p] assms(3) by (simp add: watermarks_of_def)
qed

lemma newest_first_get:
  assumes "marks_ok marks" and "newest_first_starts topic marks ps ends limits = Inr m" and "within_marks marks ps ends"
    and "p \<in> set ps" and "bt_get marks p = Some (low, high)" and "bt_get ends p = Some e"
    and "bt_get limits p = Some l" and "0 \<le> l" and "l \<le> max (e - low) 0"
  shows "bt_get m p = Some (e - l)"
proof -
  have "in_i64 (e - l)"
    using marks_ok_get [OF assms(1,5)] within_get [OF assms(3,4,5)] assms(6,8,9) by (auto simp: in_i64_def)
  moreover have "low \<le> e - l" using within_get [OF assms(3,4,5)] assms(6,8,9) by auto
  moreover obtain y where "bt_get m p = Some y"
    "and_then (watermarks_of topic marks p) (\<lambda>(low, high).
        let e = (case bt_get ends p of Some e \<Rightarrow> e | None \<Rightarrow> high);
            taken = (case bt_get limits p of Some l \<Rightarrow> l | None \<Rightarrow> 0)
        in Inr (newest_first_start_offset low e taken)) = Inr y"
    using collect_map_Inr(3) [OF assms(2) [unfolded newest_first_starts_def] assms(4)] by blast
  ultimately show ?thesis
    by (auto simp: watermarks_of_def assms(5-7) newest_first_start_offset_def i64_id max_def split: if_splits)
qed

section \<open>Properties\<close>

text \<open>C36: Asking for watermarks from several threads is invisible: the answer, and the error when one
  partition fails, are those of asking partition by partition in order.\<close>
theorem watermarks_concurrency_invisible:
  "watermarks_for_partitions b topic partitions = watermarks_in_order b topic partitions []"
  by (rule watermarks_for_partitions_in_order)

text \<open>What one partition of a plan reads: \<open>l\<close> offsets from \<open>st\<close>, within the watermarks and before
  the end of the filter, at most the cap, at an explicit offset or later, and up to the very end
  when the filter gives no start.\<close>

definition reads_ok :: "message_filter \<Rightarrow> (int \<times> int \<times> int) list \<Rightarrow> fetch_plan \<Rightarrow> int \<Rightarrow> bool" where
  "reads_ok flt marks plan p \<longleftrightarrow>
     (\<exists>low high st e l. bt_get marks p = Some (low, high) \<and> bt_get (plan_starts plan) p = Some st
        \<and> bt_get (plan_ends plan) p = Some e \<and> bt_get (plan_limits plan) p = Some l
        \<and> low \<le> st \<and> e \<le> high \<and> 0 \<le> l \<and> st + l \<le> max st e
        \<and> l \<le> uint (effective_max_messages_per_partition (f_max_messages_per_partition flt))
        \<and> (case f_offset flt of Some o' \<Rightarrow> min o' high \<le> st | None \<Rightarrow> True)
        \<and> (f_offset flt \<noteq> None \<or> f_from_timestamp_ms flt \<noteq> None \<or> st + l = e))"

lemma reads_okI:
  assumes "bt_get marks p = Some (low, high)" and "bt_get (plan_starts plan) p = Some st"
    and "bt_get (plan_ends plan) p = Some e" and "bt_get (plan_limits plan) p = Some l"
    and "low \<le> st" and "e \<le> high" and "0 \<le> l" and "st + l \<le> max st e"
    and "l \<le> uint (effective_max_messages_per_partition (f_max_messages_per_partition flt))"
    and "\<And>o'. f_offset flt = Some o' \<Longrightarrow> min o' high \<le> st"
    and "f_offset flt \<noteq> None \<or> f_from_timestamp_ms flt \<noteq> None \<or> st + l = e"
  shows "reads_ok flt marks plan p"
proof -
  have "case f_offset flt of Some o' \<Rightarrow> min o' high \<le> st | None \<Rightarrow> True"
    using assms(10) by (cases "f_offset flt") simp_all
  with assms(1-9,11) show ?thesis unfolding reads_ok_def by blast
qed

text \<open>The parts a successful plan is made of.\<close>

lemma plan_fetch_Inr:
  assumes "plan_fetch b topic flt ps marks = Inr plan"
  obtains explicit from_ts starts limits where
    "if_given (f_offset flt) (explicit_start_offsets topic marks ps) = Inr explicit"
    "if_given (f_from_timestamp_ms flt) (\<lambda>ms. resolve_offsets_by_timestamp b topic ps ms
       (\<lambda>p. and_then (watermarks_of topic marks p) (\<lambda>(low, high). Inr high))) = Inr from_ts"
    "filter_start_offsets topic marks ps explicit from_ts = Inr starts"
    "end_offsets_for b topic marks ps (f_to_timestamp_ms flt) = Inr (plan_ends plan)"
    "distribute_total_budget (partition_limits starts (plan_ends plan)
       (Some (effective_max_messages_per_partition (f_max_messages_per_partition flt)))) (f_max_total_messages flt)
       = Some (plan_limits plan)"
    "if explicit \<noteq> None \<or> from_ts \<noteq> None then plan_starts plan = starts
     else newest_first_starts topic marks ps (plan_ends plan) (plan_limits plan) = Inr (plan_starts plan)"
proof -
  obtain explicit from_ts starts ends where parts:
    "if_given (f_offset flt) (explicit_start_offsets topic marks ps) = Inr explicit"
    "if_given (f_from_timestamp_ms flt) (\<lambda>ms. resolve_offsets_by_timestamp b topic ps ms
       (\<lambda>p. and_then (watermarks_of topic marks p) (\<lambda>(low, high). Inr high))) = Inr from_ts"
    "filter_start_offsets topic marks ps explicit from_ts = Inr starts"
    "end_offsets_for b topic marks ps (f_to_timestamp_ms flt) = Inr ends"
    using assms unfolding plan_fetch_def Let_def and_then_Inr_iff by blast
  obtain limits where limits: "distribute_total_budget (partition_limits starts ends
       (Some (effective_max_messages_per_partition (f_max_messages_per_partition flt)))) (f_max_total_messages flt)
       = Some limits"
    using assms unfolding plan_fetch_def Let_def parts and_then.simps by (auto split: option.splits)
  have p: "and_then (if explicit \<noteq> None \<or> from_ts \<noteq> None then Inr starts
        else newest_first_starts topic marks ps ends limits) (\<lambda>start_offsets.
      Inr \<lparr>plan_total_matching = (\<Sum>(p, available)\<leftarrow>partition_limits starts ends None. max available 0) mod 2 ^ 64,
        plan_starts = start_offsets, plan_ends = ends, plan_limits = limits\<rparr>) = Inr plan"
    using assms unfolding plan_fetch_def Let_def parts and_then.simps limits option.case by assumption
  then obtain st where st: "(if explicit \<noteq> None \<or> from_ts \<noteq> None then Inr starts
        else newest_first_starts topic marks ps ends limits) = Inr st"
    "plan = \<lparr>plan_total_matching = (\<Sum>(p, available)\<leftarrow>partition_limits starts ends None. max available 0) mod 2 ^ 64,
        plan_starts = st, plan_ends = ends, plan_limits = limits\<rparr>"
    unfolding and_then_Inr_iff by blast
  show thesis
    by (rule that [of explicit from_ts starts]) (use parts limits st in \<open>auto split: if_splits\<close>)
qed

lemma plan_reads_ok:
  assumes "marks_ok marks" and "times_ok b topic marks ps" and "set ps \<subseteq> fst ` set marks"
    and "plan_fetch b topic flt ps marks = Inr plan" and p: "p \<in> set ps"
  shows "reads_ok flt marks plan p"
proof -
  let ?cap = "effective_max_messages_per_partition (f_max_messages_per_partition flt)"
  obtain explicit from_ts starts limits where parts:
    "if_given (f_offset flt) (explicit_start_offsets topic marks ps) = Inr explicit"
    "if_given (f_from_timestamp_ms flt) (\<lambda>ms. resolve_offsets_by_timestamp b topic ps ms
       (\<lambda>p. and_then (watermarks_of topic marks p) (\<lambda>(low, high). Inr high))) = Inr from_ts"
    "filter_start_offsets topic marks ps explicit from_ts = Inr starts"
    "end_offsets_for b topic marks ps (f_to_timestamp_ms flt) = Inr (plan_ends plan)"
    "distribute_total_budget (partition_limits starts (plan_ends plan) (Some ?cap)) (f_max_total_messages flt)
       = Some (plan_limits plan)"
    "if explicit \<noteq> None \<or> from_ts \<noteq> None then plan_starts plan = starts
     else newest_first_starts topic marks ps (plan_ends plan) (plan_limits plan) = Inr (plan_starts plan)"
    by (rule plan_fetch_Inr [OF assms(4)])
  have exp: "within_marks marks ps m" if "explicit = Some m" for m
    using parts(1) that explicit_within(1) [OF assms(1,3)] by (auto simp: if_given_def split: option.splits)
  have frm: "within_marks marks ps m" if "from_ts = Some m" for m
    using parts(2) that resolve_within [OF assms(1-3)] by (auto simp: if_given_def split: option.splits)
  have st: "within_marks marks ps starts" by (rule filter_starts_within [OF assms(1,3) exp frm parts(3)])
  have en: "within_marks marks ps (plan_ends plan)" by (rule ends_within [OF assms(1-3) parts(4)])
  obtain low high where lh: "bt_get marks p = Some (low, high)" using marks_get [OF assms(3) p] by blast
  obtain s0 e where s0: "bt_get starts p = Some s0" "low \<le> s0" "s0 \<le> high"
    and e: "bt_get (plan_ends plan) p = Some e" "low \<le> e" "e \<le> high"
    using within_get [OF st p lh] within_get [OF en p lh] by blast
  have w: "bt_get (partition_limits starts (plan_ends plan) (Some ?cap)) p = Some (min (max (e - s0) 0) (uint ?cap))"
    by (rule windows_get [OF assms(1) st en p lh s0(1) e(1)])
  have wok: "bt_ok (partition_limits starts (plan_ends plan) (Some ?cap))"
    using st by (simp add: within_marks_def windows_shape)
  obtain l where l: "bt_get (plan_limits plan) p = Some l" "0 \<le> l" "l \<le> min (max (e - s0) 0) (uint ?cap)"
    using split_limit [OF wok windows_shape(3) parts(5) w] by blast
  show ?thesis
  proof (cases "explicit \<noteq> None \<or> from_ts \<noteq> None")
    case True
    have off: "min o' high \<le> s0" if o: "f_offset flt = Some o'" for o'
    proof -
      obtain m where m: "explicit = Some m" "explicit_start_offsets topic marks ps o' = Inr m"
        using parts(1) o by (auto simp: if_given_def split: option.splits)
      obtain x where x: "bt_get m p = Some x" using within_get [OF exp [OF m(1)] p lh] by blast
      have "x \<le> s0" by (rule filter_starts_pinned [OF parts(3) [unfolded m(1)] p x s0(1)])
      then show ?thesis using explicit_within(2) [OF assms(1,3) m(2) p lh x] by linarith
    qed
    have given: "f_offset flt \<noteq> None \<or> f_from_timestamp_ms flt \<noteq> None"
      using True parts(1,2) by (auto simp: if_given_def split: option.splits)
    have "bt_get (plan_starts plan) p = Some s0" using parts(6) True s0(1) by simp
    then show ?thesis
      by (rule reads_okI [OF lh _ e(1) l(1)]) (use e l s0 off given in auto)
  next
    case False
    have none: "f_offset flt = None"
      using False parts(1) by (auto simp: if_given_def split: option.splits)
    have "s0 = low"
      using filter_starts_free [of topic marks ps starts p low high] False parts(3) p lh s0(1) by simp
    then have "bt_get (plan_starts plan) p = Some (e - l)"
      using parts(6) False newest_first_get [OF assms(1) _ en p lh e(1) l(1,2)] l(3) by simp
    then show ?thesis
      by (rule reads_okI [OF lh _ e(1) l(1)]) (use e l \<open>s0 = low\<close> none in auto)
  qed
qed

lemma plan_limits_ok:
  assumes "marks_ok marks" and "times_ok b topic marks ps" and "set ps \<subseteq> fst ` set marks"
    and "plan_fetch b topic flt ps marks = Inr plan"
  shows "bt_ok (plan_limits plan)" and "fst ` set (plan_limits plan) = set ps"
    and "f_max_total_messages flt = Some m \<Longrightarrow> sum_list (map snd (plan_limits plan)) \<le> uint m"
proof -
  let ?cap = "effective_max_messages_per_partition (f_max_messages_per_partition flt)"
  obtain explicit from_ts starts where parts:
    "if_given (f_offset flt) (explicit_start_offsets topic marks ps) = Inr explicit"
    "if_given (f_from_timestamp_ms flt) (\<lambda>ms. resolve_offsets_by_timestamp b topic ps ms
       (\<lambda>p. and_then (watermarks_of topic marks p) (\<lambda>(low, high). Inr high))) = Inr from_ts"
    "filter_start_offsets topic marks ps explicit from_ts = Inr starts"
    "distribute_total_budget (partition_limits starts (plan_ends plan) (Some ?cap)) (f_max_total_messages flt)
       = Some (plan_limits plan)"
    by (rule plan_fetch_Inr [OF assms(4)])
  have starts: "bt_ok starts" "fst ` set starts = set ps"
    using parts(3) by (auto simp: filter_start_offsets_def collect_map_Inr split: if_splits)
  note d = distribute_cases [OF windows_shape(1) [OF starts(1)] windows_shape(3), of "plan_ends plan" ?cap "f_max_total_messages flt"]
  have keys: "map fst (plan_limits plan) = map fst starts"
    using d parts(4) by (auto simp: windows_shape(2))
  then show "bt_ok (plan_limits plan)" using starts(1) by (simp add: bt_ok_def)
  show "fst ` set (plan_limits plan) = set ps" using keys starts(2) by (metis list.set_map)
  show "sum_list (map snd (plan_limits plan)) \<le> uint m" if "f_max_total_messages flt = Some m"
    using d parts(4) that by auto
qed

lemma plan_never_panics:
  assumes "marks_ok marks" and "times_ok b topic marks ps" and "set ps \<subseteq> fst ` set marks"
  shows "plan_fetch b topic flt ps marks \<noteq> Inl task_panicked"
proof
  let ?high = "\<lambda>p. and_then (watermarks_of topic marks p) (\<lambda>(low, high). Inr high)"
  let ?cap = "effective_max_messages_per_partition (f_max_messages_per_partition flt)"
  assume "plan_fetch b topic flt ps marks = Inl task_panicked"
  moreover have "if_given (f_offset flt) (explicit_start_offsets topic marks ps) \<noteq> Inl task_panicked"
    using explicit_never_panics [OF assms(1)] by (auto simp: if_given_def and_then_Inl_iff split: option.splits)
  moreover have "if_given (f_from_timestamp_ms flt) (\<lambda>ms. resolve_offsets_by_timestamp b topic ps ms ?high) \<noteq> Inl task_panicked"
    using resolve_never_panics by (auto simp: if_given_def and_then_Inl_iff split: option.splits)
  ultimately obtain explicit from_ts where e:
    "if_given (f_offset flt) (explicit_start_offsets topic marks ps) = Inr explicit"
    "if_given (f_from_timestamp_ms flt) (\<lambda>ms. resolve_offsets_by_timestamp b topic ps ms ?high) = Inr from_ts"
    and p: "plan_fetch b topic flt ps marks = Inl task_panicked"
    unfolding plan_fetch_def Let_def by (auto simp: and_then_Inl_iff)
  have exp: "within_marks marks ps m" if "explicit = Some m" for m
    using e(1) that explicit_within(1) [OF assms(1,3)] by (auto simp: if_given_def split: option.splits)
  have frm: "within_marks marks ps m" if "from_ts = Some m" for m
    using e(2) that resolve_within [OF assms] by (auto simp: if_given_def split: option.splits)
  obtain starts where s: "filter_start_offsets topic marks ps explicit from_ts = Inr starts"
    using p filter_starts_never_panic [OF assms(3) exp frm]
    by (cases "filter_start_offsets topic marks ps explicit from_ts") (auto simp: plan_fetch_def e Let_def)
  obtain ends where n: "end_offsets_for b topic marks ps (f_to_timestamp_ms flt) = Inr ends"
    using p ends_never_panic
    by (cases "end_offsets_for b topic marks ps (f_to_timestamp_ms flt)") (auto simp: plan_fetch_def e s Let_def)
  have "bt_ok starts"
    using s by (auto simp: filter_start_offsets_def collect_map_Inr split: if_splits)
  then obtain limits where l: "distribute_total_budget (partition_limits starts ends (Some ?cap)) (f_max_total_messages flt) = Some limits"
    using distribute_cases [OF windows_shape(1) windows_shape(3)] by blast
  have "newest_first_starts topic marks ps ends limits = Inl task_panicked"
    using p by (auto simp: plan_fetch_def e s n l Let_def and_then_Inl_iff split: if_splits)
  then show False
    unfolding newest_first_starts_def by (auto dest!: collect_map_Inl simp: and_then_Inl_iff watermarks_of_def Let_def split: option.splits)
qed


definition quiet_broker :: broker where
  "quiet_broker = \<lparr>query_watermarks = \<lambda>topic p. Inr (0, 10), accepts_offset = \<lambda>x. 0 \<le> x,
     offsets_for_times = \<lambda>topic ps ms. Some (map (\<lambda>p. (p, Some 4)) ps)\<rparr>"

lemma quiet_plan:
  "plan_fetch quiet_broker ''t'' (default_filter\<lparr>f_max_total_messages := Some 5\<rparr>) [1, 0] [(0, 0, 10), (1, 3, 10)]
    = Inr \<lparr>plan_total_matching = 17, plan_starts = [(0, 7), (1, 8)], plan_ends = [(0, 10), (1, 10)],
        plan_limits = [(0, 3), (1, 2)]\<rparr>"
  by code_simp


end
