(* ===== verification/Fetch_Loop.thy ===== *)
theory Fetch_Loop
  imports Fetch_Plan
begin

text \<open>
  The fetch itself (\<^verbatim>\<open>fetch_messages\<close> of \<^verbatim>\<open>backend/kafka/src/client.rs\<close>, the message types of
  \<^verbatim>\<open>backend/core/src/message.rs\<close> and the feature check of \<^verbatim>\<open>backend/kafka/src/build_info.rs\<close>).
  The poll loop runs over a list of rounds: each says whether the fetch has been cancelled when the
  loop looks, what a non-blocking poll of each shard yields and what a blocking one does. A list
  that runs out before the loop ends gives \<open>None\<close>. Durations are milliseconds.
\<close>

section \<open>What is polled and what is kept\<close>

record borrowed_message =
  bm_partition :: int
  bm_offset :: int
  bm_timestamp :: "int option"
  bm_key :: "byte list option"
  bm_payload :: "byte list option"
  bm_headers :: "(string \<times> byte list option) list option"

record message_header =
  mh_key :: string
  mh_value_base64 :: "string option"

record topic_message =
  tm_partition :: int
  tm_offset :: int
  tm_timestamp_ms :: "int option"
  tm_key_base64 :: "string option"
  tm_payload_base64 :: "string option"
  tm_payload_size_bytes :: "nat option"
  tm_headers :: "message_header list"

record message_fetch_result =
  messages :: "topic_message list"
  total_matching :: int
  poll_error :: "string option"
  stopped_at_byte_budget :: bool
  payload_bytes_read :: nat

definition default_result :: message_fetch_result where
  "default_result = \<lparr>messages = [], total_matching = 0, poll_error = None,
     stopped_at_byte_budget = False, payload_bytes_read = 0\<rparr>"

definition extract_headers :: "(byte list \<Rightarrow> string) \<Rightarrow> borrowed_message \<Rightarrow> message_header list" where
  "extract_headers base64 m =
     (case bm_headers m of
        None \<Rightarrow> []
      | Some headers \<Rightarrow>
          map (\<lambda>(key, val). \<lparr>mh_key = key, mh_value_base64 = map_option base64 val\<rparr>) headers)"

section \<open>Explaining a poll failure\<close>

definition REQUIRED_FEATURES :: "string list" where
  "REQUIRED_FEATURES = [''gzip'', ''snappy'', ''lz4'', ''zstd'', ''ssl'']"

definition missing_from :: "string \<Rightarrow> string list" where
  "missing_from features =
     filter (\<lambda>required. \<not> list_ex (\<lambda>present. present = required) (split_on CHR '','' features)) REQUIRED_FEATURES"

text \<open>A poll error: the end of a partition, or a failure with its text and whether it is a message
  consumption error of code \<^verbatim>\<open>NotImplemented\<close>.\<close>

datatype poll_failure = PartitionEOF int | PollFailure string bool

definition describe_poll_error :: "string \<Rightarrow> string \<Rightarrow> bool \<Rightarrow> string" where
  "describe_poll_error features message not_implemented =
     (if \<not> not_implemented then message
      else case missing_from features of
        [] \<Rightarrow> message @ '' - this build decodes '' @ features
               @ '', so the batch is not simply using a codec that was left out of the build''
      | missing \<Rightarrow> message @ '' - this build of librdkafka is missing '' @ str_join '', '' missing
               @ '', and a topic compressed with one of those cannot be read at all. Compiled with: '' @ features)"

section \<open>The poll loop\<close>

type_synonym polled = "borrowed_message + poll_failure"

record poll_round =
  cancelled_now :: bool
  ready :: "nat \<Rightarrow> polled option"
  waited :: "nat \<Rightarrow> polled option"

definition IDLE_TIMEOUT :: nat where
  "IDLE_TIMEOUT = 10000"

definition POLL_TIMEOUT :: nat where
  "POLL_TIMEOUT = 500"

definition SHARDED_POLL_SLICE :: nat where
  "SHARDED_POLL_SLICE = 5"

definition poll_slice :: "nat \<Rightarrow> nat" where
  "poll_slice shards = (if shards = 1 then POLL_TIMEOUT else SHARDED_POLL_SLICE)"

definition wrapping_inc :: "nat \<Rightarrow> nat" where
  "wrapping_inc n = (n + 1) mod 2 ^ 64"

text \<open>\<^verbatim>\<open>unfinished -= 1\<close> on a \<^verbatim>\<open>usize\<close>.\<close>

definition wrapping_dec :: "nat \<Rightarrow> nat" where
  "wrapping_dec n = (n + (2 ^ 64 - 1)) mod 2 ^ 64"

fun sweep :: "nat \<Rightarrow> nat \<Rightarrow> nat \<Rightarrow> (nat \<Rightarrow> polled option) \<Rightarrow> polled option \<times> nat" where
  "sweep 0 shards next_shard poll = (None, next_shard)"
| "sweep (Suc k) shards next_shard poll =
     (case poll (next_shard mod shards) of
        Some message \<Rightarrow> (Some message, wrapping_inc next_shard)
      | None \<Rightarrow> sweep k shards (wrapping_inc next_shard) poll)"

definition poll_shards :: "nat \<Rightarrow> nat \<Rightarrow> poll_round \<Rightarrow> polled option \<times> nat" where
  "poll_shards shards next_shard round =
     (case sweep shards shards next_shard (ready round) of
        (Some message, next_shard) \<Rightarrow> (Some message, next_shard)
      | (None, next_shard) \<Rightarrow> (waited round (next_shard mod shards), wrapping_inc next_shard))"

record fetch_job =
  job_filter :: message_filter
  job_ends :: "(int \<times> int) list"
  job_budget :: "nat option"
  job_shards :: nat
  job_features :: string
  job_base64 :: "byte list \<Rightarrow> string"

record loop_state =
  collected :: "topic_message list"
  remaining :: "(int \<times> int) list"
  finished :: "int set"
  unfinished :: nat
  next_shard :: nat
  idle_elapsed :: nat
  last_poll_error :: "string option"
  bytes_read :: nat
  over_budget :: bool

definition finish_partition :: "int \<Rightarrow> loop_state \<Rightarrow> loop_state" where
  "finish_partition p s =
     (if p \<in> finished s then s
      else s\<lparr>finished := insert p (finished s), unfinished := wrapping_dec (unfinished s)\<rparr>)"

definition topic_message_of :: "fetch_job \<Rightarrow> borrowed_message \<Rightarrow> topic_message" where
  "topic_message_of job m =
     (let payload = (case bm_payload m of Some p \<Rightarrow> p | None \<Rightarrow> []) in
      \<lparr>tm_partition = bm_partition m, tm_offset = bm_offset m, tm_timestamp_ms = bm_timestamp m,
       tm_key_base64 = map_option (job_base64 job) (bm_key m),
       tm_payload_base64 =
         (if f_include_payload (job_filter job)
          then Some (job_base64 job (payload_preview_slice payload (f_max_payload_preview_bytes (job_filter job))))
          else None),
       tm_payload_size_bytes = map_option length (bm_payload m),
       tm_headers = extract_headers (job_base64 job) m\<rparr>)"

definition payload_len :: "borrowed_message \<Rightarrow> nat" where
  "payload_len m = (case bm_payload m of Some p \<Rightarrow> length p | None \<Rightarrow> 0)"

definition take_message :: "fetch_job \<Rightarrow> borrowed_message \<Rightarrow> int \<Rightarrow> loop_state \<Rightarrow> loop_state" where
  "take_message job m budget s =
     (let bytes = bytes_read s + budgeted_payload_bytes (payload_len m) (f_include_payload (job_filter job));
          s = s\<lparr>collected := collected s @ [topic_message_of job m],
                remaining := bt_insert (bm_partition m) (budget - 1) (remaining s),
                bytes_read := bytes\<rparr>;
          s = (if budget - 1 \<le> 0 then finish_partition (bm_partition m) s else s)
      in s\<lparr>over_budget := byte_budget_reached bytes (job_budget job)\<rparr>)"

definition on_message :: "fetch_job \<Rightarrow> borrowed_message \<Rightarrow> loop_state \<Rightarrow> loop_state" where
  "on_message job m s =
     (let s = s\<lparr>idle_elapsed := 0\<rparr>; p = bm_partition m in
      case bt_get (remaining s) p of
        None \<Rightarrow> s
      | Some budget \<Rightarrow>
          if budget \<le> 0 then s
          else case bt_get (job_ends job) p of
                 Some e \<Rightarrow> if e \<le> bm_offset m then finish_partition p s else take_message job m budget s
               | None \<Rightarrow> take_message job m budget s)"

definition on_polled :: "fetch_job \<Rightarrow> polled option \<Rightarrow> loop_state \<Rightarrow> loop_state" where
  "on_polled job polled s =
     (case polled of
        Some (Inl m) \<Rightarrow> on_message job m s
      | Some (Inr (PartitionEOF p)) \<Rightarrow> if bt_get (remaining s) p \<noteq> None then finish_partition p s else s
      | Some (Inr (PollFailure message not_implemented)) \<Rightarrow>
          s\<lparr>idle_elapsed := idle_elapsed s + poll_slice (job_shards job),
            last_poll_error := Some (describe_poll_error (job_features job) message not_implemented)\<rparr>
      | None \<Rightarrow> s\<lparr>idle_elapsed := idle_elapsed s + poll_slice (job_shards job)\<rparr>)"

definition running :: "int \<Rightarrow> loop_state \<Rightarrow> bool" where
  "running total_target s \<longleftrightarrow>
     0 < unfinished s \<and> int (length (collected s)) < total_target \<and> idle_elapsed s < IDLE_TIMEOUT
     \<and> \<not> over_budget s"

definition poll_once :: "fetch_job \<Rightarrow> poll_round \<Rightarrow> loop_state \<Rightarrow> loop_state" where
  "poll_once job round s =
     (let (polled, n) = poll_shards (job_shards job) (next_shard s) round
      in on_polled job polled (s\<lparr>next_shard := n\<rparr>))"

fun poll_loop :: "fetch_job \<Rightarrow> int \<Rightarrow> poll_round list \<Rightarrow> loop_state \<Rightarrow> loop_state option" where
  "poll_loop job total_target [] s = (if running total_target s then None else Some s)"
| "poll_loop job total_target (round # rounds) s =
     (if running total_target s \<and> \<not> cancelled_now round
      then poll_loop job total_target rounds (poll_once job round s)
      else Some s)"

definition start_loop :: "(int \<times> int) list \<Rightarrow> loop_state" where
  "start_loop limits =
     \<lparr>collected = [], remaining = limits, finished = {},
      unfinished = length (filter (\<lambda>(p, limit). 0 < limit) limits), next_shard = 0, idle_elapsed = 0,
      last_poll_error = None, bytes_read = 0, over_budget = False\<rparr>"

definition total_target :: "(int \<times> int) list \<Rightarrow> int" where
  "total_target limits = i64 (sum_list (map snd limits))"

section \<open>The whole fetch\<close>

text \<open>
  What the fetch asks of the client library: the pooled metadata client, a consumer for each shard,
  the metadata of the topic (names and partition ids), and whether a shard takes its assignment.
  \<open>stops k\<close> is what the \<open>k\<close>-th look at the cancellation flag before the loop sees.
\<close>

record fetch_services =
  pooled_client :: "report + unit"
  create_consumer :: "nat \<Rightarrow> report + unit"
  topic_metadata :: "report + (string \<times> int list) list"
  takes_assignment :: "nat \<Rightarrow> bool"
  stops :: "nat \<Rightarrow> bool"

definition target_partitions :: "message_filter \<Rightarrow> int list \<Rightarrow> int list" where
  "target_partitions flt topic_partitions =
     (case f_partitions flt of Some ps \<Rightarrow> ps | None \<Rightarrow> topic_partitions)"

fun build_shards :: "fetch_services \<Rightarrow> nat list \<Rightarrow> report + unit" where
  "build_shards sv [] = Inr ()"
| "build_shards sv (k # ks) = and_then (create_consumer sv k) (\<lambda>_. build_shards sv ks)"

text \<open>The assignment of shard \<open>k\<close> of \<open>n\<close>: every \<open>n\<close>-th working partition from position \<open>k\<close>.\<close>

definition deal_partitions :: "nat \<Rightarrow> (int \<times> int) list \<Rightarrow> (int \<times> int) list list" where
  "deal_partitions n pairs =
     map (\<lambda>k. map snd (filter (\<lambda>(position, pair). position mod n = k) (enumerate 0 pairs))) [0..<n]"

definition assigned_offsets :: "fetch_plan \<Rightarrow> (int \<times> int) list" where
  "assigned_offsets plan =
     map (\<lambda>p. (p, case bt_get (plan_starts plan) p of Some st \<Rightarrow> st | None \<Rightarrow> 0)) (working_partitions plan)"

definition assign_shards :: "broker \<Rightarrow> fetch_services \<Rightarrow> nat \<Rightarrow> fetch_plan \<Rightarrow> report + (int \<times> int) list list" where
  "assign_shards b sv n plan =
     (let pairs = assigned_offsets plan; assignments = deal_partitions n pairs in
      if \<not> list_all (\<lambda>(p, start). accepts_offset b start) pairs
      then Inl (fail_with Kafka ''failed to build partition assignment'')
      else Inr assignments)"

definition fetch_result_of :: "fetch_plan \<Rightarrow> loop_state \<Rightarrow> message_fetch_result" where
  "fetch_result_of plan s =
     \<lparr>messages = collected s, total_matching = plan_total_matching plan, poll_error = last_poll_error s,
      stopped_at_byte_budget = over_budget s, payload_bytes_read = bytes_read s\<rparr>"

definition run_fetch ::
    "broker \<Rightarrow> fetch_services \<Rightarrow> message_filter \<Rightarrow> u32 \<Rightarrow> nat option \<Rightarrow> string \<Rightarrow> (byte list \<Rightarrow> string)
      \<Rightarrow> poll_round list \<Rightarrow> fetch_plan \<Rightarrow> (report + message_fetch_result) option" where
  "run_fetch b sv flt max_message_size_bytes max_total_payload_bytes features base64 rounds plan =
     (let n = fetch_shard_count (length (working_partitions plan)) max_message_size_bytes in
      if 1 < n \<and> stops sv 3 then Some (Inr default_result)
      else case build_shards sv [1..<n] of
        Inl e \<Rightarrow> Some (Inl e)
      | Inr _ \<Rightarrow>
          (case assign_shards b sv n plan of
             Inl e \<Rightarrow> Some (Inl e)
           | Inr assignments \<Rightarrow>
               if stops sv 4 then Some (Inr default_result)
               else if \<not> list_all (\<lambda>(k, a). a = [] \<or> takes_assignment sv k) (enumerate 0 assignments)
               then Some (Inl (fail_with Kafka ''failed to assign partitions''))
               else
                 let job = \<lparr>job_filter = flt, job_ends = plan_ends plan, job_budget = max_total_payload_bytes,
                            job_shards = n, job_features = features, job_base64 = base64\<rparr>
                 in map_option (\<lambda>s. Inr (fetch_result_of plan s))
                      (poll_loop job (total_target (plan_limits plan)) rounds (start_loop (plan_limits plan)))))"

definition fetch_messages ::
    "broker \<Rightarrow> fetch_services \<Rightarrow> string \<Rightarrow> message_filter \<Rightarrow> u32 \<Rightarrow> nat option \<Rightarrow> string \<Rightarrow> (byte list \<Rightarrow> string)
      \<Rightarrow> poll_round list \<Rightarrow> (report + message_fetch_result) option" where
  "fetch_messages b sv topic flt max_message_size_bytes max_total_payload_bytes features base64 rounds =
     (case pooled_client sv of
        Inl e \<Rightarrow> Some (Inl e)
      | Inr _ \<Rightarrow>
          if stops sv 0 then Some (Inr default_result)
          else case create_consumer sv 0 of
            Inl e \<Rightarrow> Some (Inl e)
          | Inr _ \<Rightarrow>
              if stops sv 1 then Some (Inr default_result)
              else case and_then (topic_metadata sv) (find_topic topic) of
                Inl e \<Rightarrow> Some (Inl e)
              | Inr topic_partitions \<Rightarrow>
                  let targets = target_partitions flt topic_partitions in
                  (case watermarks_for_partitions b topic targets of
                     Inl e \<Rightarrow> Some (Inl e)
                   | Inr marks \<Rightarrow>
                       if stops sv 2 then Some (Inr default_result)
                       else case plan_fetch b topic flt targets marks of
                         Inl e \<Rightarrow> Some (Inl e)
                       | Inr plan \<Rightarrow>
                           run_fetch b sv flt max_message_size_bytes max_total_payload_bytes
                             features base64 rounds plan))"

section \<open>What the loop sees\<close>

text \<open>The polls the loop makes until it ends, and the messages among them.\<close>

fun poll_history :: "fetch_job \<Rightarrow> int \<Rightarrow> poll_round list \<Rightarrow> loop_state \<Rightarrow> polled option list" where
  "poll_history job target [] s = []"
| "poll_history job target (round # rounds) s =
     (if running target s \<and> \<not> cancelled_now round
      then fst (poll_shards (job_shards job) (next_shard s) round)
             # poll_history job target rounds (poll_once job round s)
      else [])"

fun message_of :: "polled option \<Rightarrow> borrowed_message list" where
  "message_of (Some (Inl m)) = [m]"
| "message_of _ = []"

definition wanted :: "fetch_job \<Rightarrow> int \<Rightarrow> borrowed_message \<Rightarrow> bool" where
  "wanted job p m \<longleftrightarrow>
     bm_partition m = p \<and> (case bt_get (job_ends job) p of Some e \<Rightarrow> bm_offset m < e | None \<Rightarrow> True)"

definition wanted_of :: "fetch_job \<Rightarrow> polled option list \<Rightarrow> int \<Rightarrow> borrowed_message list" where
  "wanted_of job hist p = filter (wanted job p) (concat (map message_of hist))"

text \<open>A partition is done when its window is full, its end has been reported, or a message past the
  end of the filter has arrived.\<close>

definition end_seen :: "fetch_job \<Rightarrow> polled option list \<Rightarrow> int \<Rightarrow> bool" where
  "end_seen job hist p \<longleftrightarrow>
     Some (Inr (PartitionEOF p)) \<in> set hist
     \<or> (\<exists>m\<in>set (concat (map message_of hist)). bm_partition m = p \<and> \<not> wanted job p m)"

text \<open>Only assigned partitions are polled from: what a consumer documents of its assignment.\<close>

definition working_set :: "(int \<times> int) list \<Rightarrow> int set" where
  "working_set limits = {p. \<exists>l. bt_get limits p = Some l \<and> 0 < l}"

fun polled_partition :: "polled \<Rightarrow> int option" where
  "polled_partition (Inl m) = Some (bm_partition m)"
| "polled_partition (Inr (PartitionEOF p)) = Some p"
| "polled_partition (Inr (PollFailure t b)) = None"

definition from_working :: "(int \<times> int) list \<Rightarrow> polled option \<Rightarrow> bool" where
  "from_working limits r \<longleftrightarrow> (\<forall>x p. r = Some x \<and> polled_partition x = Some p \<longrightarrow> p \<in> working_set limits)"

definition rounds_ok :: "(int \<times> int) list \<Rightarrow> poll_round list \<Rightarrow> bool" where
  "rounds_ok limits rounds \<longleftrightarrow>
     (\<forall>round\<in>set rounds. \<forall>k. from_working limits (ready round k) \<and> from_working limits (waited round k))"

definition limits_ok :: "(int \<times> int) list \<Rightarrow> bool" where
  "limits_ok limits \<longleftrightarrow> bt_ok limits \<and> (\<forall>(p, l)\<in>set limits. 0 \<le> l) \<and> length limits < 2 ^ 64"

definition from_partition :: "int \<Rightarrow> topic_message list \<Rightarrow> topic_message list" where
  "from_partition p coll = filter (\<lambda>m. tm_partition m = p) coll"

text \<open>The loop's bookkeeping after the polls \<open>hist\<close>: what was collected of each partition is the
  beginning of what is wanted of it, the rest of each window is what remains, and the finished
  partitions are those with a full window, and others only when their end was seen.\<close>

definition books_ok ::
    "fetch_job \<Rightarrow> (int \<times> int) list \<Rightarrow> polled option list \<Rightarrow> topic_message list \<Rightarrow> (int \<times> int) list
      \<Rightarrow> int set \<Rightarrow> nat \<Rightarrow> bool" where
  "books_ok job limits hist coll rem fin unf \<longleftrightarrow>
     (\<forall>p. bt_get rem p = map_option (\<lambda>l. l - int (length (from_partition p coll))) (bt_get limits p))
     \<and> (\<forall>p l. bt_get limits p = Some l \<longrightarrow>
          from_partition p coll = map (topic_message_of job) (take (nat l) (wanted_of job hist p)))
     \<and> (\<forall>m\<in>set coll. tm_partition m \<in> working_set limits)
     \<and> fin \<subseteq> working_set limits
     \<and> (\<forall>p\<in>fin. bt_get limits p = Some (int (length (from_partition p coll))) \<or> end_seen job hist p)
     \<and> (\<forall>p\<in>working_set limits. bt_get limits p = Some (int (length (from_partition p coll))) \<longrightarrow> p \<in> fin)
     \<and> unf = card (working_set limits - fin)"

definition loop_inv :: "fetch_job \<Rightarrow> (int \<times> int) list \<Rightarrow> polled option list \<Rightarrow> loop_state \<Rightarrow> bool" where
  "loop_inv job limits hist s \<longleftrightarrow>
     books_ok job limits hist (collected s) (remaining s) (finished s) (unfinished s)"

lemma books_ok_start:
  assumes "limits_ok limits"
  shows "loop_inv job limits [] (start_loop limits)"
proof -
  have "distinct (map fst limits)" using assms by (simp add: limits_ok_def bt_ok_distinct)
  then have eq: "working_set limits = fst ` set (filter (\<lambda>(p, l). 0 < l) limits)"
    and inj: "distinct (map fst (filter (\<lambda>(p, l). 0 < l) limits))"
    by (force simp: working_set_def, auto intro: distinct_map_filter)
  have "card (working_set limits) = length (filter (\<lambda>(p, l). 0 < l) limits)"
    unfolding eq using inj by (metis distinct_card length_map list.set_map)
  moreover have "l \<noteq> 0" if "p \<in> working_set limits" "bt_get limits p = Some l" for p l
    using that by (simp add: working_set_def)
  ultimately show ?thesis
    by (auto simp: loop_inv_def books_ok_def start_loop_def from_partition_def wanted_of_def option.map_ident)
qed

lemma card_working_le:
  assumes "limits_ok limits"
  shows "finite (working_set limits)" and "card (working_set limits) < 2 ^ 64"
proof -
  have sub: "working_set limits \<subseteq> set (map fst limits)"
    by (force simp: working_set_def dest: map_of_SomeD)
  then show "finite (working_set limits)" by (rule finite_subset) simp
  have "card (working_set limits) \<le> length limits"
    using card_mono [OF _ sub] card_length [of "map fst limits"] by simp
  then show "card (working_set limits) < 2 ^ 64" using assms by (simp add: limits_ok_def)
qed

lemma wrapping_dec_pos: "0 < n \<Longrightarrow> n < 2 ^ 64 \<Longrightarrow> wrapping_dec n = n - 1"
proof -
  assume n: "0 < n" "n < 2 ^ 64"
  then obtain k where k: "n = Suc k" by (cases n) auto
  have "n + (2 ^ 64 - 1) = k + 2 ^ 64" unfolding k by simp
  then have "wrapping_dec n = k mod 2 ^ 64" by (simp only: wrapping_dec_def mod_add_self2)
  then show ?thesis using n(2) k by simp
qed

lemma finish_partition_eq:
  assumes lim: "limits_ok limits" and u: "unfinished s = card (working_set limits - finished s)" and p: "p \<in> working_set limits"
  shows "finish_partition p s =
    s\<lparr>finished := insert p (finished s), unfinished := card (working_set limits - insert p (finished s))\<rparr>"
proof (cases "p \<in> finished s")
  case True
  then show ?thesis using u by (simp add: finish_partition_def insert_absorb)
next
  case False
  note card = card_working_le [OF lim]
  have pos: "0 < unfinished s" using False p card(1) by (auto simp: u card_gt_0_iff)
  have le: "unfinished s < 2 ^ 64"
    using card card_mono [OF card(1), of "working_set limits - finished s"] by (simp add: u)
  have "working_set limits - insert p (finished s) = (working_set limits - finished s) - {p}" by blast
  then have "unfinished s - 1 = card (working_set limits - insert p (finished s))"
    using False p card(1) by (simp add: u)
  then show ?thesis using False wrapping_dec_pos [OF pos le] by (simp add: finish_partition_def)
qed

lemma books_ok_finish:
  assumes inv: "books_ok job limits hist coll rem fin unf" and p: "p \<in> working_set limits"
    and why: "bt_get limits p = Some (int (length (from_partition p coll))) \<or> end_seen job hist p"
  shows "books_ok job limits hist coll rem (insert p fin) (card (working_set limits - insert p fin))"
  using inv p why unfolding books_ok_def by blast

lemma finish_partition_inv:
  assumes "limits_ok limits" and "loop_inv job limits hist s" and "p \<in> working_set limits"
    and "bt_get limits p = Some (int (length (from_partition p (collected s)))) \<or> end_seen job hist p"
  shows "loop_inv job limits hist (finish_partition p s)"
proof -
  have u: "unfinished s = card (working_set limits - finished s)"
    using assms(2) by (simp add: loop_inv_def books_ok_def)
  show ?thesis
    using books_ok_finish [OF assms(2) [unfolded loop_inv_def] assms(3,4)]
    by (simp add: finish_partition_eq [OF assms(1) u assms(3)] loop_inv_def)
qed

lemma wanted_of_snoc: "wanted_of job (hist @ [r]) p = wanted_of job hist p @ filter (wanted job p) (message_of r)"
  by (simp add: wanted_of_def)

lemma end_seen_mono: "end_seen job hist p \<Longrightarrow> end_seen job (hist @ [r]) p"
  by (auto simp: end_seen_def)

lemma books_ok_skip:
  assumes "books_ok job limits hist coll rem fin unf"
    and "\<And>p l. bt_get limits p = Some l \<Longrightarrow>
      take (nat l) (wanted_of job (hist @ [r]) p) = take (nat l) (wanted_of job hist p)"
  shows "books_ok job limits (hist @ [r]) coll rem fin unf"
proof -
  note inv = assms(1) [unfolded books_ok_def]
  show ?thesis
    unfolding books_ok_def
  proof (intro conjI)
    show "\<forall>p l. bt_get limits p = Some l \<longrightarrow>
        from_partition p coll = map (topic_message_of job) (take (nat l) (wanted_of job (hist @ [r]) p))"
      using inv assms(2) by metis
    show "\<forall>p\<in>fin. bt_get limits p = Some (int (length (from_partition p coll))) \<or> end_seen job (hist @ [r]) p"
      using inv end_seen_mono by blast
  qed (use inv in blast)+
qed

lemma books_ok_silent:
  assumes "books_ok job limits hist coll rem fin unf" and "message_of r = []"
  shows "books_ok job limits (hist @ [r]) coll rem fin unf"
  using assms(1) by (rule books_ok_skip) (simp add: wanted_of_snoc assms(2))

lemma books_ok_len:
  assumes "books_ok job limits hist coll rem fin unf" and "bt_get limits p = Some l" and "0 \<le> l"
  shows "length (from_partition p coll) = min (length (wanted_of job hist p)) (nat l)"
    and "bt_get rem p = Some (l - int (min (length (wanted_of job hist p)) (nat l)))"
proof -
  have "from_partition p coll = map (topic_message_of job) (take (nat l) (wanted_of job hist p))"
    using assms(1,2) unfolding books_ok_def by blast
  then show len: "length (from_partition p coll) = min (length (wanted_of job hist p)) (nat l)" by simp
  have "bt_get rem p = map_option (\<lambda>l. l - int (length (from_partition p coll))) (bt_get limits p)"
    using assms(1) unfolding books_ok_def by blast
  then show "bt_get rem p = Some (l - int (min (length (wanted_of job hist p)) (nat l)))"
    by (simp only: assms(2) option.map len)
qed

lemma books_ok_unassigned:
  assumes "books_ok job limits hist coll rem fin unf"
    and "case bt_get rem (bm_partition m) of None \<Rightarrow> True | Some b \<Rightarrow> b \<le> 0"
    and "\<forall>(p, l)\<in>set limits. 0 \<le> l"
  shows "books_ok job limits (hist @ [Some (Inl m)]) coll rem fin unf"
  using assms(1)
proof (rule books_ok_skip)
  fix p l
  assume l: "bt_get limits p = Some l"
  then have "0 \<le> l" using assms(3) by (auto dest: map_of_SomeD)
  note len = books_ok_len [OF assms(1) l this]
  show "take (nat l) (wanted_of job (hist @ [Some (Inl m)]) p) = take (nat l) (wanted_of job hist p)"
  proof (cases "bm_partition m = p")
    case True
    then have "nat l \<le> length (wanted_of job hist p)" using assms(2) len(2) \<open>0 \<le> l\<close> by simp
    then show ?thesis by (simp add: wanted_of_snoc)
  next
    case False
    then show ?thesis by (simp add: wanted_of_snoc wanted_def)
  qed
qed

lemma from_partition_snoc:
  "from_partition p (coll @ [m]) = from_partition p coll @ (if tm_partition m = p then [m] else [])"
  by (simp add: from_partition_def)

lemma tm_partition_of [simp]: "tm_partition (topic_message_of job m) = bm_partition m"
  by (simp add: topic_message_of_def Let_def)

lemma books_ok_take:
  assumes inv: "books_ok job limits hist coll rem fin unf" and lim: "\<forall>(p, l)\<in>set limits. 0 \<le> l"
    and b: "bt_get rem (bm_partition m) = Some b" "0 < b" and want: "wanted job (bm_partition m) m"
    and fin': "fin' = (if b - 1 \<le> 0 then insert (bm_partition m) fin else fin)"
  shows "books_ok job limits (hist @ [Some (Inl m)]) (coll @ [topic_message_of job m])
    (bt_insert (bm_partition m) (b - 1) rem) fin' (card (working_set limits - fin'))"
proof -
  let ?p = "bm_partition m"
  note i = inv [unfolded books_ok_def]
  have "bt_get rem ?p = map_option (\<lambda>l. l - int (length (from_partition ?p coll))) (bt_get limits ?p)"
    using i by blast
  then obtain l where l: "bt_get limits ?p = Some l" "b = l - int (length (from_partition ?p coll))"
    using b(1) by (cases "bt_get limits ?p") auto
  have "0 \<le> l" using lim l(1) by (auto dest: map_of_SomeD)
  note len = books_ok_len [OF inv l(1) this]
  have room: "length (wanted_of job hist ?p) < nat l" using b(2) l(2) len(1) by simp
  have pw: "?p \<in> working_set limits" using l(1) room by (simp add: working_set_def)
  show ?thesis
    unfolding books_ok_def
  proof (intro conjI allI ballI impI)
    fix q
    have "bt_get rem q = map_option (\<lambda>l. l - int (length (from_partition q coll))) (bt_get limits q)"
      using i by blast
    then show "bt_get (bt_insert ?p (b - 1) rem) q
        = map_option (\<lambda>l. l - int (length (from_partition q (coll @ [topic_message_of job m])))) (bt_get limits q)"
      using l by (simp add: from_partition_snoc)
  next
    fix q k assume k: "bt_get limits q = Some k"
    have old: "from_partition q coll = map (topic_message_of job) (take (nat k) (wanted_of job hist q))"
      using i k by blast
    show "from_partition q (coll @ [topic_message_of job m])
        = map (topic_message_of job) (take (nat k) (wanted_of job (hist @ [Some (Inl m)]) q))"
    proof (cases "q = ?p")
      case True
      then have "nat k = nat l" using k l(1) by simp
      then show ?thesis using True old room want by (simp add: from_partition_snoc wanted_of_snoc)
    next
      case False
      then show ?thesis using old by (simp add: from_partition_snoc wanted_of_snoc wanted_def)
    qed
  next
    fix t assume "t \<in> set (coll @ [topic_message_of job m])"
    then have "t \<in> set coll \<or> t = topic_message_of job m" by auto
    moreover have "\<forall>t\<in>set coll. tm_partition t \<in> working_set limits" using i by blast
    ultimately show "tm_partition t \<in> working_set limits" using pw by auto
  next
    have "fin \<subseteq> working_set limits" using i by blast
    then show "fin' \<subseteq> working_set limits" using pw by (auto simp: fin')
  next
    fix q assume q: "q \<in> fin'"
    show "bt_get limits q = Some (int (length (from_partition q (coll @ [topic_message_of job m]))))
        \<or> end_seen job (hist @ [Some (Inl m)]) q"
    proof (cases "q = ?p")
      case True
      show ?thesis
      proof (cases "q \<in> fin \<and> \<not> b - 1 \<le> 0")
        case True
        then have "bt_get limits q = Some (int (length (from_partition q coll))) \<or> end_seen job hist q" using i by blast
        then show ?thesis using \<open>q = ?p\<close> l b(2) end_seen_mono by auto
      next
        case False
        then have "b = 1" using q \<open>q = ?p\<close> b(2) by (auto simp: fin' split: if_splits)
        then show ?thesis using \<open>q = ?p\<close> l by (simp add: from_partition_snoc)
      qed
    next
      case False
      then have "q \<in> fin" using q by (simp add: fin' split: if_splits)
      then have "bt_get limits q = Some (int (length (from_partition q coll))) \<or> end_seen job hist q" using i by blast
      then show ?thesis using False end_seen_mono by (auto simp: from_partition_snoc)
    qed
  next
    fix q assume q: "q \<in> working_set limits"
      and full: "bt_get limits q = Some (int (length (from_partition q (coll @ [topic_message_of job m]))))"
    show "q \<in> fin'"
    proof (cases "q = ?p")
      case True
      then show ?thesis using full l by (simp add: from_partition_snoc fin')
    next
      case False
      then have "bt_get limits q = Some (int (length (from_partition q coll)))"
        using full by (simp add: from_partition_snoc)
      then have "q \<in> fin" using i q by blast
      then show ?thesis by (simp add: fin')
    qed
  qed (rule refl)
qed

lemma loop_inv_frame:
  "loop_inv job limits hist (s\<lparr>idle_elapsed := n\<rparr>) = loop_inv job limits hist s"
  "loop_inv job limits hist (s\<lparr>next_shard := k\<rparr>) = loop_inv job limits hist s"
  "loop_inv job limits hist (s\<lparr>last_poll_error := e\<rparr>) = loop_inv job limits hist s"
  "loop_inv job limits hist (s\<lparr>over_budget := b\<rparr>) = loop_inv job limits hist s"
  by (simp_all add: loop_inv_def)

lemma take_message_inv:
  assumes lim: "limits_ok limits" and inv: "loop_inv job limits hist s"
    and b: "bt_get (remaining s) (bm_partition m) = Some b" "0 < b" and want: "wanted job (bm_partition m) m"
    and p: "bm_partition m \<in> working_set limits"
  shows "loop_inv job limits (hist @ [Some (Inl m)]) (take_message job m b s)"
proof -
  let ?s = "s\<lparr>collected := collected s @ [topic_message_of job m],
      remaining := bt_insert (bm_partition m) (b - 1) (remaining s),
      bytes_read := bytes_read s + budgeted_payload_bytes (payload_len m) (f_include_payload (job_filter job))\<rparr>"
  let ?fin = "if b - 1 \<le> 0 then insert (bm_partition m) (finished s) else finished s"
  have u: "unfinished s = card (working_set limits - finished s)"
    using inv by (simp add: loop_inv_def books_ok_def)
  have books: "books_ok job limits (hist @ [Some (Inl m)]) (collected s @ [topic_message_of job m])
    (bt_insert (bm_partition m) (b - 1) (remaining s)) ?fin (card (working_set limits - ?fin))"
    using lim by (intro books_ok_take [OF inv [unfolded loop_inv_def] _ b want refl]) (simp add: limits_ok_def)
  have fin: "finish_partition (bm_partition m) ?s = ?s\<lparr>finished := insert (bm_partition m) (finished s),
      unfinished := card (working_set limits - insert (bm_partition m) (finished s))\<rparr>"
    using finish_partition_eq [OF lim _ p, of ?s] u by simp
  show ?thesis
  proof (cases "b - 1 \<le> 0")
    case True
    then show ?thesis
      using books by (simp add: take_message_def Let_def fin loop_inv_frame) (simp add: loop_inv_def)
  next
    case False
    then show ?thesis
      using books u by (simp add: take_message_def Let_def loop_inv_frame) (simp add: loop_inv_def)
  qed
qed

lemma wanted_self:
  "wanted job (bm_partition m) m \<longleftrightarrow>
    (case bt_get (job_ends job) (bm_partition m) of Some e \<Rightarrow> bm_offset m < e | None \<Rightarrow> True)"
  by (simp add: wanted_def)

lemma on_message_inv:
  assumes lim: "limits_ok limits" and inv: "loop_inv job limits hist s" and p: "bm_partition m \<in> working_set limits"
  shows "loop_inv job limits (hist @ [Some (Inl m)]) (on_message job m s)"
proof (cases "case bt_get (remaining s) (bm_partition m) of None \<Rightarrow> True | Some b \<Rightarrow> b \<le> 0")
  case True
  have "on_message job m s = s\<lparr>idle_elapsed := 0\<rparr>"
    using True by (auto simp: on_message_def Let_def split: option.splits)
  then show ?thesis
    using books_ok_unassigned [OF inv [unfolded loop_inv_def] True] lim
    by (simp add: loop_inv_def limits_ok_def)
next
  case False
  then obtain b where b: "bt_get (remaining s) (bm_partition m) = Some b" "0 < b"
    by (auto split: option.splits)
  have inv': "loop_inv job limits hist (s\<lparr>idle_elapsed := 0\<rparr>)" using inv by (simp add: loop_inv_frame)
  show ?thesis
  proof (cases "wanted job (bm_partition m) m")
    case True
    then have "on_message job m s = take_message job m b (s\<lparr>idle_elapsed := 0\<rparr>)"
      using b by (auto simp: on_message_def Let_def wanted_self split: option.splits)
    then show ?thesis using take_message_inv [OF lim inv' _ b(2) True p] b(1) by simp
  next
    case False
    then have eq: "on_message job m s = finish_partition (bm_partition m) (s\<lparr>idle_elapsed := 0\<rparr>)"
      using b by (auto simp: on_message_def Let_def wanted_self split: option.splits)
    have "filter (wanted job q) [m] = []" for q
      using False by (auto simp: wanted_def)
    then have "books_ok job limits (hist @ [Some (Inl m)]) (collected s) (remaining s) (finished s) (unfinished s)"
      by (intro books_ok_skip [OF inv [unfolded loop_inv_def]]) (simp add: wanted_of_snoc)
    then have "loop_inv job limits (hist @ [Some (Inl m)]) (s\<lparr>idle_elapsed := 0\<rparr>)"
      by (simp add: loop_inv_def)
    moreover have "end_seen job (hist @ [Some (Inl m)]) (bm_partition m)"
      using False by (simp add: end_seen_def)
    ultimately show ?thesis unfolding eq by (intro finish_partition_inv [OF lim _ p] disjI2)
  qed
qed

lemma on_polled_inv:
  assumes lim: "limits_ok limits" and inv: "loop_inv job limits hist s" and ok: "from_working limits r"
  shows "loop_inv job limits (hist @ [r]) (on_polled job r s)"
proof -
  have silent: "loop_inv job limits (hist @ [r]) s" if "message_of r = []"
    using books_ok_silent [OF inv [unfolded loop_inv_def] that] by (simp add: loop_inv_def)
  show ?thesis
  proof (cases r)
    case None
    then show ?thesis using silent by (simp add: on_polled_def loop_inv_frame)
  next
    case (Some x)
    show ?thesis
    proof (cases x)
      case (Inl m)
      then show ?thesis
        using Some ok on_message_inv [OF lim inv] by (simp add: on_polled_def from_working_def)
    next
      case (Inr f)
      show ?thesis
      proof (cases f)
        case (PartitionEOF p)
        then have "p \<in> working_set limits" "end_seen job (hist @ [r]) p"
          using Some Inr ok by (simp_all add: from_working_def end_seen_def)
        then show ?thesis
          using Some Inr PartitionEOF silent finish_partition_inv [OF lim]
          by (simp add: on_polled_def)
      next
        case (PollFailure t b)
        then show ?thesis using Some Inr silent by (simp add: on_polled_def loop_inv_frame)
      qed
    qed
  qed
qed

lemma sweep_from:
  assumes "\<And>k. from_working limits (poll k)"
  shows "from_working limits (fst (sweep n shards k0 poll))"
proof (induction n arbitrary: k0)
  case 0
  show ?case by (simp add: from_working_def)
next
  case (Suc n)
  show ?case
  proof (cases "poll (k0 mod shards)")
    case None
    then show ?thesis using Suc.IH by simp
  next
    case (Some r)
    then show ?thesis using assms [of "k0 mod shards"] by simp
  qed
qed

lemma poll_shards_from:
  assumes "\<And>k. from_working limits (ready round k)" and "\<And>k. from_working limits (waited round k)"
  shows "from_working limits (fst (poll_shards shards k0 round))"
  using sweep_from [of limits "ready round" shards shards k0] assms
  by (auto simp: poll_shards_def split: prod.splits option.splits)

lemma poll_loop_inv:
  assumes "limits_ok limits"
  shows "loop_inv job limits hist s \<Longrightarrow> rounds_ok limits rounds \<Longrightarrow> poll_loop job target rounds s = Some out \<Longrightarrow>
    loop_inv job limits (hist @ poll_history job target rounds s) out
    \<and> (running target out \<longrightarrow> (\<exists>round\<in>set rounds. cancelled_now round))"
proof (induction job target rounds s arbitrary: hist rule: poll_loop.induct)
  case (1 job target s)
  then show ?case by (auto split: if_splits)
next
  case (2 job target round rounds s)
  show ?case
  proof (cases "running target s \<and> \<not> cancelled_now round")
    case True
    obtain r k where rk: "poll_shards (job_shards job) (next_shard s) round = (r, k)" by fastforce
    have ok: "from_working limits r"
      using poll_shards_from [of limits round "job_shards job" "next_shard s"] "2.prems"(2) rk
      by (simp add: rounds_ok_def)
    have step: "loop_inv job limits (hist @ [r]) (poll_once job round s)"
      using on_polled_inv [OF assms _ ok, of job hist "s\<lparr>next_shard := k\<rparr>"] "2.prems"(1)
      by (simp add: poll_once_def rk loop_inv_frame)
    have rest: "rounds_ok limits rounds" "poll_loop job target rounds (poll_once job round s) = Some out"
      using "2.prems"(2,3) True by (simp_all add: rounds_ok_def)
    from "2.IH" [OF True step rest] show ?thesis using True rk by simp
  next
    case False
    then have "out = s" using "2.prems"(3) by (simp split: if_splits)
    then show ?thesis using False "2.prems"(1) by auto
  qed
qed

lemma loop_result:
  assumes "limits_ok limits" and "rounds_ok limits rounds" and "poll_loop job target rounds (start_loop limits) = Some out"
  shows "loop_inv job limits (poll_history job target rounds (start_loop limits)) out"
    and "running target out \<longrightarrow> (\<exists>round\<in>set rounds. cancelled_now round)"
  using poll_loop_inv [OF assms(1) books_ok_start [OF assms(1)] assms(2,3)] by simp_all

section \<open>Budgets and the end of the loop\<close>

lemma poll_loop_preserves:
  assumes "\<And>round s. P s \<Longrightarrow> running target s \<Longrightarrow> P (poll_once job round s)"
  shows "P s \<Longrightarrow> poll_loop job target rounds s = Some out \<Longrightarrow> P out"
proof (induction rounds arbitrary: s)
  case Nil
  then show ?case by (auto split: if_splits)
next
  case (Cons round rounds)
  then show ?case
    using assms [of s round] by (cases "running target s \<and> \<not> cancelled_now round") (auto split: if_splits)
qed

definition kept_bytes :: "fetch_job \<Rightarrow> topic_message list \<Rightarrow> nat" where
  "kept_bytes job coll =
     (if f_include_payload (job_filter job)
      then \<Sum>m\<leftarrow>coll. (case tm_payload_size_bytes m of Some n \<Rightarrow> n | None \<Rightarrow> 0) else 0)"

lemma kept_bytes_snoc:
  "kept_bytes job (coll @ [topic_message_of job m])
     = kept_bytes job coll + budgeted_payload_bytes (payload_len m) (f_include_payload (job_filter job))"
  by (auto simp: kept_bytes_def topic_message_of_def payload_len_def budgeted_payload_bytes_def Let_def split: option.split)

definition budget_inv :: "fetch_job \<Rightarrow> int \<Rightarrow> loop_state \<Rightarrow> bool" where
  "budget_inv job target s \<longleftrightarrow>
     bytes_read s = kept_bytes job (collected s)
     \<and> over_budget s = (collected s \<noteq> [] \<and> byte_budget_reached (bytes_read s) (job_budget job))
     \<and> (length (collected s) \<le> 1 \<or> \<not> byte_budget_reached (kept_bytes job (butlast (collected s))) (job_budget job))
     \<and> int (length (collected s)) \<le> max target 0"

text \<open>A poll leaves the messages alone or takes one more.\<close>

lemma finish_partition_frame [simp]:
  "collected (finish_partition p s) = collected s" "bytes_read (finish_partition p s) = bytes_read s"
  "over_budget (finish_partition p s) = over_budget s" "idle_elapsed (finish_partition p s) = idle_elapsed s"
  "remaining (finish_partition p s) = remaining s" "finished (finish_partition p s) = insert p (finished s)"
  by (auto simp: finish_partition_def)

lemma on_message_cases:
  "on_message job m s = s\<lparr>idle_elapsed := 0\<rparr>
    \<or> on_message job m s = finish_partition (bm_partition m) (s\<lparr>idle_elapsed := 0\<rparr>)
    \<or> (\<exists>b. on_message job m s = take_message job m b (s\<lparr>idle_elapsed := 0\<rparr>))"
  by (auto simp: on_message_def Let_def split: option.split)

lemma on_polled_cases:
  obtains (kept) "collected (on_polled job r s) = collected s" "bytes_read (on_polled job r s) = bytes_read s"
      "over_budget (on_polled job r s) = over_budget s"
  | (taken) m where "collected (on_polled job r s) = collected s @ [topic_message_of job m]"
      "bytes_read (on_polled job r s)
        = bytes_read s + budgeted_payload_bytes (payload_len m) (f_include_payload (job_filter job))"
      "over_budget (on_polled job r s) = byte_budget_reached (bytes_read (on_polled job r s)) (job_budget job)"
proof (cases r)
  case None
  then show thesis using kept by (simp add: on_polled_def)
next
  case (Some x)
  show thesis
  proof (cases x)
    case (Inr f)
    then show thesis using kept Some by (cases f) (auto simp: on_polled_def split: if_splits)
  next
    case (Inl m)
    from on_message_cases [of job m s] show thesis
      using kept taken [of m] Some Inl by (elim disjE exE) (auto simp: on_polled_def take_message_def Let_def)
  qed
qed

lemma budget_inv_step:
  assumes inv: "budget_inv job target s" and run: "running target s"
  shows "budget_inv job target (on_polled job r s)"
proof (cases rule: on_polled_cases [of job r s])
  case kept
  then show ?thesis using inv by (simp add: budget_inv_def)
next
  case (taken m)
  have below: "collected s = [] \<or> \<not> byte_budget_reached (kept_bytes job (collected s)) (job_budget job)"
    using inv run by (auto simp: budget_inv_def running_def)
  show ?thesis
    using taken inv run below by (auto simp: budget_inv_def kept_bytes_snoc running_def)
qed

lemma budget_inv_once: "budget_inv job target s \<Longrightarrow> running target s \<Longrightarrow> budget_inv job target (poll_once job round s)"
  unfolding poll_once_def
  by (cases "poll_shards (job_shards job) (next_shard s) round")
    (simp, rule budget_inv_step, auto simp: budget_inv_def running_def)

lemma budget_inv_start: "budget_inv job target (start_loop limits)"
  by (simp add: budget_inv_def start_loop_def kept_bytes_def)

lemma budget_result: "poll_loop job target rounds (start_loop limits) = Some out \<Longrightarrow> budget_inv job target out"
  using poll_loop_preserves [of "budget_inv job target", OF budget_inv_once budget_inv_start] by blast

lemma on_message_grow: "finished s \<subseteq> finished (on_message job m s)"
  using on_message_cases [of job m s] by (elim disjE exE) (auto simp: take_message_def Let_def)

lemma on_polled_grow: "finished s \<subseteq> finished (on_polled job r s)"
  using on_message_grow by (auto simp: on_polled_def split: option.split sum.split poll_failure.split)

text \<open>Out of rounds, the loop has made a poll in each.\<close>

lemma poll_loop_None:
  assumes "limits_ok limits"
  shows "loop_inv job limits hist s \<Longrightarrow> rounds_ok limits rounds \<Longrightarrow> poll_loop job target rounds s = None \<Longrightarrow>
    \<forall>p\<in>working_set limits. Some (Inr (PartitionEOF p)) \<in> set hist \<longrightarrow> p \<in> finished s \<Longrightarrow>
    \<exists>p\<in>working_set limits. Some (Inr (PartitionEOF p)) \<notin> set (hist @ poll_history job target rounds s)"
proof (induction job target rounds s arbitrary: hist rule: poll_loop.induct)
  case (1 job target s)
  then have "0 < unfinished s" by (simp add: running_def split: if_splits)
  then have "\<not> working_set limits \<subseteq> finished s"
    using "1.prems"(1) by (auto simp: loop_inv_def books_ok_def card_gt_0_iff)
  then show ?case using "1.prems"(4) by auto
next
  case (2 job target round rounds s)
  have go: "running target s \<and> \<not> cancelled_now round" using "2.prems"(3) by (simp split: if_splits)
  obtain r k where rk: "poll_shards (job_shards job) (next_shard s) round = (r, k)" by fastforce
  have ok: "from_working limits r"
    using poll_shards_from [of limits round "job_shards job" "next_shard s"] "2.prems"(2) rk
    by (simp add: rounds_ok_def)
  let ?s = "s\<lparr>next_shard := k\<rparr>"
  have once: "poll_once job round s = on_polled job r ?s" by (simp add: poll_once_def rk)
  have step: "loop_inv job limits (hist @ [r]) (poll_once job round s)"
    unfolding once using on_polled_inv [OF assms _ ok] "2.prems"(1) by (simp add: loop_inv_frame)
  have grow: "finished s \<subseteq> finished (poll_once job round s)"
    unfolding once using on_polled_grow [of ?s job r] by simp
  have rem: "bt_get (remaining s) p \<noteq> None" if "p \<in> working_set limits" for p
  proof -
    have "bt_get (remaining s) p = map_option (\<lambda>l. l - int (length (from_partition p (collected s)))) (bt_get limits p)"
      using "2.prems"(1) unfolding loop_inv_def books_ok_def by blast
    then show ?thesis using that by (auto simp: working_set_def)
  qed
  have eofs: "\<forall>p\<in>working_set limits. Some (Inr (PartitionEOF p)) \<in> set (hist @ [r]) \<longrightarrow> p \<in> finished (poll_once job round s)"
    using "2.prems"(4) grow rem unfolding once by (auto simp: on_polled_def)
  have rest: "rounds_ok limits rounds" "poll_loop job target rounds (poll_once job round s) = None"
    using "2.prems"(2,3) go by (simp_all add: rounds_ok_def)
  from "2.IH" [OF go step rest eofs] show ?case using go rk by simp
qed

definition quiet :: "poll_round \<Rightarrow> bool" where
  "quiet round \<longleftrightarrow> (\<forall>k. ready round k = None \<and> waited round k = None)"

lemma quiet_polls_None: "quiet round \<Longrightarrow> \<exists>k. poll_shards shards k0 round = (None, k)"
proof -
  assume q: "quiet round"
  have "fst (sweep n shards k0 (ready round)) = None" for n k0
    using q by (induction n arbitrary: k0) (simp_all add: quiet_def)
  then have "\<exists>k. sweep shards shards k0 (ready round) = (None, k)" by (metis surj_pair fst_conv)
  then show ?thesis using q by (auto simp: poll_shards_def quiet_def)
qed

lemma quiet_ends:
  "(\<forall>round\<in>set rounds. quiet round) \<Longrightarrow> IDLE_TIMEOUT \<le> idle_elapsed s + length rounds * poll_slice (job_shards job) \<Longrightarrow>
    poll_loop job target rounds s \<noteq> None"
proof (induction rounds arbitrary: s)
  case Nil
  then show ?case by (simp add: running_def)
next
  case (Cons round rounds)
  obtain k where "poll_shards (job_shards job) (next_shard s) round = (None, k)"
    using quiet_polls_None Cons.prems(1) by (metis list.set_intros(1))
  then have "poll_once job round s = s\<lparr>next_shard := k, idle_elapsed := idle_elapsed s + poll_slice (job_shards job)\<rparr>"
    by (simp add: poll_once_def on_polled_def)
  then have "idle_elapsed (poll_once job round s) = idle_elapsed s + poll_slice (job_shards job)" by simp
  then have "poll_loop job target rounds (poll_once job round s) \<noteq> None"
    using Cons.IH [of "poll_once job round s"] Cons.prems by (simp add: algebra_simps)
  then show ?case by simp
qed

lemma ends_after_quiet:
  "(\<forall>round\<in>set rest. quiet round) \<Longrightarrow> IDLE_TIMEOUT \<le> length rest * poll_slice (job_shards job) \<Longrightarrow>
    poll_loop job target (rounds @ rest) s \<noteq> None"
proof (induction rounds arbitrary: s)
  case Nil
  then show ?case using quiet_ends [of rest s job target] by simp
next
  case (Cons round rounds)
  then show ?case by simp
qed

section \<open>Dealing partitions to shards\<close>

lemma deal_mset:
  assumes "0 < n"
  shows "mset (concat (deal_partitions n pairs)) = mset pairs"
proof -
  have "(\<Sum>k\<leftarrow>[0..<n]. mset (map snd (filter (\<lambda>(i, x). i mod n = k) ips))) = mset (map snd ips)" for ips :: "(nat \<times> int \<times> int) list"
  proof (induction ips)
    case (Cons ip ips)
    obtain i x where ip: "ip = (i, x)" by (cases ip)
    have "(\<Sum>k\<leftarrow>[0..<n]. mset (map snd (filter (\<lambda>(i, x). i mod n = k) (ip # ips))))
        = (\<Sum>k\<leftarrow>[0..<n]. (if i mod n = k then {#x#} else {#}) + mset (map snd (filter (\<lambda>(i, x). i mod n = k) ips)))"
      by (intro arg_cong [of _ _ sum_list] map_cong refl) (simp add: ip)
    also have "\<dots> = (\<Sum>k\<leftarrow>[0..<n]. if i mod n = k then {#x#} else {#})
        + (\<Sum>k\<leftarrow>[0..<n]. mset (map snd (filter (\<lambda>(i, x). i mod n = k) ips)))"
      by (rule sum_list_addf)
    also have "(\<Sum>k\<leftarrow>[0..<n]. if i mod n = k then {#x#} else {#}) = {#x#}"
      using assms by (simp add: sum_list_distinct_conv_sum_set sum.delta)
    finally show ?case using Cons.IH by (simp add: ip)
  qed simp
  from this [of "enumerate 0 pairs"] show ?thesis
    by (simp add: deal_partitions_def mset_concat comp_def)
qed

section \<open>Counting over partitions\<close>

lemma length_by_partition:
  assumes "finite A" and "\<forall>m\<in>set coll. tm_partition m \<in> A"
  shows "length coll = (\<Sum>p\<in>A. length (from_partition p coll))"
  using assms(2)
proof (induction coll)
  case (Cons m coll)
  have "(\<Sum>p\<in>A. length (from_partition p (m # coll)))
      = (\<Sum>p\<in>A. (if p = tm_partition m then 1 else 0) + length (from_partition p coll))"
    by (intro sum.cong) (auto simp: from_partition_def)
  also have "\<dots> = 1 + (\<Sum>p\<in>A. length (from_partition p coll))"
    using assms(1) Cons.prems by (simp add: sum.distrib)
  finally show ?case using Cons by simp
qed (simp add: from_partition_def)

lemma sum_limits_working:
  assumes "limits_ok limits"
  shows "sum_list (map snd limits) = (\<Sum>p\<in>working_set limits. the (bt_get limits p))"
proof -
  have fin: "finite (fst ` set limits)" and sub: "working_set limits \<subseteq> fst ` set limits"
    by (auto simp: working_set_def dest: map_of_SomeD intro: rev_image_eqI)
  have zero: "the (bt_get limits p) = 0" if p: "p \<in> fst ` set limits - working_set limits" for p
  proof -
    obtain l where l: "bt_get limits p = Some l" using p by (metis DiffD1 map_of_eq_None_iff not_None_eq)
    then have "0 \<le> l" using assms by (auto simp: limits_ok_def dest: map_of_SomeD)
    then show ?thesis using p l by (auto simp: working_set_def)
  qed
  have "sum_list (map snd limits) = (\<Sum>p\<in>fst ` set limits. the (bt_get limits p))"
    using assms by (intro sum_list_map_of bt_ok_distinct) (simp add: limits_ok_def)
  also have "\<dots> = (\<Sum>p\<in>working_set limits. the (bt_get limits p))"
    using fin sub zero by (intro sum.mono_neutral_right) auto
  finally show ?thesis .
qed

lemma inv_from_le:
  assumes "loop_inv job limits hist s" and "bt_get limits p = Some l" and "0 \<le> l"
  shows "int (length (from_partition p (collected s))) \<le> l"
  using books_ok_len(1) [OF assms(1) [unfolded loop_inv_def] assms(2,3)] assms(3) by simp

text \<open>When as many messages are there as all windows hold, every window is full.\<close>

lemma all_full:
  assumes lim: "limits_ok limits" and inv: "loop_inv job limits hist s"
    and len: "sum_list (map snd limits) \<le> int (length (collected s))" and p: "p \<in> working_set limits"
  shows "bt_get limits p = Some (int (length (from_partition p (collected s))))"
proof -
  let ?got = "\<lambda>p. int (length (from_partition p (collected s)))"
  let ?lim = "\<lambda>p. the (bt_get limits p)"
  have fin: "finite (working_set limits)" by (rule card_working_le(1) [OF lim])
  have mem: "\<forall>m\<in>set (collected s). tm_partition m \<in> working_set limits"
    using inv unfolding loop_inv_def books_ok_def by blast
  have le: "?got q \<le> ?lim q" if "q \<in> working_set limits" for q
    using inv_from_le [OF inv, of q] that by (auto simp: working_set_def)
  have "(\<Sum>q\<in>working_set limits. ?lim q) \<le> (\<Sum>q\<in>working_set limits. ?got q)"
    using len length_by_partition [OF fin mem] sum_limits_working [OF lim] by simp
  then have "?got q = ?lim q" if "q \<in> working_set limits" for q
    using le sum_mono_inv [of ?got "working_set limits" ?lim q] that fin sum_mono [of "working_set limits" ?got ?lim]
    by (meson order_antisym)
  with p show ?thesis by (auto simp: working_set_def)
qed

section \<open>Properties\<close>

text \<open>A small fetch: two partitions, a message of the first and the end of the second.\<close>

definition yields :: "polled option \<Rightarrow> poll_round" where
  "yields r = \<lparr>cancelled_now = False, ready = \<lambda>k. r, waited = \<lambda>k. None\<rparr>"

definition small_message :: borrowed_message where
  "small_message = \<lparr>bm_partition = 0, bm_offset = 9, bm_timestamp = None, bm_key = None,
     bm_payload = Some [104, 105], bm_headers = None\<rparr>"

definition small_job :: fetch_job where
  "small_job = \<lparr>job_filter = default_filter\<lparr>f_include_payload := True\<rparr>, job_ends = [(0, 10), (1, 10)],
     job_budget = Some 100, job_shards = 1, job_features = [], job_base64 = chars_of\<rparr>"

definition small_limits :: "(int \<times> int) list" where
  "small_limits = [(0, 1), (1, 2)]"

definition small_rounds :: "poll_round list" where
  "small_rounds = [yields (Some (Inl small_message)), yields (Some (Inr (PartitionEOF 1)))]"

lemma small_ok: "limits_ok small_limits" "rounds_ok small_limits small_rounds"
  by (auto simp: limits_ok_def small_limits_def bt_ok_def rounds_ok_def small_rounds_def yields_def from_working_def
      small_message_def working_set_def)

lemma small_run:
  "\<exists>out. poll_loop small_job 3 small_rounds (start_loop small_limits) = Some out
    \<and> map tm_offset (collected out) = [9] \<and> idle_elapsed out = 0 \<and> bytes_read out = 2 \<and> \<not> over_budget out
    \<and> finished out = {0, 1}"
  by (simp add: small_rounds_def small_limits_def start_loop_def running_def yields_def poll_once_def poll_shards_def
      small_job_def small_message_def on_polled_def on_message_def take_message_def finish_partition_def Let_def
      wrapping_dec_def wrapping_inc_def budgeted_payload_bytes_def payload_len_def byte_budget_reached_def
      topic_message_of_def IDLE_TIMEOUT_def default_filter_def insert_commute)

lemma small_target: "total_target small_limits = 3"
  by (simp add: total_target_def small_limits_def i64_def)

text \<open>C2: The poll loop keeps exactly what the filter asks for, whatever the timing, the errors and the
  shards the messages come from: of every partition it collects the first messages polled from it
  before the end of the filter, in their order and up to the partition's limit, and nothing else.\<close>
theorem fetch_keeps_exactly_the_wanted:
  assumes "limits_ok limits" and "rounds_ok limits rounds" and "poll_loop job target rounds (start_loop limits) = Some out"
    and "bt_get limits p = Some l"
  shows "filter (\<lambda>m. tm_partition m = p) (collected out)
      = map (topic_message_of job) (take (nat l) (wanted_of job (poll_history job target rounds (start_loop limits)) p))
    \<and> (\<forall>m\<in>set (collected out). tm_partition m \<in> working_set limits)"
  using loop_result(1) [OF assms(1-3)] assms(4) unfolding loop_inv_def books_ok_def from_partition_def by blast

theorem fetch_keeps_exactly_the_wanted_witness:
  "\<exists>out. poll_loop small_job 3 small_rounds (start_loop small_limits) = Some out
    \<and> filter (\<lambda>m. tm_partition m = 1) (collected out)
      = map (topic_message_of small_job) (take 2 (wanted_of small_job (poll_history small_job 3 small_rounds (start_loop small_limits)) 1))"
proof -
  obtain out where out: "poll_loop small_job 3 small_rounds (start_loop small_limits) = Some out"
    using small_run by blast
  have "bt_get small_limits 1 = Some 2" by (simp add: small_limits_def)
  from fetch_keeps_exactly_the_wanted [OF small_ok out this] out show ?thesis by simp
qed



text \<open>The byte budget stops a fetch right after the message that reaches it, never before one: without
  its last message a fetch is below the budget, the bytes it reports are the payload sizes of what it
  returns, a fetch without payloads is charged nothing, and no fetch returns more than its target.\<close>
theorem byte_budget_one_over:
  assumes "poll_loop job target rounds (start_loop limits) = Some out"
  shows "bytes_read out = kept_bytes job (collected out)
    \<and> (length (collected out) \<le> 1 \<or> \<not> byte_budget_reached (kept_bytes job (butlast (collected out))) (job_budget job))
    \<and> (f_include_payload (job_filter job) \<or> bytes_read out = 0)
    \<and> over_budget out = (collected out \<noteq> [] \<and> byte_budget_reached (bytes_read out) (job_budget job))
    \<and> int (length (collected out)) \<le> max target 0"
  using budget_result [OF assms] by (auto simp: budget_inv_def kept_bytes_def)

theorem byte_budget_one_over_witness:
  "\<exists>out. poll_loop small_job 3 small_rounds (start_loop small_limits) = Some out
    \<and> kept_bytes small_job (collected out) = 2"
proof -
  obtain out where out: "poll_loop small_job 3 small_rounds (start_loop small_limits) = Some out" "bytes_read out = 2"
    using small_run by blast
  from byte_budget_one_over [OF out(1)] out show ?thesis by simp
qed

text \<open>C31: The poll loop ends: it returns once the end of every partition it reads has been reported, and
  after ten seconds of silence at the latest, whatever came before.\<close>
theorem poll_loop_ends:
  assumes "limits_ok limits" and "rounds_ok limits rounds"
    and "(\<forall>p\<in>working_set limits. Some (Inr (PartitionEOF p)) \<in> set (poll_history job target rounds (start_loop limits)))
      \<or> (\<exists>before rest. rounds = before @ rest \<and> (\<forall>round\<in>set rest. quiet round)
           \<and> 10000 \<le> length rest * poll_slice (job_shards job))"
  shows "poll_loop job target rounds (start_loop limits) \<noteq> None"
  using assms(3)
proof (elim disjE exE conjE)
  assume "\<forall>p\<in>working_set limits. Some (Inr (PartitionEOF p)) \<in> set (poll_history job target rounds (start_loop limits))"
  then show ?thesis
    using poll_loop_None [OF assms(1) books_ok_start [OF assms(1)] assms(2), of job target] by auto
next
  fix before rest
  assume "rounds = before @ rest" "\<forall>round\<in>set rest. quiet round" "10000 \<le> length rest * poll_slice (job_shards job)"
  then show ?thesis using ends_after_quiet [of rest job target before] by (simp add: IDLE_TIMEOUT_def)
qed

theorem poll_loop_ends_witness:
  "poll_loop small_job 3 (replicate 20 (yields None)) (start_loop small_limits) \<noteq> None"
proof (rule poll_loop_ends [OF small_ok(1)])
  show "rounds_ok small_limits (replicate 20 (yields None))"
    by (simp add: rounds_ok_def yields_def from_working_def)
  have "replicate 20 (yields None) = [] @ replicate 20 (yields None) \<and> (\<forall>round\<in>set (replicate 20 (yields None)). quiet round)
      \<and> 10000 \<le> length (replicate 20 (yields None)) * poll_slice (job_shards small_job)"
    by (simp add: quiet_def yields_def poll_slice_def POLL_TIMEOUT_def small_job_def)
  then show "(\<forall>p\<in>working_set small_limits. Some (Inr (PartitionEOF p))
        \<in> set (poll_history small_job 3 (replicate 20 (yields None)) (start_loop small_limits)))
      \<or> (\<exists>before rest. replicate 20 (yields None) = before @ rest \<and> (\<forall>round\<in>set rest. quiet round)
           \<and> 10000 \<le> length rest * poll_slice (job_shards small_job))"
    by blast
qed

text \<open>Splitting a fetch over several consumers loses and repeats nothing: every partition to read is
  assigned to exactly one shard, with its own start offset.\<close>
theorem shards_partition_the_work:
  assumes "assign_shards b sv n plan = Inr assignments" and "0 < n"
  shows "mset (concat assignments) = mset (assigned_offsets plan) \<and> length assignments = n
    \<and> (\<forall>k<n. assignments ! k
         = map (\<lambda>i. assigned_offsets plan ! i) (filter (\<lambda>i. i mod n = k) [0..<length (assigned_offsets plan)]))"
proof -
  have a: "assignments = deal_partitions n (assigned_offsets plan)"
    using assms(1) by (auto simp: assign_shards_def Let_def split: if_splits)
  have nth: "deal_partitions n xs ! k = map (\<lambda>i. xs ! i) (filter (\<lambda>i. i mod n = k) [0..<length xs])" if "k < n" for xs k
  proof -
    have "enumerate 0 xs = map (\<lambda>i. (i, xs ! i)) [0..<length xs]"
      by (rule nth_equalityI) (simp_all add: nth_enumerate_eq)
    then show ?thesis using that by (simp add: deal_partitions_def filter_map comp_def)
  qed
  show ?thesis unfolding a using deal_mset [OF assms(2)] nth by (simp add: deal_partitions_def)
qed

theorem shards_partition_the_work_witness:
  "\<exists>assignments. assign_shards quiet_broker
      \<lparr>pooled_client = Inr (), create_consumer = \<lambda>k. Inr (), topic_metadata = Inr [], takes_assignment = \<lambda>k. True, stops = \<lambda>k. False\<rparr>
      2 \<lparr>plan_total_matching = 3, plan_starts = [(0, 7), (1, 8), (2, 9)], plan_ends = [], plan_limits = [(0, 1), (1, 1), (2, 1)]\<rparr>
    = Inr assignments \<and> length assignments = 2"
proof -
  let ?sv = "\<lparr>pooled_client = Inr (), create_consumer = \<lambda>k. Inr (), topic_metadata = Inr [], takes_assignment = \<lambda>k. True, stops = \<lambda>k. False\<rparr>"
  let ?plan = "\<lparr>plan_total_matching = 3, plan_starts = [(0, 7), (1, 8), (2, 9)], plan_ends = [], plan_limits = [(0, 1), (1, 1), (2, 1)]\<rparr>"
  obtain assignments where a: "assign_shards quiet_broker ?sv 2 ?plan = Inr assignments"
    by (simp add: assign_shards_def Let_def assigned_offsets_def working_partitions_def quiet_broker_def)
  from shards_partition_the_work [OF a] a show ?thesis by auto
qed

section \<open>The fetch as a whole\<close>

text \<open>What the broker documents: offsets are not negative and ordered, and a timestamp resolves to an
  offset between the watermarks.\<close>

definition broker_ok :: "broker \<Rightarrow> string \<Rightarrow> bool" where
  "broker_ok b topic \<longleftrightarrow>
     (\<forall>p low high. query_watermarks b topic p = Inr (low, high) \<longrightarrow> 0 \<le> low \<and> low \<le> high \<and> high < 2 ^ 63)
     \<and> (\<forall>ps ms resolved p raw low high.
          offsets_for_times b topic ps ms = Some resolved \<and> map_of resolved p = Some (Some raw)
          \<and> query_watermarks b topic p = Inr (low, high) \<and> 0 \<le> raw \<longrightarrow> low \<le> raw \<and> raw \<le> high)"

lemma watermarks_ok:
  assumes "broker_ok b topic" and "watermarks_for_partitions b topic ps = Inr marks"
  shows "marks_ok marks" and "times_ok b topic marks ps" and "set ps \<subseteq> fst ` set marks"
proof -
  have w: "bt_ok marks" "fst ` set marks = set ps"
    "\<forall>p m. bt_get marks p = Some m \<longrightarrow> query_watermarks b topic p = Inr m"
    using watermarks_found [OF assms(2)] by simp_all
  have get: "query_watermarks b topic p = Inr (low, high)" if "(p, low, high) \<in> set marks" for p low high
    using that w(1,3) by (metis bt_ok_distinct map_of_eq_Some_iff)
  show "marks_ok marks" using w(1) get assms(1) unfolding marks_ok_def broker_ok_def by fast
  show "times_ok b topic marks ps" using w(3) assms(1) unfolding times_ok_def broker_ok_def by metis
  show "set ps \<subseteq> fst ` set marks" using w(2) by simp
qed

definition respects_filter :: "message_filter \<Rightarrow> message_fetch_result \<Rightarrow> bool" where
  "respects_filter flt r \<longleftrightarrow>
     (case f_max_total_messages flt of Some m \<Rightarrow> length (messages r) \<le> unat m | None \<Rightarrow> True)
     \<and> (\<forall>p. length (from_partition p (messages r))
           \<le> unat (effective_max_messages_per_partition (f_max_messages_per_partition flt)))
     \<and> (case f_partitions flt of Some ps \<Rightarrow> tm_partition ` set (messages r) \<subseteq> set ps | None \<Rightarrow> True)
     \<and> (f_include_payload flt \<or> (payload_bytes_read r = 0 \<and> (\<forall>m\<in>set (messages r). tm_payload_base64 m = None)))"

lemma respects_default: "respects_filter flt default_result"
  by (auto simp: respects_filter_def default_result_def from_partition_def split: option.split)

lemma run_fetch_respects:
  assumes "broker_ok b topic" and "watermarks_for_partitions b topic ps = Inr marks"
    and "plan_fetch b topic flt ps marks = Inr plan" and "rounds_ok (plan_limits plan) rounds"
    and "length (plan_limits plan) < 2 ^ 64" and "run_fetch b sv flt sz budget features base64 rounds plan = Some (Inr r)"
    and "\<And>qs. f_partitions flt = Some qs \<Longrightarrow> ps = qs"
  shows "respects_filter flt r"
proof (cases "r = default_result")
  case True
  then show ?thesis by (simp add: respects_default)
next
  case False
  let ?limits = "plan_limits plan"
  note w = watermarks_ok [OF assms(1,2)]
  note l = plan_limits_ok [OF w assms(3)]
  have reads: "\<exists>l. bt_get ?limits p = Some l \<and> 0 \<le> l
      \<and> l \<le> uint (effective_max_messages_per_partition (f_max_messages_per_partition flt))" if "p \<in> set ps" for p
    using plan_reads_ok [OF w assms(3) that] unfolding reads_ok_def by blast
  have keys: "p \<in> set ps" if "bt_get ?limits p = Some l" for p l
    using that l(2) by (force dest: map_of_SomeD)
  have nonneg: "0 \<le> l" if "(p, l) \<in> set ?limits" for p l
    using that reads keys l(1) by (metis bt_ok_distinct map_of_eq_Some_iff option.inject)
  have lim: "limits_ok ?limits" using l(1) nonneg assms(5) by (auto simp: limits_ok_def)
  obtain job s where s: "poll_loop job (total_target ?limits) rounds (start_loop ?limits) = Some s"
    "job_filter job = flt" "r = fetch_result_of plan s"
    using assms(6) False by (auto simp: run_fetch_def Let_def split: if_splits sum.splits)
  have msgs: "messages r = collected s" "payload_bytes_read r = bytes_read s" by (simp_all add: s(3) fetch_result_of_def)
  note inv = loop_result(1) [OF lim assms(4) s(1)]
  note bud = budget_result [OF s(1), unfolded budget_inv_def]
  have work: "tm_partition m \<in> set ps" if "m \<in> set (collected s)" for m
  proof -
    have "tm_partition m \<in> working_set ?limits" using inv that unfolding loop_inv_def books_ok_def by blast
    then show ?thesis using keys by (auto simp: working_set_def)
  qed
  have per: "length (from_partition p (collected s))
      \<le> unat (effective_max_messages_per_partition (f_max_messages_per_partition flt))" for p
  proof (cases "p \<in> set ps")
    case True
    then obtain l where "bt_get ?limits p = Some l" "0 \<le> l"
      "l \<le> uint (effective_max_messages_per_partition (f_max_messages_per_partition flt))" using reads by blast
    then have "int (length (from_partition p (collected s)))
        \<le> uint (effective_max_messages_per_partition (f_max_messages_per_partition flt))"
      using inv_from_le [OF inv, of p l] by linarith
    then show ?thesis by (simp only: uint_nat of_nat_le_iff)
  next
    case False
    then have "from_partition p (collected s) = []" using work by (auto simp: from_partition_def filter_empty_conv)
    then show ?thesis by simp
  qed
  have tot: "length (collected s) \<le> unat m" if m: "f_max_total_messages flt = Some m" for m
  proof -
    have "0 \<le> sum_list (map snd ?limits)" using nonneg by (intro sum_list_nonneg) auto
    moreover have "sum_list (map snd ?limits) \<le> uint m" by (rule l(3) [OF m])
    moreover have "uint m < 2 ^ 32" using unsigned_less [of m] by simp
    ultimately have "total_target ?limits = sum_list (map snd ?limits)"
      by (simp add: total_target_def i64_id in_i64_def)
    then have "int (length (collected s)) \<le> uint m"
      using bud \<open>0 \<le> sum_list (map snd ?limits)\<close> \<open>sum_list (map snd ?limits) \<le> uint m\<close> by simp
    then show ?thesis by (simp only: uint_nat of_nat_le_iff)
  qed
  have payload: "tm_payload_base64 m = None" if m: "m \<in> set (collected s)" "\<not> f_include_payload flt" for m
  proof -
    let ?p = "tm_partition m"
    have "?p \<in> working_set ?limits" using inv m(1) unfolding loop_inv_def books_ok_def by blast
    then obtain l where "bt_get ?limits ?p = Some l" by (auto simp: working_set_def)
    then obtain hist where hist: "from_partition ?p (collected s) = map (topic_message_of job) hist"
      using inv unfolding loop_inv_def books_ok_def by blast
    have "m \<in> set (from_partition ?p (collected s))" using m(1) by (simp add: from_partition_def)
    then obtain bm where "m = topic_message_of job bm" unfolding hist by auto
    then show ?thesis using m(2) s(2) by (simp add: topic_message_of_def Let_def)
  qed
  have bytes: "bytes_read s = 0" if "\<not> f_include_payload flt"
    using bud that s(2) by (simp add: kept_bytes_def)
  show ?thesis
    unfolding respects_filter_def msgs
    using tot per work payload bytes assms(7) by (auto split: option.split)
qed


definition small_services :: fetch_services where
  "small_services = \<lparr>pooled_client = Inr (), create_consumer = \<lambda>k. Inr (), topic_metadata = Inr [(''t'', [0, 1])],
     takes_assignment = \<lambda>k. True, stops = \<lambda>k. False\<rparr>"

definition newest_five :: message_filter where
  "newest_five = default_filter\<lparr>f_max_total_messages := Some 5\<rparr>"

definition small_session :: "poll_round list" where
  "small_session = [yields (Some (Inl small_message)), yields (Some (Inr (PartitionEOF 0))), yields (Some (Inr (PartitionEOF 1)))]"

definition small_plan :: fetch_plan where "small_plan = \<lparr>plan_total_matching = 20, plan_starts = [(0, 8), (1, 7)], plan_ends = [(0, 10), (1, 10)],
        plan_limits = [(0, 2), (1, 3)]\<rparr>"

definition small_fetch_job :: fetch_job where
  "small_fetch_job = \<lparr>job_filter = newest_five, job_ends = [(0, 10), (1, 10)], job_budget = None, job_shards = 2,
     job_features = [], job_base64 = chars_of\<rparr>"

lemma small_watermarks: "watermarks_for_partitions quiet_broker ''t'' [0, 1] = Inr [(0, 0, 10), (1, 0, 10)]"
  by (simp add: watermarks_for_partitions_in_order quiet_broker_def)

lemma small_planned:
  "plan_fetch quiet_broker ''t'' newest_five [0, 1] [(0, 0, 10), (1, 0, 10)]
    = Inr small_plan"
  by code_simp

lemma small_shards: "fetch_shard_count 2 1000 = 2"
  by (simp add: fetch_shard_count_def per_shard_prefetch_def SHARD_PREFETCH_CEILING_BYTES_def MAX_FETCH_SHARDS_def)

lemma small_run_fetch: "run_fetch quiet_broker small_services newest_five 1000 None [] chars_of small_session small_plan =
   map_option (\<lambda>s. Inr (fetch_result_of small_plan s)) (poll_loop small_fetch_job 5 small_session (start_loop [(0, 2), (1, 3)]))"
proof -
  have a: "assign_shards quiet_broker small_services 2 small_plan = Inr [[(0, 8)], [(1, 7)]]"
    by (simp add: assign_shards_def Let_def assigned_offsets_def small_plan_def working_partitions_def quiet_broker_def deal_partitions_def upt_rec)
  have w: "length (working_partitions small_plan) = 2" by (simp add: working_partitions_def small_plan_def)
  have t: "total_target (plan_limits small_plan) = 5" by (simp add: total_target_def small_plan_def i64_def)
  have sv: "build_shards small_services [1..<2] = Inr ()" "\<not> stops small_services k" "takes_assignment small_services k" for k
    by (simp_all add: small_services_def upt_rec)
  have e: "plan_ends small_plan = [(0, 10), (1, 10)]" "plan_limits small_plan = [(0, 2), (1, 3)]" by (simp_all add: small_plan_def)
  show ?thesis
    unfolding run_fetch_def Let_def w small_shards sv(1)
    by (simp add: a t [unfolded e] sv(2,3) e small_fetch_job_def)
qed

lemma yields_polled: "poll_shards 2 k (yields (Some r)) = (Some r, wrapping_inc k)"
  by (simp add: poll_shards_def yields_def numeral_2_eq_2)

lemma yields_runs [simp]: "\<not> cancelled_now (yields r)"
  by (simp add: yields_def)

lemma small_loop:
  "\<exists>s. poll_loop small_fetch_job 5 small_session (start_loop [(0, 2), (1, 3)]) = Some s \<and> map tm_offset (collected s) = [9]"
  by (simp add: small_session_def start_loop_def running_def poll_once_def yields_polled
      small_fetch_job_def small_message_def on_polled_def on_message_def take_message_def finish_partition_def Let_def
      wrapping_dec_def wrapping_inc_def budgeted_payload_bytes_def payload_len_def byte_budget_reached_def
      topic_message_of_def IDLE_TIMEOUT_def default_filter_def newest_five_def)

lemma small_fetch:
  "fetch_messages quiet_broker small_services ''t'' newest_five 1000 None [] chars_of small_session
    = run_fetch quiet_broker small_services newest_five 1000 None [] chars_of small_session small_plan"
proof -
  have sv: "pooled_client small_services = Inr ()" "\<not> stops small_services k" "create_consumer small_services k = Inr ()" for k
    by (simp_all add: small_services_def)
  have m: "and_then (topic_metadata small_services) (find_topic ''t'') = Inr [0, 1]"
    by (simp add: small_services_def find_topic_def)
  have t: "target_partitions newest_five [0, 1] = [0, 1]" by (simp add: newest_five_def default_filter_def target_partitions_def)
  show ?thesis
    unfolding fetch_messages_def sv m t small_watermarks Let_def
    by (simp add: sv m t small_watermarks small_planned)
qed

lemma yields_from_working: "from_working limits r \<Longrightarrow> rounds_ok limits [yields r]"
  by (simp add: rounds_ok_def yields_def) (simp add: from_working_def)

lemma rounds_ok_all: "(\<And>r. r \<in> set rs \<Longrightarrow> rounds_ok limits [r]) \<Longrightarrow> rounds_ok limits rs"
  by (simp add: rounds_ok_def)

lemma small_session_ok: "rounds_ok (plan_limits small_plan) small_session"
proof -
  have w: "0 \<in> working_set (plan_limits small_plan)" "1 \<in> working_set (plan_limits small_plan)"
    by (simp_all add: small_plan_def working_set_def)
  have "from_working (plan_limits small_plan) (Some (Inl small_message))"
    using w(1) by (simp add: from_working_def small_message_def)
  moreover have "from_working (plan_limits small_plan) (Some (Inr (PartitionEOF 0)))"
    using w(1) by (simp add: from_working_def)
  moreover have "from_working (plan_limits small_plan) (Some (Inr (PartitionEOF 1)))"
    using w(2) by (simp add: from_working_def)
  ultimately have "rounds_ok (plan_limits small_plan) [yields (Some (Inl small_message))]"
    "rounds_ok (plan_limits small_plan) [yields (Some (Inr (PartitionEOF 0)))]"
    "rounds_ok (plan_limits small_plan) [yields (Some (Inr (PartitionEOF 1)))]"
    by (rule_tac [!] yields_from_working)
  then show ?thesis by (simp add: small_session_def rounds_ok_def)
qed


end
