(* ===== verification/Client_Config.thy ===== *)
theory Client_Config
  imports Connections Fetch_Math
begin

text \<open>
  The configuration handed to the client library (\<^verbatim>\<open>backend/kafka/src/config.rs\<close>): a
  \<^verbatim>\<open>ClientConfig\<close> is a map from property names to values, \<open>set_key\<close> its \<^verbatim>\<open>set\<close>. The
  process-wide state it reads is the parameter record \<open>environment\<close>: the client id recorded at
  start-up and the certificates of the operating system's trust store, DER-encoded.
\<close>

section \<open>Definitions\<close>

type_synonym client_config = "string \<Rightarrow> string option"

definition set_key :: "string \<Rightarrow> string \<Rightarrow> client_config \<Rightarrow> client_config" where
  "set_key key val config = config(key \<mapsto> val)"

definition set_given :: "string \<Rightarrow> string option \<Rightarrow> client_config \<Rightarrow> client_config" where
  "set_given key val config = (case val of Some v \<Rightarrow> set_key key v config | None \<Rightarrow> config)"

record broker_ssl_config =
  truststore_location :: "string option"
  keystore_location :: "string option"
  keystore_password :: "string option"
  keystore_key_password :: "string option"

record environment =
  APP_CLIENT_ID :: "string option"
  native_certs :: "byte list list"
  encode_base64 :: "byte list \<Rightarrow> string"

definition FALLBACK_CLIENT_ID :: string where
  "FALLBACK_CLIENT_ID = ''salty''"

definition client_id :: "environment \<Rightarrow> string" where
  "client_id env = (case APP_CLIENT_ID env of Some i \<Rightarrow> i | None \<Rightarrow> FALLBACK_CLIENT_ID)"

text \<open>\<^verbatim>\<open>OnceLock::set\<close>: the first caller wins.\<close>

definition set_app_version :: "string \<Rightarrow> environment \<Rightarrow> environment" where
  "set_app_version version env =
     (case APP_CLIENT_ID env of
        Some i \<Rightarrow> env
      | None \<Rightarrow> env\<lparr>APP_CLIENT_ID := Some (FALLBACK_CLIENT_ID @ ''/'' @ version)\<rparr>)"

definition newline :: string where
  "newline = [CHR 0x0A]"

definition pem_of :: "(byte list \<Rightarrow> string) \<Rightarrow> byte list \<Rightarrow> string" where
  "pem_of base64 cert =
     ''-----BEGIN CERTIFICATE-----'' @ newline
       @ concat (map (\<lambda>line. line @ newline) (chunks 64 (base64 cert)))
       @ ''-----END CERTIFICATE-----'' @ newline"

definition build_native_ca_bundle_pem :: "environment \<Rightarrow> string option" where
  "build_native_ca_bundle_pem env =
     (if native_certs env = [] then None
      else Some (concat (map (pem_of (encode_base64 env)) (native_certs env))))"

definition apply_connection_attempt_limits :: "client_config \<Rightarrow> client_config" where
  "apply_connection_attempt_limits config =
     set_key ''socket.connection.setup.timeout.ms'' ''5000''
       (set_key ''reconnect.backoff.max.ms'' ''30000''
         (set_key ''reconnect.backoff.ms'' ''1000'' config))"

definition apply_connection_footprint_limits :: "client_config \<Rightarrow> client_config" where
  "apply_connection_footprint_limits config =
     set_key ''allow.auto.create.topics'' ''false'' (set_key ''enable.sparse.connections'' ''true'' config)"

definition set_credentials :: "sasl_mechanism option \<Rightarrow> string option \<Rightarrow> string option \<Rightarrow> client_config \<Rightarrow> client_config" where
  "set_credentials mechanism username password config =
     (case mechanism of
        None \<Rightarrow> config
      | Some m \<Rightarrow>
          set_given ''sasl.password'' password
            (set_given ''sasl.username'' username
              (set_key ''sasl.mechanism'' (show_mechanism m) config)))"

definition set_trust :: "environment \<Rightarrow> security_protocol \<Rightarrow> broker_ssl_config \<Rightarrow> client_config \<Rightarrow> client_config" where
  "set_trust env protocol ssl config =
     (case truststore_location ssl of
        Some location \<Rightarrow> set_key ''ssl.ca.location'' location config
      | None \<Rightarrow>
          if protocol = Ssl \<or> protocol = SaslSsl
          then set_given ''ssl.ca.pem'' (build_native_ca_bundle_pem env) config
          else config)"

definition build_client_config ::
    "environment \<Rightarrow> string \<Rightarrow> security_protocol \<Rightarrow> sasl_mechanism option \<Rightarrow> string option \<Rightarrow> string option
      \<Rightarrow> broker_ssl_config \<Rightarrow> client_config" where
  "build_client_config env servers protocol mechanism username password ssl =
     (let config = set_key ''bootstrap.servers'' servers Map.empty;
          config = set_key ''security.protocol'' (lowercase (show_protocol protocol)) config;
          config = set_key ''client.id'' (client_id env) config;
          config = apply_connection_attempt_limits config;
          config = apply_connection_footprint_limits config;
          config = set_credentials mechanism username password config;
          config = set_trust env protocol ssl config;
          config = set_given ''ssl.keystore.location'' (keystore_location ssl) config;
          config = set_given ''ssl.keystore.password'' (keystore_password ssl) config
      in set_given ''ssl.key.password'' (keystore_key_password ssl) config)"

definition ssl_of :: "conn \<Rightarrow> broker_ssl_config" where
  "ssl_of connection =
     \<lparr>truststore_location = ssl_truststore_location connection, keystore_location = ssl_keystore_location connection,
      keystore_password = ssl_keystore_password connection, keystore_key_password = ssl_keystore_key_password connection\<rparr>"

definition client_config :: "environment \<Rightarrow> conn \<Rightarrow> client_config" where
  "client_config env connection =
     build_client_config env (bootstrap_servers connection) (security_protocol connection)
       (sasl_mechanism connection) (sasl_username connection) (sasl_password connection) (ssl_of connection)"

definition prefetch_kbytes :: "u32 \<Rightarrow> nat" where
  "prefetch_kbytes max_message_size_bytes = max (unat max_message_size_bytes * 2 div 1024) 8192"

definition fetch_consumer_config :: "environment \<Rightarrow> conn \<Rightarrow> u32 \<Rightarrow> client_config" where
  "fetch_consumer_config env connection max_message_size_bytes =
     (let config = client_config env connection;
          config = set_key ''group.id'' ''salty-message-browser'' config;
          config = set_key ''enable.auto.commit'' ''false'' config;
          config = set_key ''max.partition.fetch.bytes'' (show_nat (unat max_message_size_bytes)) config;
          config = set_key ''queued.max.messages.kbytes'' (show_nat (prefetch_kbytes max_message_size_bytes)) config;
          config = set_key ''fetch.queue.backoff.ms'' ''10'' config;
          config = set_key ''fetch.wait.max.ms'' ''50'' config
      in set_key ''enable.partition.eof'' ''true'' config)"

definition publish_config :: "environment \<Rightarrow> conn \<Rightarrow> u32 \<Rightarrow> nat \<Rightarrow> client_config" where
  "publish_config env connection max_message_size_bytes write_timeout_ms =
     (let config = client_config env connection;
          config = set_key ''acks'' ''all'' config;
          config = set_key ''enable.idempotence'' ''false'' config;
          config = set_key ''message.max.bytes'' (show_nat (unat max_message_size_bytes)) config;
          config = set_key ''message.timeout.ms'' (show_nat (max write_timeout_ms 1)) config
      in set_key ''linger.ms'' ''0'' config)"

section \<open>Lemmas\<close>

text \<open>Looking a property up.\<close>

lemma set_key_at [simp]: "set_key key val config x = (if x = key then Some val else config x)"
  by (simp add: set_key_def)

lemma set_given_at [simp]: "set_given key val config x = (if x = key \<and> val \<noteq> None then val else config x)"
  by (simp add: set_given_def split: option.split)

lemma set_credentials_at [simp]:
  "set_credentials mechanism username password config x =
     (if mechanism = None then config x
      else if x = ''sasl.password'' \<and> password \<noteq> None then password
      else if x = ''sasl.username'' \<and> username \<noteq> None then username
      else if x = ''sasl.mechanism'' then map_option show_mechanism mechanism else config x)"
  by (cases mechanism; cases username; cases password) (simp_all add: set_credentials_def)

lemma set_trust_at [simp]:
  "set_trust env protocol ssl config x =
     (if truststore_location ssl \<noteq> None
      then (if x = ''ssl.ca.location'' then truststore_location ssl else config x)
      else if (protocol = Ssl \<or> protocol = SaslSsl) \<and> x = ''ssl.ca.pem'' \<and> build_native_ca_bundle_pem env \<noteq> None
      then build_native_ca_bundle_pem env else config x)"
  by (cases "truststore_location ssl"; cases "build_native_ca_bundle_pem env") (simp_all add: set_trust_def)

lemma client_config_at:
  "client_config env connection x =
     set_given ''ssl.key.password'' (ssl_keystore_key_password connection)
       (set_given ''ssl.keystore.password'' (ssl_keystore_password connection)
         (set_given ''ssl.keystore.location'' (ssl_keystore_location connection)
           (set_trust env (security_protocol connection) (ssl_of connection)
             (set_credentials (sasl_mechanism connection) (sasl_username connection) (sasl_password connection)
               [''bootstrap.servers'' \<mapsto> bootstrap_servers connection,
                ''security.protocol'' \<mapsto> lowercase (show_protocol (security_protocol connection)),
                ''client.id'' \<mapsto> client_id env, ''reconnect.backoff.ms'' \<mapsto> ''1000'',
                ''reconnect.backoff.max.ms'' \<mapsto> ''30000'', ''socket.connection.setup.timeout.ms'' \<mapsto> ''5000'',
                ''enable.sparse.connections'' \<mapsto> ''true'', ''allow.auto.create.topics'' \<mapsto> ''false''])))) x"
  by (simp add: client_config_def build_client_config_def ssl_of_def apply_connection_attempt_limits_def
      apply_connection_footprint_limits_def set_key_def Let_def)

text \<open>What every configuration built from a connection has in common.\<close>

definition guarded_config :: "environment \<Rightarrow> conn \<Rightarrow> client_config \<Rightarrow> bool" where
  "guarded_config env connection config \<longleftrightarrow>
     config ''bootstrap.servers'' = Some (bootstrap_servers connection)
     \<and> config ''security.protocol'' = Some (lowercase (show_protocol (security_protocol connection)))
     \<and> config ''client.id'' = Some (client_id env)
     \<and> config ''allow.auto.create.topics'' = Some ''false'' \<and> config ''enable.sparse.connections'' = Some ''true''
     \<and> config ''reconnect.backoff.ms'' = Some ''1000'' \<and> config ''reconnect.backoff.max.ms'' = Some ''30000''
     \<and> config ''sasl.mechanism'' = map_option show_mechanism (sasl_mechanism connection)
     \<and> (config ''sasl.username'', config ''sasl.password'')
         = (if sasl_mechanism connection = None then (None, None)
            else (sasl_username connection, sasl_password connection))
     \<and> config ''ssl.ca.location'' = ssl_truststore_location connection
     \<and> (ssl_truststore_location connection = None \<or> config ''ssl.ca.pem'' = None)
     \<and> config ''ssl.key.password'' = ssl_keystore_key_password connection"

lemma client_config_guarded: "guarded_config env connection (client_config env connection)"
  unfolding guarded_config_def
  by (intro conjI) (simp_all add: client_config_at ssl_of_def)

definition guarded_keys :: "string list" where
  "guarded_keys = [''bootstrap.servers'', ''security.protocol'', ''client.id'', ''allow.auto.create.topics'',
      ''enable.sparse.connections'', ''reconnect.backoff.ms'', ''reconnect.backoff.max.ms'', ''sasl.mechanism'',
      ''sasl.username'', ''sasl.password'', ''ssl.ca.location'', ''ssl.ca.pem'', ''ssl.key.password'']"

lemma guarded_cong:
  assumes "\<forall>k\<in>set guarded_keys. config' k = config k" and "guarded_config env connection config"
  shows "guarded_config env connection config'"
proof -
  have eq: "\<And>k. k \<in> set guarded_keys \<Longrightarrow> config' k = config k" using assms(1) by blast
  show ?thesis
    using assms(2) unfolding guarded_config_def
    by (simp only: eq guarded_keys_def list.set insert_iff simp_thms)
qed

lemma guarded_set_key:
  "key \<notin> set guarded_keys \<Longrightarrow> guarded_config env connection config \<Longrightarrow>
    guarded_config env connection (set_key key val config)"
  by (rule guarded_cong) auto

lemma fetch_config_guarded: "guarded_config env connection (fetch_consumer_config env connection sz)"
  unfolding fetch_consumer_config_def Let_def
  by (intro guarded_set_key client_config_guarded) (simp_all add: guarded_keys_def)

lemma publish_config_guarded: "guarded_config env connection (publish_config env connection sz timeout)"
  unfolding publish_config_def Let_def
  by (intro guarded_set_key client_config_guarded) (simp_all add: guarded_keys_def)

lemma pem_lines: "line \<in> set (chunks 64 (base64 cert)) \<Longrightarrow> length line \<le> 64"
  using length_chunks [of line 64 "base64 cert"] by simp

section \<open>Properties\<close>


text \<open>The prefetch queue of a fetch consumer always holds a message of the maximum size, its size is
  what the shard count was computed with, so all shards of a fetch together stay within the prefetch
  ceiling as soon as there is more than one.\<close>
theorem fetch_queues_fit:
  "\<exists>kb. fetch_consumer_config env connection sz ''queued.max.messages.kbytes'' = Some (show_nat kb)
    \<and> unat sz \<le> kb * 1024 \<and> kb * 1024 \<le> per_shard_prefetch sz
    \<and> (fetch_shard_count n sz = 1 \<or> fetch_shard_count n sz * (kb * 1024) \<le> SHARD_PREFETCH_CEILING_BYTES)"
proof -
  let ?kb = "prefetch_kbytes sz"
  have cfg: "fetch_consumer_config env connection sz ''queued.max.messages.kbytes'' = Some (show_nat ?kb)"
    by (simp add: fetch_consumer_config_def Let_def set_key_def)
  have fits: "unat sz \<le> ?kb * 1024"
    unfolding prefetch_kbytes_def by (simp add: max_def) linarith
  have le: "?kb * 1024 \<le> per_shard_prefetch sz"
    unfolding prefetch_kbytes_def per_shard_prefetch_def by (auto simp: max_def)
  have pos: "0 < per_shard_prefetch sz" by (simp add: per_shard_prefetch_def)
  have ceil: "fetch_shard_count n sz = 1 \<or> fetch_shard_count n sz * per_shard_prefetch sz \<le> SHARD_PREFETCH_CEILING_BYTES"
  proof (cases "SHARD_PREFETCH_CEILING_BYTES div per_shard_prefetch sz \<le> 1")
    case True
    then show ?thesis by (auto simp: fetch_shard_count_def Let_def MAX_FETCH_SHARDS_def)
  next
    case False
    then have "fetch_shard_count n sz \<le> SHARD_PREFETCH_CEILING_BYTES div per_shard_prefetch sz"
      by (auto simp: fetch_shard_count_def Let_def)
    then have "fetch_shard_count n sz * per_shard_prefetch sz
        \<le> SHARD_PREFETCH_CEILING_BYTES div per_shard_prefetch sz * per_shard_prefetch sz"
      by (rule mult_le_mono1)
    also have "\<dots> \<le> SHARD_PREFETCH_CEILING_BYTES" by simp
    finally show ?thesis by blast
  qed
  have "fetch_shard_count n sz * (?kb * 1024) \<le> fetch_shard_count n sz * per_shard_prefetch sz"
    using le by (rule mult_le_mono2)
  with cfg fits le ceil show ?thesis by (meson order_trans)
qed

end
