(* ===== verification/Client_Pools.thy ===== *)
theory Client_Pools
  imports Client_Config App_Error
begin

text \<open>
  The clients kept for reuse: the metadata and admin clients of a saved connection
  (\<^verbatim>\<open>backend/kafka/src/client.rs\<close>), each with the version of the connection it was built from, the
  schema registry clients (\<^verbatim>\<open>backend/schema-registry/src/lib.rs\<close>), each with a fingerprint of its
  settings, and the slot in which a shared client notes why a request failed. A pool operation holds
  its lock throughout and is one step; what building a client would give is an argument, used only
  when one is built.
\<close>

section \<open>A versioned pool as an interface\<close>

text \<open>
  \<open>get k v built s\<close> serves key \<open>k\<close> at version \<open>v\<close>. A client pooled for exactly that version is
  served again; otherwise the one built is, and pooled; a failed build changes nothing.
\<close>

datatype ('k, 'v, 'r) pool_event = Get 'k 'v 'r | Release 'k

locale versioned_pool =
  fixes get :: "'k \<Rightarrow> 'v \<Rightarrow> 'e + 'c \<Rightarrow> 's \<Rightarrow> ('e + 'c) \<times> 's"
    and release :: "'k \<Rightarrow> 's \<Rightarrow> 's"
    and pooled :: "'k \<Rightarrow> 's \<Rightarrow> ('v \<times> 'c) option"
  assumes get_hit: "pooled k s = Some (v, c) \<Longrightarrow> get k v built s = (Inr c, s)"
    and get_miss: "(\<And>c. pooled k s \<noteq> Some (v, c)) \<Longrightarrow> fst (get k v built s) = built"
    and pooled_built: "(\<And>c. pooled k s \<noteq> Some (v, c)) \<Longrightarrow> pooled k (snd (get k v (Inr c) s)) = Some (v, c)"
    and pooled_failed: "(\<And>c. pooled k s \<noteq> Some (v, c)) \<Longrightarrow> pooled k (snd (get k v (Inl e) s)) = pooled k s"
    and pooled_other: "k' \<noteq> k \<Longrightarrow> pooled k' (snd (get k v built s)) = pooled k' s"
    and pooled_release: "pooled k' (release k s) = (if k' = k then None else pooled k' s)"
begin

fun step :: "('k, 'v, 'e + 'c) pool_event \<Rightarrow> 's \<Rightarrow> 's" where
  "step (Get k v built) s = snd (get k v built s)"
| "step (Release k) s = release k s"

lemma pooled_get: "pooled k (snd (get k v built s)) =
    (case pooled k s of
       Some (v', c) \<Rightarrow> if v' = v then Some (v, c) else (case built of Inr c \<Rightarrow> Some (v, c) | Inl e \<Rightarrow> pooled k s)
     | None \<Rightarrow> (case built of Inr c \<Rightarrow> Some (v, c) | Inl e \<Rightarrow> None))"
proof (cases "\<exists>c. pooled k s = Some (v, c)")
  case True
  then show ?thesis using get_hit [of k s v _ built] by auto
next
  case False
  then show ?thesis
    using pooled_built [of k s v] pooled_failed [of k s v] by (cases built) (auto split: option.split)
qed

text \<open>What is pooled was built for its key and version.\<close>

lemma pooled_was_built:
  "pooled k (fold step es s) = Some (v, c) \<Longrightarrow> pooled k s = Some (v, c) \<or> Get k v (Inr c) \<in> set es"
proof (induction es arbitrary: s)
  case (Cons e es)
  then consider "pooled k (step e s) = Some (v, c)" | "Get k v (Inr c) \<in> set es" by fastforce
  then show ?case
  proof cases
    case 1
    show ?thesis
    proof (cases e)
      case (Get k' v' built)
      then show ?thesis
        using 1 pooled_other [of k k' v' built s] pooled_get [of k v' built s]
        by (cases "k' = k") (auto split: option.splits sum.splits if_splits)
    next
      case (Release k')
      then show ?thesis using 1 by (auto simp: pooled_release split: if_splits)
    qed
  qed auto
qed simp

lemma served_was_built:
  assumes "\<And>k. pooled k s = None" and "fst (get k v built (fold step es s)) = Inr c"
  shows "Get k v (Inr c) \<in> set (es @ [Get k v built])"
proof (cases "\<exists>c. pooled k (fold step es s) = Some (v, c)")
  case True
  then have "pooled k (fold step es s) = Some (v, c)"
    using get_hit [of k "fold step es s" v _ built] assms(2) by auto
  then show ?thesis using pooled_was_built [of k es s v c] assms(1) by auto
next
  case False
  then show ?thesis using get_miss [of k "fold step es s" v built] assms(2) by auto
qed

text \<open>Requests for the same version share one client until the key is released or its version changes.\<close>

definition disturbs :: "'k \<Rightarrow> 'v \<Rightarrow> ('k, 'v, 'e + 'c) pool_event \<Rightarrow> bool" where
  "disturbs k v e \<longleftrightarrow> e = Release k \<or> (\<exists>v' b. e = Get k v' b \<and> v' \<noteq> v)"

lemma pooled_stays:
  "(\<And>e. e \<in> set es \<Longrightarrow> \<not> disturbs k v e) \<Longrightarrow> pooled k s = Some (v, c) \<Longrightarrow> pooled k (fold step es s) = Some (v, c)"
proof (induction es arbitrary: s)
  case (Cons e es)
  have d: "\<not> disturbs k v e" using Cons.prems(1) by simp
  have "pooled k (step e s) = Some (v, c)"
  proof (cases e)
    case (Get k' v' built)
    show ?thesis
    proof (cases "k' = k")
      case True
      then have "v' = v" using d Get by (auto simp: disturbs_def)
      then show ?thesis using True Get Cons.prems(2) get_hit [of k s v c built] by simp
    next
      case False
      then show ?thesis using Get Cons.prems(2) pooled_other [of k k' v' built s] by simp
    qed
  next
    case (Release k')
    then show ?thesis using d Cons.prems(2) by (auto simp: disturbs_def pooled_release)
  qed
  then show ?case using Cons.IH [of "step e s"] Cons.prems(1) by simp
qed simp

lemma one_client:
  assumes "fst (get k v built s) = Inr c" and "\<And>e. e \<in> set es \<Longrightarrow> \<not> disturbs k v e"
  shows "fst (get k v built' (fold step es (snd (get k v built s)))) = Inr c"
proof -
  have "pooled k (snd (get k v built s)) = Some (v, c)"
  proof (cases "\<exists>c. pooled k s = Some (v, c)")
    case True
    then show ?thesis using get_hit [of k s v _ built] assms(1) by auto
  next
    case False
    then show ?thesis using get_miss [of k s v built] pooled_built [of k s v c] assms(1) by auto
  qed
  then have "pooled k (fold step es (snd (get k v built s))) = Some (v, c)"
    using pooled_stays [OF assms(2)] by blast
  then show ?thesis using get_hit by simp
qed

end

section \<open>The Kafka clients\<close>

record ('c, 'a) rdkafka_client =
  metadata_clients :: "string \<rightharpoonup> (string \<times> 'c)"
  admin_clients :: "string \<rightharpoonup> (string \<times> 'a)"

definition new_client :: "('c, 'a) rdkafka_client" where
  "new_client = \<lparr>metadata_clients = Map.empty, admin_clients = Map.empty\<rparr>"

text \<open>The step both pools (and the schema registry's) make under their lock.\<close>

definition pool_get :: "'k \<Rightarrow> 'v \<Rightarrow> 'e + 'c \<Rightarrow> ('k \<rightharpoonup> 'v \<times> 'c) \<Rightarrow> ('e + 'c) \<times> ('k \<rightharpoonup> 'v \<times> 'c)" where
  "pool_get k v built pool =
     (let hit = (case pool k of Some (version, client) \<Rightarrow> if version = v then Some client else None | None \<Rightarrow> None)
      in case hit of
           Some client \<Rightarrow> (Inr client, pool)
         | None \<Rightarrow>
             (case built of
                Inl e \<Rightarrow> (Inl e, pool)
              | Inr client \<Rightarrow> (Inr client, pool(k \<mapsto> (v, client)))))"

definition metadata_client ::
    "conn \<Rightarrow> report + 'c \<Rightarrow> ('c, 'a) rdkafka_client \<Rightarrow> (report + 'c) \<times> ('c, 'a) rdkafka_client" where
  "metadata_client connection built s =
     (case pool_get (conn_id connection) (updated_at connection) built (metadata_clients s) of
        (result, pool) \<Rightarrow> (result, s\<lparr>metadata_clients := pool\<rparr>))"

definition admin_client ::
    "conn \<Rightarrow> report + 'a \<Rightarrow> ('c, 'a) rdkafka_client \<Rightarrow> (report + 'a) \<times> ('c, 'a) rdkafka_client" where
  "admin_client connection built s =
     (case pool_get (conn_id connection) (updated_at connection) built (admin_clients s) of
        (result, pool) \<Rightarrow> (result, s\<lparr>admin_clients := pool\<rparr>))"

definition drop_pooled_client :: "string \<Rightarrow> ('c, 'a) rdkafka_client \<Rightarrow> ('c, 'a) rdkafka_client" where
  "drop_pooled_client connection_id s =
     s\<lparr>metadata_clients := (metadata_clients s)(connection_id := None),
       admin_clients := (admin_clients s)(connection_id := None)\<rparr>"

text \<open>\<^verbatim>\<open>connect\<close>: \<open>probe\<close> is what asking the cluster through a client gives.\<close>

definition connect ::
    "conn \<Rightarrow> report + 'c \<Rightarrow> ('c \<Rightarrow> report + connection_status) \<Rightarrow> ('c, 'a) rdkafka_client
      \<Rightarrow> (report + connection_status) \<times> ('c, 'a) rdkafka_client" where
  "connect connection built probe s =
     (case metadata_client connection built s of
        (Inl e, s) \<Rightarrow> (Inl e, drop_pooled_client (conn_id connection) s)
      | (Inr client, s) \<Rightarrow>
          (case probe client of
             Inl e \<Rightarrow> (Inl e, drop_pooled_client (conn_id connection) s)
           | Inr status \<Rightarrow> (Inr status, s)))"

text \<open>A connection as far as the pools look at it.\<close>

definition conn_at :: "string \<Rightarrow> string \<Rightarrow> conn" where
  "conn_at i version = \<lparr>conn_name = [], bootstrap_servers = [], kafka_version = [], zookeeper_enabled = False,
     zookeeper_host = None, zookeeper_port = None, zookeeper_chroot_path = None, security_protocol = Plaintext,
     sasl_mechanism = None, sasl_username = None, sasl_oauth_url = None, schema_registry_endpoint = None,
     schema_registry_trust_store_location = None, schema_registry_keystore_location = None,
     ssl_truststore_location = None, ssl_keystore_location = None, sasl_password = None,
     schema_registry_basic_auth_credentials = None, schema_registry_trust_store_password = None,
     schema_registry_keystore_password = None, schema_registry_keystore_key_password = None,
     ssl_truststore_password = None, ssl_keystore_password = None, ssl_keystore_key_password = None,
     allow_publishing = False, conn_id = i, created_at = [], updated_at = version\<rparr>"

lemma conn_at_simps [simp]: "conn_id (conn_at i v) = i" "updated_at (conn_at i v) = v"
  by (simp_all add: conn_at_def)

lemma metadata_client_conn_at: "metadata_client connection = metadata_client (conn_at (conn_id connection) (updated_at connection))"
  by (intro ext) (simp add: metadata_client_def)

interpretation metadata: versioned_pool "\<lambda>i v. metadata_client (conn_at i v)" drop_pooled_client "\<lambda>i s. metadata_clients s i"
  by unfold_locales (auto simp: metadata_client_def pool_get_def Let_def drop_pooled_client_def split: option.splits sum.splits if_splits)

interpretation admin: versioned_pool "\<lambda>i v. admin_client (conn_at i v)" drop_pooled_client "\<lambda>i s. admin_clients s i"
  by unfold_locales (auto simp: admin_client_def pool_get_def Let_def drop_pooled_client_def split: option.splits sum.splits if_splits)

section \<open>Why a request failed\<close>

text \<open>
  The slot of a shared client, \<^verbatim>\<open>last_error\<close>. Serving the client's events, one poll at a time, gives
  \<open>Some\<close> reason or nothing each time; the list holds what the polls within the time allowed yield.
\<close>

fun drain_error_events :: "string option list \<Rightarrow> string option \<Rightarrow> string option" where
  "drain_error_events polls (Some reason) = Some reason"
| "drain_error_events [] None = None"
| "drain_error_events (r # polls) None = drain_error_events polls r"

definition failure_report :: "kafka_error \<Rightarrow> string \<Rightarrow> string \<Rightarrow> report" where
  "failure_report err reason what =
     fail_with (if is_auth_failure (Some err) (Some reason) then Authentication else Kafka)
       (what @ '': '' @ reason)"

definition failure :: "kafka_error \<Rightarrow> string \<Rightarrow> string option list \<Rightarrow> string option \<Rightarrow> report \<times> string option" where
  "failure err what polls slot =
     (let slot = drain_error_events polls slot;
          reason = (case slot of Some r \<Rightarrow> r | None \<Rightarrow> error_text err)
      in (failure_report err reason what, slot))"

definition observed ::
    "string \<Rightarrow> kafka_error + 'b \<Rightarrow> string option list \<Rightarrow> string option \<Rightarrow> (report + 'b) \<times> string option" where
  "observed what result polls slot =
     (let slot = None in
      case result of
        Inr x \<Rightarrow> (Inr x, slot)
      | Inl err \<Rightarrow> (case failure err what polls slot of (r, slot) \<Rightarrow> (Inl r, slot)))"

definition create_client :: "kafka_error + 'c \<Rightarrow> report + 'c" where
  "create_client created =
     (case created of
        Inr c \<Rightarrow> Inr c
      | Inl err \<Rightarrow> Inl (failure_report err (error_text err) ''failed to create kafka consumer''))"

text \<open>What building the clients of a connection gives, from what the library makes of a configuration.\<close>

definition build_metadata_client :: "environment \<Rightarrow> (client_config \<Rightarrow> kafka_error + 'c) \<Rightarrow> conn \<Rightarrow> report + 'c" where
  "build_metadata_client env construct connection = create_client (construct (client_config env connection))"

definition build_admin_client :: "environment \<Rightarrow> (client_config \<Rightarrow> kafka_error + 'a) \<Rightarrow> conn \<Rightarrow> report + 'a" where
  "build_admin_client env construct connection =
     (case construct (client_config env connection) of
        Inr a \<Rightarrow> Inr a
      | Inl err \<Rightarrow> Inl (failure_report err (error_text err) ''failed to create kafka admin client''))"

definition probe_with :: "kafka_error + 'b \<Rightarrow> string option list \<Rightarrow> string option \<Rightarrow> (report + connection_status) \<times> string option" where
  "probe_with result polls slot =
     (case observed ''failed to reach the cluster'' result polls slot of
        (Inl r, slot) \<Rightarrow> (Inl r, slot)
      | (Inr _, slot) \<Rightarrow> (Inr Reachable, slot))"

section \<open>The schema registry\<close>

record schema_registry_auth =
  basic_auth_credentials :: "string option"
  trust_store_location :: "string option"
  registry_keystore_location :: "string option"
  registry_keystore_password :: "string option"

text \<open>The HTTP library: reading a file, parsing key material, building a client.\<close>

record ('cert, 'identity, 'http) http_lib =
  read_file :: "string \<Rightarrow> byte list option"
  certificate_from_pem :: "byte list \<Rightarrow> 'cert option"
  identity_from_pkcs12 :: "byte list \<Rightarrow> string \<Rightarrow> 'identity option"
  build_http :: "'cert option \<Rightarrow> 'identity option \<Rightarrow> 'http option"

record 'http schema_registry_client =
  http :: 'http
  base_url :: string
  basic_auth :: "(string \<times> string) option"
  schema_cache :: "u32 \<rightharpoonup> string"

fun split_once :: "char \<Rightarrow> string \<Rightarrow> (string \<times> string) option" where
  "split_once c [] = None"
| "split_once c (x # xs) =
     (if x = c then Some ([], xs) else map_option (\<lambda>(a, b). (x # a, b)) (split_once c xs))"

definition trim_end_slashes :: "string \<Rightarrow> string" where
  "trim_end_slashes s = rev (dropWhile (\<lambda>c. c = CHR ''/'') (rev s))"

definition root_certificate :: "('cert, 'identity, 'http) http_lib \<Rightarrow> schema_registry_auth \<Rightarrow> report + 'cert option" where
  "root_certificate lib auth =
     (case trust_store_location auth of
        None \<Rightarrow> Inr None
      | Some location \<Rightarrow>
          (case read_file lib location of
             None \<Rightarrow> Inl (fail_with SchemaRegistry (''failed to read trust store at '' @ location))
           | Some pem \<Rightarrow>
               (case certificate_from_pem lib pem of
                  None \<Rightarrow> Inl (fail_with SchemaRegistry ''failed to parse trust store as PEM'')
                | Some cert \<Rightarrow> Inr (Some cert))))"

definition client_identity :: "('cert, 'identity, 'http) http_lib \<Rightarrow> schema_registry_auth \<Rightarrow> report + 'identity option" where
  "client_identity lib auth =
     (case (registry_keystore_location auth, registry_keystore_password auth) of
        (Some location, Some password) \<Rightarrow>
          (case read_file lib location of
             None \<Rightarrow> Inl (fail_with SchemaRegistry (''failed to read keystore at '' @ location))
           | Some der \<Rightarrow>
               (case identity_from_pkcs12 lib der password of
                  None \<Rightarrow> Inl (fail_with SchemaRegistry ''failed to parse keystore as PKCS12'')
                | Some identity \<Rightarrow> Inr (Some identity)))
      | _ \<Rightarrow> Inr None)"

definition basic_auth_of :: "schema_registry_auth \<Rightarrow> report + (string \<times> string) option" where
  "basic_auth_of auth =
     (case basic_auth_credentials auth of
        None \<Rightarrow> Inr None
      | Some creds \<Rightarrow>
          (case split_once CHR '':'' creds of
             None \<Rightarrow> Inl (fail_with SchemaRegistry
               ''schema registry basic auth credentials must be in \"username:password\" format'')
           | Some user_pass \<Rightarrow> Inr (Some user_pass)))"

definition new_registry_client ::
    "('cert, 'identity, 'http) http_lib \<Rightarrow> string \<Rightarrow> schema_registry_auth \<Rightarrow> report + 'http schema_registry_client" where
  "new_registry_client lib endpoint auth =
     and_then (root_certificate lib auth) (\<lambda>cert.
     and_then (client_identity lib auth) (\<lambda>identity.
     case build_http lib cert identity of
       None \<Rightarrow> Inl (fail_with SchemaRegistry ''failed to build Schema Registry HTTP client'')
     | Some h \<Rightarrow>
         and_then (basic_auth_of auth) (\<lambda>basic.
         Inr \<lparr>http = h, base_url = trim_end_slashes endpoint, basic_auth = basic, schema_cache = Map.empty\<rparr>)))"

text \<open>What a request gives: no answer, or a status with the schema its body holds, if it parses.\<close>

datatype http_response = NoAnswer | Answer nat "string option"

definition schema_url :: "'http schema_registry_client \<Rightarrow> u32 \<Rightarrow> string" where
  "schema_url client i = base_url client @ ''/schemas/ids/'' @ show_nat (unat i)"

definition fetch_schema_by_id ::
    "('http \<Rightarrow> string \<Rightarrow> (string \<times> string) option \<Rightarrow> http_response) \<Rightarrow> u32 \<Rightarrow> 'http schema_registry_client
      \<Rightarrow> (report + string) \<times> 'http schema_registry_client" where
  "fetch_schema_by_id send i client =
     (case schema_cache client i of
        Some cached \<Rightarrow> (Inr cached, client)
      | None \<Rightarrow>
          let url = schema_url client i in
          case send (http client) url (basic_auth client) of
            NoAnswer \<Rightarrow> (Inl (fail_with SchemaRegistry (''request to '' @ url @ '' failed'')), client)
          | Answer status body \<Rightarrow>
              if status = 404
              then (Inl (fail_with NotFound (''schema id '' @ show_nat (unat i) @ '' not found in registry'')), client)
              else if 400 \<le> status \<and> status < 600
              then (Inl (fail_with SchemaRegistry (''registry returned an error for schema id '' @ show_nat (unat i))), client)
              else case body of
                     None \<Rightarrow> (Inl (fail_with SchemaRegistry ''failed to parse registry response as JSON''), client)
                   | Some schema \<Rightarrow> (Inr schema, client\<lparr>schema_cache := (schema_cache client)(i \<mapsto> schema)\<rparr>))"

text \<open>The registry clients, by connection; \<open>hash\<close> is the standard library's hasher.\<close>

type_synonym 'http registry_clients = "string \<rightharpoonup> u64 \<times> 'http schema_registry_client"

definition fingerprint_of :: "(string option list \<Rightarrow> u64) \<Rightarrow> string \<Rightarrow> schema_registry_auth \<Rightarrow> u64" where
  "fingerprint_of hash endpoint auth =
     hash [Some endpoint, basic_auth_credentials auth, trust_store_location auth,
           registry_keystore_location auth, registry_keystore_password auth]"

definition get_or_create ::
    "(string option list \<Rightarrow> u64) \<Rightarrow> ('cert, 'identity, 'http) http_lib \<Rightarrow> string \<Rightarrow> string \<Rightarrow> schema_registry_auth
      \<Rightarrow> 'http registry_clients \<Rightarrow> (report + 'http schema_registry_client) \<times> 'http registry_clients" where
  "get_or_create hash lib connection_id endpoint auth clients =
     pool_get connection_id (fingerprint_of hash endpoint auth) (new_registry_client lib endpoint auth) clients"

definition release_registry :: "string \<Rightarrow> 'http registry_clients \<Rightarrow> 'http registry_clients" where
  "release_registry connection_id clients = clients(connection_id := None)"

interpretation schema_clients: versioned_pool pool_get release_registry "\<lambda>i clients. clients i"
  by unfold_locales (auto simp: pool_get_def Let_def release_registry_def split: option.splits sum.splits if_splits)

text \<open>One schema looked up through the pool; the client is shared, so its cache is the pooled one's.\<close>

definition fetch_pooled ::
    "(string option list \<Rightarrow> u64) \<Rightarrow> ('cert, 'identity, 'http) http_lib
      \<Rightarrow> ('http \<Rightarrow> string \<Rightarrow> (string \<times> string) option \<Rightarrow> http_response)
      \<Rightarrow> string \<Rightarrow> string \<Rightarrow> schema_registry_auth \<Rightarrow> u32 \<Rightarrow> 'http registry_clients \<Rightarrow> (report + string) \<times> 'http registry_clients" where
  "fetch_pooled hash lib send connection_id endpoint auth i clients =
     (case get_or_create hash lib connection_id endpoint auth clients of
        (Inl e, clients) \<Rightarrow> (Inl e, clients)
      | (Inr client, clients) \<Rightarrow>
          (case fetch_schema_by_id send i client of
             (result, client) \<Rightarrow> (result, clients(connection_id \<mapsto> (fingerprint_of hash endpoint auth, client)))))"

section \<open>Sequences of requests\<close>

text \<open>The calls that touch the pools of Kafka clients.\<close>

datatype ('c, 'a) client_call =
    Use_metadata conn "report + 'c"
  | Use_admin conn "report + 'a"
  | Connect conn "report + 'c" "'c \<Rightarrow> report + connection_status"
  | Drop string

fun client_step :: "('c, 'a) client_call \<Rightarrow> ('c, 'a) rdkafka_client \<Rightarrow> ('c, 'a) rdkafka_client" where
  "client_step (Use_metadata connection built) s = snd (metadata_client connection built s)"
| "client_step (Use_admin connection built) s = snd (admin_client connection built s)"
| "client_step (Connect connection built probe) s = snd (connect connection built probe s)"
| "client_step (Drop i) s = drop_pooled_client i s"

text \<open>The call built \<open>c\<close> for the metadata pool from version \<open>v\<close> of connection \<open>i\<close>.\<close>

fun builds_metadata :: "string \<Rightarrow> string \<Rightarrow> 'c \<Rightarrow> ('c, 'a) client_call \<Rightarrow> bool" where
  "builds_metadata i v c (Use_metadata connection built) \<longleftrightarrow>
     conn_id connection = i \<and> updated_at connection = v \<and> built = Inr c"
| "builds_metadata i v c (Connect connection built probe) \<longleftrightarrow>
     conn_id connection = i \<and> updated_at connection = v \<and> built = Inr c"
| "builds_metadata i v c _ \<longleftrightarrow> False"

text \<open>A connect is its metadata request, and after a failure the release.\<close>

lemma connect_state: "snd (connect connection built probe s) =
    (let s' = snd (metadata_client connection built s) in
     if (case fst (metadata_client connection built s) of Inl e \<Rightarrow> True | Inr c \<Rightarrow> (case probe c of Inl e \<Rightarrow> True | Inr st \<Rightarrow> False))
     then drop_pooled_client (conn_id connection) s' else s')"
  by (auto simp: connect_def Let_def split: prod.split sum.split)

lemma admin_client_metadata [simp]: "metadata_clients (snd (admin_client connection built s)) = metadata_clients s"
  by (auto simp: admin_client_def split: prod.split)

lemma metadata_pooled_get:
  "metadata_clients (snd (metadata_client connection built s)) i = Some (v, c) \<Longrightarrow>
    metadata_clients s i = Some (v, c)
      \<or> (conn_id connection = i \<and> updated_at connection = v \<and> built = Inr c)"
  using metadata.pooled_get [of i "updated_at connection" built s]
    metadata.pooled_other [of i "conn_id connection" "updated_at connection" built s]
  by (cases "conn_id connection = i")
    (auto simp: metadata_client_conn_at [of connection] split: option.splits sum.splits if_splits)

lemma pooled_drop: "metadata_clients (drop_pooled_client k s) i = Some x \<Longrightarrow> metadata_clients s i = Some x"
  by (auto simp: drop_pooled_client_def split: if_splits)

lemma client_step_pooled:
  "metadata_clients (client_step call s) i = Some (v, c) \<Longrightarrow>
    metadata_clients s i = Some (v, c) \<or> builds_metadata i v c call"
  by (cases call) (auto simp: connect_state Let_def dest!: metadata_pooled_get pooled_drop split: if_splits)

lemma client_steps_pooled:
  "metadata_clients (fold client_step calls s) i = Some (v, c) \<Longrightarrow>
    metadata_clients s i = Some (v, c) \<or> (\<exists>call\<in>set calls. builds_metadata i v c call)"
  by (induction calls arbitrary: s) (fastforce dest: client_step_pooled)+

text \<open>Calls that leave version \<open>v\<close> of connection \<open>i\<close> alone.\<close>

fun undisturbed :: "string \<Rightarrow> string \<Rightarrow> ('c, 'a) client_call \<Rightarrow> bool" where
  "undisturbed i v (Use_metadata connection built) \<longleftrightarrow> (conn_id connection = i \<longrightarrow> updated_at connection = v)"
| "undisturbed i v (Use_admin connection built) \<longleftrightarrow> True"
| "undisturbed i v (Connect connection built probe) \<longleftrightarrow>
     (conn_id connection = i \<longrightarrow> updated_at connection = v \<and> (\<forall>c. probe c \<in> range Inr))"
| "undisturbed i v (Drop k) \<longleftrightarrow> k \<noteq> i"

lemma metadata_hit:
  "metadata_clients s (conn_id connection) = Some (updated_at connection, c) \<Longrightarrow>
    metadata_client connection built s = (Inr c, s)"
  by (simp add: metadata.get_hit metadata_client_conn_at [of connection])

lemma metadata_other:
  "i \<noteq> conn_id connection \<Longrightarrow> metadata_clients (snd (metadata_client connection built s)) i = metadata_clients s i"
  by (simp add: metadata.pooled_other metadata_client_conn_at [of connection])

lemma pooled_drop_other: "i \<noteq> k \<Longrightarrow> metadata_clients (drop_pooled_client k s) i = metadata_clients s i"
  by (simp add: drop_pooled_client_def)

lemma client_step_undisturbed:
  assumes "undisturbed i v call" and "metadata_clients s i = Some (v, c)"
  shows "metadata_clients (client_step call s) i = Some (v, c)"
proof (cases call)
  case (Use_metadata connection built)
  then show ?thesis
    using assms metadata_hit [of s connection c built] metadata_other [of i connection built s]
    by (cases "conn_id connection = i") auto
next
  case (Connect connection built probe)
  show ?thesis
  proof (cases "conn_id connection = i")
    case True
    then have "metadata_client connection built s = (Inr c, s)" and "probe c \<in> range Inr"
      using Connect assms metadata_hit [of s connection c built] by auto
    then show ?thesis using Connect assms by (auto simp: connect_def)
  next
    case False
    then have "i \<noteq> conn_id connection" by simp
    then show ?thesis
      using Connect assms by (simp add: connect_state Let_def metadata_other pooled_drop_other)
  qed
qed (use assms in \<open>simp_all add: drop_pooled_client_def\<close>)

lemma client_steps_undisturbed:
  "\<forall>call\<in>set calls. undisturbed i v call \<Longrightarrow> metadata_clients s i = Some (v, c) \<Longrightarrow>
    metadata_clients (fold client_step calls s) i = Some (v, c)"
  by (induction calls arbitrary: s) (simp_all add: client_step_undisturbed)

lemma metadata_served:
  assumes "metadata_client connection built s = (Inr c, s')"
  shows "metadata_clients s' (conn_id connection) = Some (updated_at connection, c)"
    and "metadata_clients s (conn_id connection) = Some (updated_at connection, c) \<or> built = Inr c"
  using assms by (auto simp: metadata_client_def pool_get_def Let_def split: option.splits sum.splits if_splits)

text \<open>Requests for a failure's reason on one shared client: every answer with the slot as the last left it.\<close>

fun observe_all :: "(string \<times> (kafka_error + 'b) \<times> string option list) list \<Rightarrow> string option \<Rightarrow> (report + 'b) list" where
  "observe_all [] slot = []"
| "observe_all ((what, result, polls) # requests) slot =
     (case observed what result polls slot of (r, slot) \<Rightarrow> r # observe_all requests slot)"

text \<open>The reason a request finds by itself: the first one its own polls yield, else the error's text.\<close>

definition own_reason :: "kafka_error \<Rightarrow> string option list \<Rightarrow> string" where
  "own_reason err polls = (case List.find (\<lambda>r. r \<noteq> None) polls of Some (Some r) \<Rightarrow> r | _ \<Rightarrow> error_text err)"

lemma drain_first: "drain_error_events polls None = (case List.find (\<lambda>r. r \<noteq> None) polls of Some r \<Rightarrow> r | None \<Rightarrow> None)"
proof (induction polls)
  case (Cons r polls)
  then show ?case by (cases r) auto
qed simp

lemma observed_eq:
  "fst (observed what result polls slot) =
     (case result of Inr x \<Rightarrow> Inr x | Inl err \<Rightarrow> Inl (failure_report err (own_reason err polls) what))"
  by (simp add: observed_def failure_def Let_def drain_first own_reason_def split: sum.split option.split)

lemma observe_all_Cons: "observe_all ((what, result, polls) # requests) slot =
    fst (observed what result polls slot) # observe_all requests (snd (observed what result polls slot))"
  by (simp split: prod.split)

text \<open>The registry client: what a sequence of lookups leaves in its cache.\<close>

fun lookups :: "((('http \<Rightarrow> string \<Rightarrow> (string \<times> string) option \<Rightarrow> http_response)) \<times> u32) list
      \<Rightarrow> 'http schema_registry_client \<Rightarrow> 'http schema_registry_client" where
  "lookups [] client = client"
| "lookups ((send, i) # rest) client = lookups rest (snd (fetch_schema_by_id send i client))"

definition answered :: "('http \<Rightarrow> string \<Rightarrow> (string \<times> string) option \<Rightarrow> http_response) \<Rightarrow> u32 \<Rightarrow> 'http schema_registry_client \<Rightarrow> string \<Rightarrow> bool" where
  "answered send i client schema \<longleftrightarrow>
     (\<exists>status. send (http client) (schema_url client i) (basic_auth client) = Answer status (Some schema)
       \<and> status \<noteq> 404 \<and> \<not> (400 \<le> status \<and> status < 600))"

lemma fetch_schema_cached: "schema_cache client i = Some schema \<Longrightarrow> fetch_schema_by_id send i client = (Inr schema, client)"
  by (simp add: fetch_schema_by_id_def)

lemma fetch_schema_cases:
  obtains (cached) schema where "schema_cache client i = Some schema" and "fetch_schema_by_id send i client = (Inr schema, client)"
  | (fetched) schema where "schema_cache client i = None" and "answered send i client schema"
      and "fetch_schema_by_id send i client = (Inr schema, client\<lparr>schema_cache := (schema_cache client)(i \<mapsto> schema)\<rparr>)"
  | (failed) e where "schema_cache client i = None" and "fetch_schema_by_id send i client = (Inl e, client)"
  by (cases "schema_cache client i"; cases "send (http client) (schema_url client i) (basic_auth client)")
    (force simp: fetch_schema_by_id_def answered_def Let_def split: option.splits if_splits)+

text \<open>A lookup keeps everything but the cache, and the cache only grows, by answers of the registry.\<close>

lemma fetch_schema_frame [simp]:
  "http (snd (fetch_schema_by_id send i client)) = http client"
  "base_url (snd (fetch_schema_by_id send i client)) = base_url client"
  "basic_auth (snd (fetch_schema_by_id send i client)) = basic_auth client"
  by (rule fetch_schema_cases [of client i send]; simp)+

lemma answered_frame: "answered send i (snd (fetch_schema_by_id send' j client)) = answered send i client"
  by (intro ext) (simp add: answered_def schema_url_def)

lemma lookups_frame [simp]: "base_url (lookups rest client) = base_url client"
  by (induction rest client rule: lookups.induct) simp_all

lemma fetch_schema_keeps:
  "schema_cache client i = Some schema \<Longrightarrow> schema_cache (snd (fetch_schema_by_id send j client)) i = Some schema"
  by (rule fetch_schema_cases [of client j send]; auto)

lemma lookups_keep: "schema_cache client i = Some schema \<Longrightarrow> schema_cache (lookups rest client) i = Some schema"
  by (induction rest client rule: lookups.induct) (simp_all add: fetch_schema_keeps)

lemma lookups_cached:
  "schema_cache (lookups rest client) i = Some schema \<Longrightarrow>
    schema_cache client i = Some schema \<or> (\<exists>(send, j)\<in>set rest. j = i \<and> answered send i client schema)"
proof (induction rest client rule: lookups.induct)
  case (2 send j rest client)
  let ?client = "snd (fetch_schema_by_id send j client)"
  have "schema_cache ?client i = Some schema \<or> (\<exists>(send, k)\<in>set rest. k = i \<and> answered send i client schema)"
    using 2 by (simp add: answered_frame)
  moreover have "schema_cache ?client i = Some schema \<Longrightarrow> schema_cache client i = Some schema \<or> j = i \<and> answered send i client schema"
    by (rule fetch_schema_cases [of client j send]; auto split: if_splits)
  ultimately show ?case by auto
qed simp

section \<open>Properties\<close>

text \<open>C14: A metadata client that is served was built from exactly the version of the connection it is
  asked for, by this request or by an earlier request or connect; and it stays the one client of that
  version, whatever a rebuild would give, until the connection is released, edited or fails to connect.\<close>
theorem pool_serves_current_client:
  assumes served: "metadata_client connection built (fold client_step calls new_client) = (Inr c, s)"
    and quiet: "\<forall>call\<in>set later. undisturbed (conn_id connection) (updated_at connection) call"
  shows "(built = Inr c \<or> (\<exists>call\<in>set calls. builds_metadata (conn_id connection) (updated_at connection) c call))
    \<and> fst (metadata_client connection built' (fold client_step later s)) = Inr c"
proof
  show "built = Inr c \<or> (\<exists>call\<in>set calls. builds_metadata (conn_id connection) (updated_at connection) c call)"
    using metadata_served(2) [OF served] client_steps_pooled [of calls new_client] by (auto simp: new_client_def)
  show "fst (metadata_client connection built' (fold client_step later s)) = Inr c"
    by (simp add: metadata_hit client_steps_undisturbed [OF quiet metadata_served(1) [OF served]])
qed

theorem pool_serves_current_client_witness:
  "metadata_client (conn_at ''a'' ''v2'') (Inr (2::nat))
       (fold client_step [Use_metadata (conn_at ''a'' ''v1'') (Inr 1), Use_admin (conn_at ''a'' ''v2'') (Inr (7::nat))] new_client)
     = (Inr 2, \<lparr>metadata_clients = [''a'' \<mapsto> (''v2'', 2)], admin_clients = [''a'' \<mapsto> (''v2'', 7)]\<rparr>)
   \<and> fst (metadata_client (conn_at ''a'' ''v2'') (Inr (9::nat))
       (fold client_step [Drop ''b''] \<lparr>metadata_clients = [''a'' \<mapsto> (''v2'', 2)], admin_clients = [''a'' \<mapsto> (''v2'', 7::nat)]\<rparr>)) = Inr 2"
proof -
  have *: "metadata_client (conn_at ''a'' ''v2'') (Inr (2::nat))
       (fold client_step [Use_metadata (conn_at ''a'' ''v1'') (Inr 1), Use_admin (conn_at ''a'' ''v2'') (Inr (7::nat))] new_client)
     = (Inr 2, \<lparr>metadata_clients = [''a'' \<mapsto> (''v2'', 2)], admin_clients = [''a'' \<mapsto> (''v2'', 7)]\<rparr>)"
    by (simp add: metadata_client_def admin_client_def pool_get_def new_client_def)
  show ?thesis
    by (rule conjI [OF * conjunct2 [OF pool_serves_current_client [OF *, of "[Drop ''b'']" "Inr 9"]]]) simp
qed

text \<open>A connect that fails leaves no client of the connection in either pool, and touches no other
  connection's; one that succeeds leaves pooled the client whose probe the cluster answered.\<close>
theorem connect_pools_only_working_clients:
  "(case connect connection built probe s of
      (Inl e, s') \<Rightarrow> metadata_clients s' = (metadata_clients s)(conn_id connection := None)
        \<and> admin_clients s' = (admin_clients s)(conn_id connection := None)
    | (Inr status, s') \<Rightarrow> \<exists>c. probe c = Inr status
        \<and> metadata_clients s' = (metadata_clients s)(conn_id connection \<mapsto> (updated_at connection, c))
        \<and> admin_clients s' = admin_clients s)"
  by (auto simp: connect_def metadata_client_def pool_get_def Let_def drop_pooled_client_def fun_upd_idem
      split: prod.split option.split sum.split if_splits)

text \<open>The slot carries nothing from one request on a shared client to the next: the reason each reports is
  the first its own polls yield, or the error's own text, whatever the slot held before, and the report
  is an authentication failure exactly when that reason or the error says so. (What the polls yield is
  the subject of \<^verbatim>\<open>Error_Slot\<close>.)\<close>
theorem slot_never_carries_over:
  "observe_all requests slot =
     map (\<lambda>(what, result, polls).
       case result of
         Inr x \<Rightarrow> Inr x
       | Inl err \<Rightarrow>
           Inl (fail_with (if is_auth_failure (Some err) (Some (own_reason err polls)) then Authentication else Kafka)
             (what @ '': '' @ own_reason err polls))) requests"
proof (induction requests arbitrary: slot)
  case (Cons a requests)
  then show ?case
    by (cases a) (simp add: observe_all_Cons observed_eq failure_report_def del: observe_all.simps(2) split: sum.split)
qed simp

text \<open>A schema the registry client returns is always the registry's own answer for that id, never an
  error page and never another id's; once returned it is returned for good, without another request.\<close>
theorem schemas_come_from_the_registry:
  assumes new: "new_registry_client lib endpoint auth = Inr client"
    and got: "fetch_schema_by_id send i (lookups earlier client) = (Inr schema, client')"
  shows "(\<exists>(send', j)\<in>set ((send, i) # earlier). j = i \<and> answered send' i client schema)
    \<and> fetch_schema_by_id send'' i (lookups later client') = (Inr schema, lookups later client')"
proof
  have empty: "schema_cache client = Map.empty"
    using new by (auto simp: new_registry_client_def split: option.splits)
  have client': "client' = snd (fetch_schema_by_id send i (lookups earlier client))" using got by simp
  have cached: "schema_cache client' i = Some schema"
    using got by (rule_tac fetch_schema_cases [of "lookups earlier client" i send]) auto
  have "client' = lookups (earlier @ [(send, i)]) client"
    unfolding client' by (induction earlier client rule: lookups.induct) simp_all
  then show "\<exists>(send', j)\<in>set ((send, i) # earlier). j = i \<and> answered send' i client schema"
    using lookups_cached [of "earlier @ [(send, i)]" client i schema] cached empty by auto
  show "fetch_schema_by_id send'' i (lookups later client') = (Inr schema, lookups later client')"
    using fetch_schema_cached lookups_keep [OF cached] by blast
qed

theorem schemas_come_from_the_registry_witness:
  "fetch_schema_by_id (\<lambda>h url a. Answer 500 None) 7
     (lookups [] \<lparr>http = (), base_url = ''http://r'', basic_auth = None, schema_cache = [7 \<mapsto> ''x'']\<rparr>)
   = (Inr ''x'', \<lparr>http = (), base_url = ''http://r'', basic_auth = None, schema_cache = [7 \<mapsto> ''x'']\<rparr>)"
proof -
  define lib :: "(unit, unit, unit) http_lib" where
    "lib = \<lparr>read_file = (\<lambda>_. None), certificate_from_pem = (\<lambda>_. None), identity_from_pkcs12 = (\<lambda>_ _. None), build_http = (\<lambda>_ _. Some ())\<rparr>"
  let ?auth = "\<lparr>basic_auth_credentials = None, trust_store_location = None, registry_keystore_location = None, registry_keystore_password = None\<rparr>"
  have new: "new_registry_client lib ''http://r/'' ?auth = Inr \<lparr>http = (), base_url = ''http://r'', basic_auth = None, schema_cache = Map.empty\<rparr>"
    by (simp add: lib_def new_registry_client_def root_certificate_def client_identity_def basic_auth_of_def trim_end_slashes_def)
  have got: "fetch_schema_by_id (\<lambda>h url a. Answer 200 (Some ''x'')) 7 (lookups [] \<lparr>http = (), base_url = ''http://r'', basic_auth = None, schema_cache = Map.empty\<rparr>)
     = (Inr ''x'', \<lparr>http = (), base_url = ''http://r'', basic_auth = None, schema_cache = [7 \<mapsto> ''x'']\<rparr>)"
    by (simp add: fetch_schema_by_id_def)
  show ?thesis using schemas_come_from_the_registry [OF new got, of "\<lambda>h url a. Answer 500 None" "[]"] by simp
qed

end
