(* ===== verification/Cluster_Queries.thy ===== *)
theory Cluster_Queries
  imports Client_Pools Fetch_Plan Assignment "HOL-Library.AList"
begin

text \<open>
  The read-only questions the tree and the detail panels ask a cluster
  (\<^verbatim>\<open>backend/kafka/src/client.rs\<close>, with the rows of \<^verbatim>\<open>backend/core/src/cluster.rs\<close>): brokers,
  topics, consumer groups, partitions, message counts, topic configuration, the lag of a consumer
  group, and the reachability ping. The metadata client comes from the pool of
  \<^verbatim>\<open>Client_Pools\<close>; what a call on it gives is the argument \<open>ask\<close>, a result and the polls that serve
  the client's events afterwards.
\<close>

section \<open>The data\<close>

record broker_summary =
  broker_id :: int
  broker_host :: string
  broker_port :: int

record topic_summary =
  topic_name :: string
  partition_count :: nat

record consumer_group_summary =
  group_id :: string
  group_state :: string

record partition_summary =
  ps_id :: int
  ps_leader :: int
  ps_replicas :: "int list"
  ps_isr :: "int list"
  low_offset :: int
  high_offset :: int

record config_entry =
  entry_name :: string
  entry_value :: "string option"

record partition_lag =
  lag_topic :: string
  lag_partition :: int
  current_offset :: "int option"
  log_end_offset :: int
  lag_of :: "int option"
  lag_client_id :: "string option"
  lag_client_host :: "string option"

record consumer_group_lag =
  lag_state :: string
  lag_partitions :: "partition_lag list"

text \<open>What the client library answers.\<close>

record partition_metadata =
  pm_id :: int
  pm_leader :: int
  pm_replicas :: "int list"
  pm_isr :: "int list"

record cluster_metadata =
  md_brokers :: "(int \<times> string \<times> int) list"
  md_topics :: "(string \<times> partition_metadata list) list"

record group_member =
  member_client_id :: string
  member_client_host :: string
  member_assignment :: "byte list option"

record group_info =
  gi_name :: string
  gi_state :: string
  gi_protocol_type :: string
  gi_members :: "group_member list"

type_synonym ('c, 'r) ask = "'c \<Rightarrow> (kafka_error + 'r) \<times> string option list"

section \<open>Questions on the pooled client\<close>

text \<open>One call through \<^verbatim>\<open>observed\<close>; the slot it finds does not matter, it clears it first.\<close>

definition request :: "string \<Rightarrow> ('c, 'r) ask \<Rightarrow> 'c \<Rightarrow> report + 'r" where
  "request what ask client = (case ask client of (result, polls) \<Rightarrow> fst (observed what result polls None))"

definition with_metadata_client ::
    "conn \<Rightarrow> report + 'c \<Rightarrow> ('c \<Rightarrow> report + 'r) \<Rightarrow> ('c, 'a) rdkafka_client \<Rightarrow> (report + 'r) \<times> ('c, 'a) rdkafka_client" where
  "with_metadata_client connection built body s =
     (case metadata_client connection built s of (client, s) \<Rightarrow> (and_then client body, s))"

definition list_brokers ::
    "conn \<Rightarrow> report + 'c \<Rightarrow> ('c, cluster_metadata) ask \<Rightarrow> ('c, 'a) rdkafka_client
      \<Rightarrow> (report + broker_summary list) \<times> ('c, 'a) rdkafka_client" where
  "list_brokers connection built ask =
     with_metadata_client connection built (\<lambda>client.
       and_then (request ''failed to fetch broker metadata'' ask client) (\<lambda>metadata.
         Inr (map (\<lambda>(i, host, port). \<lparr>broker_id = i, broker_host = host, broker_port = port\<rparr>) (md_brokers metadata))))"

definition list_topics ::
    "conn \<Rightarrow> report + 'c \<Rightarrow> ('c, cluster_metadata) ask \<Rightarrow> ('c, 'a) rdkafka_client
      \<Rightarrow> (report + topic_summary list) \<times> ('c, 'a) rdkafka_client" where
  "list_topics connection built ask =
     with_metadata_client connection built (\<lambda>client.
       and_then (request ''failed to fetch topic metadata'' ask client) (\<lambda>metadata.
         Inr (map (\<lambda>(name, ps). \<lparr>topic_name = name, partition_count = length ps\<rparr>) (md_topics metadata))))"

definition list_consumer_groups ::
    "conn \<Rightarrow> report + 'c \<Rightarrow> ('c, group_info list) ask \<Rightarrow> ('c, 'a) rdkafka_client
      \<Rightarrow> (report + consumer_group_summary list) \<times> ('c, 'a) rdkafka_client" where
  "list_consumer_groups connection built ask =
     with_metadata_client connection built (\<lambda>client.
       and_then (request ''failed to fetch consumer group list'' ask client) (\<lambda>groups.
         Inr (map (\<lambda>g. \<lparr>group_id = gi_name g, group_state = gi_state g\<rparr>) groups)))"

text \<open>The partitions of one topic with their watermarks, for the count and the partition table.\<close>

definition topic_watermarks ::
    "broker \<Rightarrow> ('c, cluster_metadata) ask \<Rightarrow> string \<Rightarrow> 'c \<Rightarrow> report + partition_metadata list \<times> (int \<times> int \<times> int) list" where
  "topic_watermarks b ask topic client =
     and_then (request (''failed to fetch metadata for topic '' @ topic) ask client) (\<lambda>metadata.
     and_then (find_topic topic (md_topics metadata)) (\<lambda>ps.
     and_then (watermarks_for_partitions b topic (map pm_id ps)) (\<lambda>watermarks.
     Inr (ps, watermarks))))"

definition count_topic_messages ::
    "broker \<Rightarrow> conn \<Rightarrow> report + 'c \<Rightarrow> ('c, cluster_metadata) ask \<Rightarrow> string \<Rightarrow> ('c, 'a) rdkafka_client
      \<Rightarrow> (report + int) \<times> ('c, 'a) rdkafka_client" where
  "count_topic_messages b connection built ask topic =
     with_metadata_client connection built (\<lambda>client.
       and_then (topic_watermarks b ask topic client) (\<lambda>(ps, watermarks). Inr (count_messages watermarks)))"

definition partition_summary_of :: "(int \<times> int \<times> int) list \<Rightarrow> partition_metadata \<Rightarrow> partition_summary" where
  "partition_summary_of watermarks p =
     (let (low, high) = (case bt_get watermarks (pm_id p) of Some marks \<Rightarrow> marks | None \<Rightarrow> (0, 0))
      in \<lparr>ps_id = pm_id p, ps_leader = pm_leader p, ps_replicas = pm_replicas p, ps_isr = pm_isr p,
          low_offset = low, high_offset = high\<rparr>)"

definition list_partitions ::
    "broker \<Rightarrow> conn \<Rightarrow> report + 'c \<Rightarrow> ('c, cluster_metadata) ask \<Rightarrow> string \<Rightarrow> ('c, 'a) rdkafka_client
      \<Rightarrow> (report + partition_summary list) \<times> ('c, 'a) rdkafka_client" where
  "list_partitions b connection built ask topic =
     with_metadata_client connection built (\<lambda>client.
       and_then (topic_watermarks b ask topic client) (\<lambda>(ps, watermarks). Inr (map (partition_summary_of watermarks) ps)))"

text \<open>\<^verbatim>\<open>describe_topic_config\<close>: \<open>describe\<close> is the admin client's answer, one result per resource.\<close>

definition describe_topic_config ::
    "conn \<Rightarrow> report + 'a \<Rightarrow> ('a \<Rightarrow> kafka_error + (unit + (string \<times> string option) list) list) \<Rightarrow> string
      \<Rightarrow> ('c, 'a) rdkafka_client \<Rightarrow> (report + config_entry list) \<times> ('c, 'a) rdkafka_client" where
  "describe_topic_config connection built describe topic s =
     (case admin_client connection built s of
        (Inl e, s) \<Rightarrow> (Inl e, s)
      | (Inr admin, s) \<Rightarrow>
          (case describe admin of
             Inl err \<Rightarrow> (Inl (failure_report err (error_text err) (''failed to describe config for topic '' @ topic)), s)
           | Inr [] \<Rightarrow> (Inl (fail_with Kafka (''no config result returned for topic '' @ topic)), s)
           | Inr (Inl _ # _) \<Rightarrow> (Inl (fail_with Kafka (''kafka rejected describe-config for topic '' @ topic)), s)
           | Inr (Inr entries # _) \<Rightarrow>
               (Inr (map (\<lambda>(name, val). \<lparr>entry_name = name, entry_value = val\<rparr>) entries), s)))"

section \<open>The lag of a consumer group\<close>

definition group_members :: "group_info \<Rightarrow> group_member list" where
  "group_members g = (if gi_state g = ''Empty'' \<or> gi_state g = ''Dead'' then [] else gi_members g)"

record lag_scan =
  owners :: "((string \<times> int) \<times> (string \<times> string)) list"
  decode_failures :: nat
  decode_attempts :: nat

definition scan_member :: "group_info \<Rightarrow> group_member \<Rightarrow> lag_scan \<Rightarrow> lag_scan" where
  "scan_member g m s =
     (if gi_protocol_type g \<noteq> ''consumer'' then s
      else case member_assignment m of
        None \<Rightarrow> s
      | Some assignment_bytes \<Rightarrow>
          let s = s\<lparr>decode_attempts := decode_attempts s + 1\<rparr> in
          case decode_consumer_protocol_assignment assignment_bytes of
            Inr partitions \<Rightarrow>
              s\<lparr>owners := fold (\<lambda>tp. AList.update tp (member_client_id m, member_client_host m)) partitions (owners s)\<rparr>
          | Inl _ \<Rightarrow> s\<lparr>decode_failures := decode_failures s + 1\<rparr>)"

definition scan_members :: "group_info \<Rightarrow> lag_scan" where
  "scan_members g = fold (scan_member g) (group_members g) \<lparr>owners = [], decode_failures = 0, decode_attempts = 0\<rparr>"

definition partitions_by_topic :: "(string \<times> int \<times> int option) list \<Rightarrow> (string \<times> int list) list" where
  "partitions_by_topic committed =
     fold (\<lambda>(topic, p, offset) m. bt_insert topic ((case bt_get m topic of Some ps \<Rightarrow> ps | None \<Rightarrow> []) @ [p]) m) committed []"

fun watermarks_by_topic ::
    "broker \<Rightarrow> (string \<times> int list) list \<Rightarrow> (string \<times> int \<rightharpoonup> int \<times> int) \<Rightarrow> report + (string \<times> int \<rightharpoonup> int \<times> int)" where
  "watermarks_by_topic b [] watermarks = Inr watermarks"
| "watermarks_by_topic b ((topic, ps) # rest) watermarks =
     and_then (watermarks_for_partitions b topic ps) (\<lambda>found.
       watermarks_by_topic b rest (fold (\<lambda>(p, marks) w. w((topic, p) \<mapsto> marks)) found watermarks))"

definition lag_row ::
    "((string \<times> int) \<times> (string \<times> string)) list \<Rightarrow> (string \<times> int \<rightharpoonup> int \<times> int) \<Rightarrow> string \<times> int \<times> int option \<Rightarrow> partition_lag" where
  "lag_row owner_of watermarks element =
     (let (topic, p, offset) = element;
          current = (case offset of Some c \<Rightarrow> if 0 \<le> c then Some c else None | None \<Rightarrow> None);
          (low, high) = (case watermarks (topic, p) of Some marks \<Rightarrow> marks | None \<Rightarrow> (0, 0));
          owner = map_of owner_of (topic, p)
      in \<lparr>lag_topic = topic, lag_partition = p, current_offset = current, log_end_offset = high,
          lag_of = map_option (\<lambda>c. max (i64 (high - c)) 0) current,
          lag_client_id = map_option fst owner, lag_client_host = map_option snd owner\<rparr>)"

text \<open>
  \<open>hash_order\<close> is the order a \<^verbatim>\<open>HashMap\<close> gives its keys in; \<open>create_group\<close> and \<open>committed\<close> are the
  client library: making a client of the group, and asking it for committed offsets.
\<close>

definition group_lag ::
    "broker \<Rightarrow> ((string \<times> int) list \<Rightarrow> (string \<times> int) list) \<Rightarrow> kafka_error + 'g
      \<Rightarrow> ('g \<Rightarrow> (string \<times> int) list \<Rightarrow> (kafka_error + (string \<times> int \<times> int option) list) \<times> string option list)
      \<Rightarrow> string \<Rightarrow> group_info \<Rightarrow> report + consumer_group_lag" where
  "group_lag b hash_order created committed gname g =
     (let scan = scan_members g in
      if 0 < decode_attempts scan \<and> decode_failures scan = decode_attempts scan
      then Inl (fail_with Kafka (''could not determine partition assignment for group '' @ gname))
      else if owners scan = [] then Inr \<lparr>lag_state = gi_state g, lag_partitions = []\<rparr>
      else
        and_then (create_client created) (\<lambda>group_client.
        case committed group_client (hash_order (map fst (owners scan))) of
          (Inl err, polls) \<Rightarrow> Inl (fst (failure err (''failed to fetch committed offsets for '' @ gname) polls None))
        | (Inr elements, polls) \<Rightarrow>
            and_then (watermarks_by_topic b (partitions_by_topic elements) Map.empty) (\<lambda>watermarks.
            Inr \<lparr>lag_state = gi_state g, lag_partitions = map (lag_row (owners scan) watermarks) elements\<rparr>)))"

definition fetch_consumer_group_lag ::
    "environment \<Rightarrow> broker \<Rightarrow> ((string \<times> int) list \<Rightarrow> (string \<times> int) list) \<Rightarrow> (client_config \<Rightarrow> kafka_error + 'g)
      \<Rightarrow> ('g \<Rightarrow> (string \<times> int) list \<Rightarrow> (kafka_error + (string \<times> int \<times> int option) list) \<times> string option list)
      \<Rightarrow> conn \<Rightarrow> report + 'c \<Rightarrow> ('c, group_info list) ask \<Rightarrow> string \<Rightarrow> ('c, 'a) rdkafka_client
      \<Rightarrow> (report + consumer_group_lag) \<times> ('c, 'a) rdkafka_client" where
  "fetch_consumer_group_lag env b hash_order create_group committed connection built ask gname =
     with_metadata_client connection built (\<lambda>client.
       and_then (request (''failed to fetch group list for '' @ gname) ask client) (\<lambda>groups.
       case find (\<lambda>g. gi_name g = gname) groups of
         None \<Rightarrow> Inl (fail_with NotFound (''group '' @ gname @ '' not found''))
       | Some g \<Rightarrow>
           let group_config = set_key ''group.id'' gname (client_config env connection)
           in group_lag b hash_order (create_group group_config) committed gname g))"

section \<open>The reachability ping\<close>

text \<open>
  Times in milliseconds. \<open>dial\<close> is the network: whether connecting to an address succeeds, and how
  long that takes to be known.
\<close>

definition TCP_PING_TIMEOUT :: nat where
  "TCP_PING_TIMEOUT = 3000"

definition PING_FANOUT_DELAY :: nat where
  "PING_FANOUT_DELAY = 250"

fun split_once_at :: "string \<Rightarrow> string \<Rightarrow> (string \<times> string) option" where
  "split_once_at pat [] = (if pat = [] then Some ([], []) else None)"
| "split_once_at pat (c # s) =
     (if starts_with (c # s) pat then Some ([], drop (length pat) (c # s))
      else map_option (\<lambda>(a, rest). (c # a, rest)) (split_once_at pat s))"

definition host_port :: "string \<Rightarrow> string" where
  "host_port entry = (case split_once_at ''://'' entry of Some (scheme, hp) \<Rightarrow> hp | None \<Rightarrow> entry)"

definition bootstrap_entries :: "string \<Rightarrow> string list" where
  "bootstrap_entries servers = map host_port (filter (\<lambda>s. s \<noteq> []) (map trim (split_on CHR '','' servers)))"

text \<open>One probe: when it ends, and whether it connected.\<close>

definition ping_attempt :: "(string \<Rightarrow> bool \<times> nat) \<Rightarrow> nat \<times> string \<Rightarrow> nat \<times> bool" where
  "ping_attempt dial attempt =
     (let (index, addr) = attempt;
          started = (if 0 < index then PING_FANOUT_DELAY else 0);
          (connects, t) = dial addr
      in (started + min t TCP_PING_TIMEOUT, connects \<and> t \<le> TCP_PING_TIMEOUT))"

fun join_attempts :: "(nat \<times> bool) list \<Rightarrow> nat \<Rightarrow> connection_status \<times> nat" where
  "join_attempts [] now = (Unreachable, now)"
| "join_attempts ((t, connected) # joined) now = (if connected then (Reachable, t) else join_attempts joined t)"

definition ping_bootstrap :: "(string \<Rightarrow> bool \<times> nat) \<Rightarrow> string \<Rightarrow> connection_status \<times> nat" where
  "ping_bootstrap dial servers =
     join_attempts (sort_key fst (map (ping_attempt dial) (enumerate 0 (bootstrap_entries servers)))) 0"

definition check_status :: "(string \<Rightarrow> bool \<times> nat) \<Rightarrow> conn \<Rightarrow> connection_status" where
  "check_status dial connection = fst (ping_bootstrap dial (bootstrap_servers connection))"

text \<open>\<^verbatim>\<open>test_connection\<close> probes with a client of its own, \<^verbatim>\<open>run_probe\<close>.\<close>

definition run_probe :: "(client_config \<Rightarrow> kafka_error + 'c) \<Rightarrow> ('c, 'r) ask \<Rightarrow> client_config \<Rightarrow> report + connection_status" where
  "run_probe create ask config =
     and_then (create_client (create config)) (\<lambda>client.
       case ask client of (result, polls) \<Rightarrow> fst (probe_with result polls None))"

definition test_connection ::
    "environment \<Rightarrow> (client_config \<Rightarrow> kafka_error + 'c) \<Rightarrow> ('c, 'r) ask \<Rightarrow> string \<Rightarrow> security_protocol
      \<Rightarrow> sasl_mechanism option \<Rightarrow> string option \<Rightarrow> string option \<Rightarrow> broker_ssl_config \<Rightarrow> report + connection_status" where
  "test_connection env create ask servers protocol mechanism username password ssl =
     run_probe create ask (build_client_config env servers protocol mechanism username password ssl)"

section \<open>Lemmas\<close>

text \<open>The pool and the questions.\<close>

lemma with_metadata_client_Inr:
  assumes "with_metadata_client connection built body s = (Inr r, s')"
  obtains client where "metadata_client connection built s = (Inr client, s')" and "body client = Inr r"
  using assms by (cases "metadata_client connection built s") (auto simp: with_metadata_client_def)

lemma topic_watermarks_Inr:
  assumes "topic_watermarks b ask topic client = Inr (ps, watermarks)"
  shows "watermarks_for_partitions b topic (map pm_id ps) = Inr watermarks"
  using assms by (auto simp: topic_watermarks_def)

lemma partition_summary_marks:
  assumes "watermarks_for_partitions b topic (map pm_id ps) = Inr watermarks" and "p \<in> set ps"
  shows "query_watermarks b topic (pm_id p)
    = Inr (low_offset (partition_summary_of watermarks p), high_offset (partition_summary_of watermarks p))"
proof -
  obtain m where m: "bt_get watermarks (pm_id p) = Some m" "query_watermarks b topic (pm_id p) = Inr m"
    using watermarks_found_at [OF assms(1), of "pm_id p"] assms(2) by auto
  obtain low high where "m = (low, high)" by (cases m)
  then show ?thesis using m by (simp add: partition_summary_of_def)
qed

text \<open>The watermark map of distinct partitions, in their own order.\<close>

lemma sum_over_marks:
  fixes f :: "int \<times> int \<Rightarrow> int"
  assumes "distinct ps" and "bt_ok marks" and "fst ` set marks = set ps"
  shows "(\<Sum>(p, m)\<leftarrow>marks. f m) = (\<Sum>p\<leftarrow>ps. f (the (bt_get marks p)))"
proof -
  have d: "distinct (map fst marks)" using assms(2) by (rule bt_ok_distinct)
  have "(\<Sum>(p, m)\<leftarrow>marks. f m) = (\<Sum>p\<leftarrow>map fst marks. f (the (bt_get marks p)))"
    using d by (auto simp: comp_def intro!: arg_cong [of _ _ sum_list] map_cong)
  also have "\<dots> = (\<Sum>p\<in>set (map fst marks). f (the (bt_get marks p)))"
    using d by (rule sum_list_distinct_conv_sum_set)
  also have "\<dots> = (\<Sum>p\<leftarrow>ps. f (the (bt_get marks p)))"
    using assms(1,3) by (simp add: sum_list_distinct_conv_sum_set)
  finally show ?thesis .
qed

text \<open>The owners of a group's partitions: the claims of its members, the last one on a partition counts.\<close>

definition named_partitions :: "group_info \<Rightarrow> group_member \<Rightarrow> (string \<times> int) list" where
  "named_partitions g m =
     (if gi_protocol_type g \<noteq> ''consumer'' then []
      else case map_option decode_consumer_protocol_assignment (member_assignment m) of
        Some (Inr ps) \<Rightarrow> ps
      | _ \<Rightarrow> [])"

definition member_claims :: "group_info \<Rightarrow> group_member \<Rightarrow> ((string \<times> int) \<times> (string \<times> string)) list" where
  "member_claims g m = map (\<lambda>tp. (tp, (member_client_id m, member_client_host m))) (named_partitions g m)"

definition claims :: "group_info \<Rightarrow> ((string \<times> int) \<times> (string \<times> string)) list" where
  "claims g = concat (map (member_claims g) (group_members g))"

lemma owners_scan_member:
  "owners (scan_member g m s) = fold (\<lambda>(tp, owner). AList.update tp owner) (member_claims g m) (owners s)"
  by (cases "member_assignment m")
    (auto simp: scan_member_def member_claims_def named_partitions_def Let_def fold_map comp_def split: sum.split)

lemma owners_fold_scan:
  "owners (fold (scan_member g) ms s)
    = fold (\<lambda>(tp, owner). AList.update tp owner) (concat (map (member_claims g) ms)) (owners s)"
  by (induction ms arbitrary: s) (simp_all add: owners_scan_member)

lemma owners_scan: "owners (scan_members g) = fold (\<lambda>(tp, owner). AList.update tp owner) (claims g) []"
  by (simp add: scan_members_def owners_fold_scan claims_def)

lemma fold_update_distinct:
  "distinct (map fst al) \<Longrightarrow> distinct (map fst (fold (\<lambda>(k, v). AList.update k v) cs al))"
  by (induction cs arbitrary: al) (auto simp: distinct_update)

lemma fold_update_map_of:
  "map_of (fold (\<lambda>(k, v). AList.update k v) cs al) = map_of al ++ map_of (rev cs)"
  by (induction cs arbitrary: al) (auto simp: update_conv' map_add_def fun_eq_iff split: option.split)

lemma owners_props:
  "distinct (map fst (owners (scan_members g)))"
  "map_of (owners (scan_members g)) = map_of (rev (claims g))"
  "fst ` set (owners (scan_members g)) = fst ` set (claims g)"
proof -
  show "distinct (map fst (owners (scan_members g)))"
    by (simp add: owners_scan fold_update_distinct)
  show m: "map_of (owners (scan_members g)) = map_of (rev (claims g))"
    by (simp add: owners_scan fold_update_map_of)
  have "fst ` set (owners (scan_members g)) = dom (map_of (owners (scan_members g)))"
    by (simp add: dom_map_of_conv_image_fst)
  then show "fst ` set (owners (scan_members g)) = fst ` set (claims g)"
    by (simp add: m dom_map_of_conv_image_fst)
qed

lemma owner_of_claim:
  assumes "tp \<in> fst ` set (claims g)"
  obtains owner where "map_of (owners (scan_members g)) tp = Some owner" and "(tp, owner) \<in> set (claims g)"
proof -
  obtain owner where o: "map_of (rev (claims g)) tp = Some owner"
    using assms by (metis image_set map_of_eq_None_iff not_None_eq set_rev rev_map)
  then have "(tp, owner) \<in> set (claims g)" using map_of_SomeD by fastforce
  then show ?thesis using that o owners_props(2) [of g] by simp
qed

text \<open>The watermarks of the committed partitions, topic by topic.\<close>

definition from_query :: "broker \<Rightarrow> (string \<times> int \<rightharpoonup> int \<times> int) \<Rightarrow> bool" where
  "from_query b w \<longleftrightarrow> (\<forall>t p m. w (t, p) = Some m \<longrightarrow> query_watermarks b t p = Inr m)"

lemma fold_put_marks:
  "fold (\<lambda>(p, marks) w. w((t, p) \<mapsto> marks)) found w (t', q)
    = (if t' = t then case map_of (rev found) q of Some m \<Rightarrow> Some m | None \<Rightarrow> w (t', q) else w (t', q))"
  by (induction found arbitrary: w) (auto simp: map_add_def split: option.splits)

lemma map_of_rev_bt: "bt_ok m \<Longrightarrow> map_of (rev m) = map_of m"
  using bt_ok_distinct [of m] by (metis map_of_eqI map_of_inject_set rev_map distinct_rev set_rev)

lemma watermarks_by_topic_found:
  "watermarks_by_topic b parts w0 = Inr w \<Longrightarrow> from_query b w0 \<Longrightarrow>
    from_query b w \<and> (\<forall>tp. w0 tp \<noteq> None \<longrightarrow> w tp \<noteq> None)
    \<and> (\<forall>t ps p. (t, ps) \<in> set parts \<longrightarrow> p \<in> set ps \<longrightarrow> w (t, p) \<noteq> None)"
proof (induction b parts w0 rule: watermarks_by_topic.induct)
  case (2 b t ps rest w0)
  from "2.prems"(1) obtain found where found: "watermarks_for_partitions b t ps = Inr found"
    and rest: "watermarks_by_topic b rest (fold (\<lambda>(p, marks) w. w((t, p) \<mapsto> marks)) found w0) = Inr w"
    by auto
  let ?w = "fold (\<lambda>(p, marks) w. w((t, p) \<mapsto> marks)) found w0"
  note f = watermarks_found [OF found]
  have at: "?w (t', q) = (if t' = t then case bt_get found q of Some m \<Rightarrow> Some m | None \<Rightarrow> w0 (t', q) else w0 (t', q))" for t' q
    using f(1) by (simp add: fold_put_marks map_of_rev_bt)
  have "from_query b ?w"
    unfolding from_query_def at using f(3) "2.prems"(2) by (auto simp: from_query_def split: option.splits if_splits)
  then have IH: "from_query b w" "\<And>tp. ?w tp \<noteq> None \<Longrightarrow> w tp \<noteq> None"
    "\<And>t ps p. (t, ps) \<in> set rest \<Longrightarrow> p \<in> set ps \<Longrightarrow> w (t, p) \<noteq> None"
    using "2.IH" [OF rest] by blast+
  have old: "?w tp \<noteq> None" if "w0 tp \<noteq> None" for tp
    using that by (cases tp) (auto simp: at split: option.splits)
  have new: "?w (t, p) \<noteq> None" if "p \<in> set ps" for p
  proof -
    have "bt_get found p \<noteq> None" using that f(2) by (simp add: map_of_eq_None_iff)
    then show ?thesis by (auto simp: at)
  qed
  show ?case
  proof (intro conjI allI impI)
    show "from_query b w" by (rule IH(1))
    show "w tp \<noteq> None" if "w0 tp \<noteq> None" for tp
      using that by (intro IH(2) old)
    show "w (t', q) \<noteq> None" if "(t', qs) \<in> set ((t, ps) # rest)" and "q \<in> set qs" for t' qs q
    proof (cases "(t', qs) \<in> set rest")
      case True
      then show ?thesis using that(2) by (rule IH(3))
    next
      case False
      then have "t' = t" "qs = ps" using that(1) by simp_all
      then show ?thesis using that(2) by (intro IH(2)) (simp add: new)
    qed
  qed
qed (auto simp: from_query_def)

definition put_topic :: "string \<times> int \<times> int option \<Rightarrow> (string \<times> int list) list \<Rightarrow> (string \<times> int list) list" where
  "put_topic = (\<lambda>(topic, p, offset) m. bt_insert topic ((case bt_get m topic of Some ps \<Rightarrow> ps | None \<Rightarrow> []) @ [p]) m)"

lemma put_topic_step:
  assumes "bt_get m t = Some ps" and "p \<in> set ps"
  shows "\<exists>ps. bt_get (put_topic c m) t = Some ps \<and> p \<in> set ps"
  using assms by (cases c) (auto simp: put_topic_def)

lemma put_topic_keeps:
  "\<exists>ps. bt_get m t = Some ps \<and> p \<in> set ps \<Longrightarrow> \<exists>ps. bt_get (fold put_topic cs m) t = Some ps \<and> p \<in> set ps"
proof (induction cs arbitrary: m)
  case (Cons c cs)
  then have "\<exists>ps. bt_get (put_topic c m) t = Some ps \<and> p \<in> set ps" using put_topic_step by blast
  then show ?case using Cons.IH by simp
qed simp

lemma partitions_by_topic_covers:
  assumes "(t, p, offset) \<in> set committed"
  shows "\<exists>ps. (t, ps) \<in> set (partitions_by_topic committed) \<and> p \<in> set ps"
proof -
  obtain xs ys where c: "committed = xs @ (t, p, offset) # ys" using assms by (auto simp: in_set_conv_decomp)
  let ?m = "put_topic (t, p, offset) (fold put_topic xs [])"
  have "\<exists>ps. bt_get ?m t = Some ps \<and> p \<in> set ps" by (simp add: put_topic_def)
  then have "\<exists>ps. bt_get (fold put_topic ys ?m) t = Some ps \<and> p \<in> set ps" by (rule put_topic_keeps)
  then show ?thesis
    unfolding partitions_by_topic_def c put_topic_def [symmetric] by (auto dest: map_of_SomeD)
qed

text \<open>A lag table's rows: the owned partitions, when the library answers for those it was asked about.\<close>

definition answers_as_asked ::
    "('g \<Rightarrow> (string \<times> int) list \<Rightarrow> (kafka_error + (string \<times> int \<times> int option) list) \<times> string option list) \<Rightarrow> bool" where
  "answers_as_asked committed \<longleftrightarrow>
     (\<forall>client asked elements polls. committed client asked = (Inr elements, polls)
        \<longrightarrow> map (\<lambda>(t, p, offset). (t, p)) elements = asked)"

text \<open>The partitions a member's assignment names.\<close>

definition owns :: "group_info \<Rightarrow> group_member \<Rightarrow> string \<times> int \<Rightarrow> bool" where
  "owns g m tp \<longleftrightarrow> m \<in> set (group_members g) \<and> tp \<in> set (named_partitions g m)"

lemma claims_owns: "fst ` set (claims g) = {tp. \<exists>m. owns g m tp}"
  by (force simp: claims_def member_claims_def owns_def)

lemma claim_owns: "(tp, owner) \<in> set (claims g) \<Longrightarrow>
    \<exists>m. owns g m tp \<and> owner = (member_client_id m, member_client_host m)"
  by (auto simp: claims_def member_claims_def owns_def)

lemma group_lag_table:
  assumes "group_lag b hash_order created committed gname g = Inr lag" and "owners (scan_members g) \<noteq> []"
  obtains client elements polls watermarks where
    "committed client (hash_order (map fst (owners (scan_members g)))) = (Inr elements, polls)"
    and "watermarks_by_topic b (partitions_by_topic elements) Map.empty = Inr watermarks"
    and "lag_partitions lag = map (lag_row (owners (scan_members g)) watermarks) elements"
proof -
  let ?asked = "hash_order (map fst (owners (scan_members g)))"
  obtain client where c: "(case committed client ?asked of
      (Inl err, polls) \<Rightarrow> Inl (fst (failure err (''failed to fetch committed offsets for '' @ gname) polls None))
    | (Inr elements, polls) \<Rightarrow>
        and_then (watermarks_by_topic b (partitions_by_topic elements) Map.empty) (\<lambda>watermarks.
        Inr \<lparr>lag_state = gi_state g, lag_partitions = map (lag_row (owners (scan_members g)) watermarks) elements\<rparr>)) = Inr lag"
    using assms unfolding group_lag_def Let_def and_then_Inr_iff by (simp only: if_False split: if_splits) auto
  obtain result polls where r: "committed client ?asked = (result, polls)" by (cases "committed client ?asked")
  show ?thesis
    using c r that by (cases result) auto
qed

lemma fetch_lag_Inr:
  assumes "fetch_consumer_group_lag env b hash_order create_group committed connection built ask gname s = (Inr lag, s')"
  obtains g where "gi_name g = gname"
    and "group_lag b hash_order (create_group (set_key ''group.id'' gname (client_config env connection))) committed gname g = Inr lag"
  using assms unfolding fetch_consumer_group_lag_def
  by (elim with_metadata_client_Inr) (auto simp: Let_def find_Some_iff split: option.splits)

definition row_ok :: "broker \<Rightarrow> group_info \<Rightarrow> partition_lag \<Rightarrow> bool" where
  "row_ok b g r \<longleftrightarrow>
     (\<exists>m low. owns g m (lag_topic r, lag_partition r)
        \<and> lag_client_id r = Some (member_client_id m) \<and> lag_client_host r = Some (member_client_host m)
        \<and> query_watermarks b (lag_topic r) (lag_partition r) = Inr (low, log_end_offset r)
        \<and> lag_of r = map_option (\<lambda>c. max (i64 (log_end_offset r - c)) 0) (current_offset r))"

lemma lag_row_ok:
  assumes el: "(t, p, offset) \<in> set elements" and tp: "(t, p) \<in> fst ` set (claims g)"
    and w: "watermarks_by_topic b (partitions_by_topic elements) Map.empty = Inr watermarks"
  shows "row_ok b g (lag_row (owners (scan_members g)) watermarks (t, p, offset))"
proof -
  obtain owner where o: "map_of (owners (scan_members g)) (t, p) = Some owner" "((t, p), owner) \<in> set (claims g)"
    using tp by (rule owner_of_claim)
  then obtain m where m: "owns g m (t, p)" "owner = (member_client_id m, member_client_host m)"
    using claim_owns by blast
  have "from_query b watermarks" and "watermarks (t, p) \<noteq> None"
    using watermarks_by_topic_found [OF w] partitions_by_topic_covers [OF el] by (auto simp: from_query_def)
  then obtain low high where marks: "watermarks (t, p) = Some (low, high)" "query_watermarks b t p = Inr (low, high)"
    by (auto simp: from_query_def)
  show ?thesis
    unfolding row_ok_def using o(1) m marks by (auto simp: lag_row_def Let_def intro!: exI [of _ m])
qed

text \<open>The race of the probes.\<close>

lemma ping_attempt_at:
  "ping_attempt dial (i, addr) =
     ((if 0 < i then PING_FANOUT_DELAY else 0) + min (snd (dial addr)) TCP_PING_TIMEOUT,
      fst (dial addr) \<and> snd (dial addr) \<le> TCP_PING_TIMEOUT)"
  by (simp add: ping_attempt_def split: prod.split)

lemma some_attempt_connects:
  "(\<exists>j\<in>set (map (ping_attempt dial) (enumerate n entries)). snd j)
    \<longleftrightarrow> (\<exists>addr\<in>set entries. fst (dial addr) \<and> snd (dial addr) \<le> TCP_PING_TIMEOUT)"
  by (induction entries arbitrary: n) (simp_all add: ping_attempt_at)

lemma join_attempts_reachable: "fst (join_attempts joined now) = Reachable \<longleftrightarrow> (\<exists>j\<in>set joined. snd j)"
  by (induction joined now rule: join_attempts.induct) auto

lemma join_attempts_within:
  "\<forall>j\<in>set joined. fst j \<le> bound \<Longrightarrow> now \<le> bound \<Longrightarrow> snd (join_attempts joined now) \<le> bound"
  by (induction joined now rule: join_attempts.induct) auto

lemma join_attempts_earliest:
  "sorted (map fst joined) \<Longrightarrow> (t, True) \<in> set joined \<Longrightarrow> snd (join_attempts joined now) \<le> t"
  by (induction joined now rule: join_attempts.induct) auto

section \<open>Properties\<close>

text \<open>C29: The partition table shows every partition with the watermarks the broker gave for it, never the
  stand-in of zeros, and the message count of the topic is the sum of the widths the table shows.\<close>
theorem partition_table_consistent:
  assumes rows: "list_partitions b connection built ask topic s = (Inr rows, s')" and "distinct (map ps_id rows)"
  shows "(\<forall>r\<in>set rows. query_watermarks b topic (ps_id r) = Inr (low_offset r, high_offset r))
    \<and> count_topic_messages b connection built ask topic s
        = (Inr ((\<Sum>r\<leftarrow>rows. max (i64 (high_offset r - low_offset r)) 0) mod 2 ^ 64), s')"
proof -
  obtain client ps marks where c: "metadata_client connection built s = (Inr client, s')"
    and tw: "topic_watermarks b ask topic client = Inr (ps, marks)" and r: "rows = map (partition_summary_of marks) ps"
    using rows unfolding list_partitions_def by (elim with_metadata_client_Inr) auto
  note w = topic_watermarks_Inr [OF tw]
  note found = watermarks_found [OF w]
  have ids: "map ps_id rows = map pm_id ps"
    by (auto simp: r partition_summary_of_def Let_def split: prod.split)
  have marks: "\<forall>p\<in>set ps. query_watermarks b topic (pm_id p)
      = Inr (low_offset (partition_summary_of marks p), high_offset (partition_summary_of marks p))"
    using partition_summary_marks [OF w] by blast
  have get: "the (bt_get marks (pm_id p)) = (low_offset (partition_summary_of marks p), high_offset (partition_summary_of marks p))"
    if "p \<in> set ps" for p
    using that watermarks_found_at [OF w, of "pm_id p"] marks by (metis Inr_inject image_eqI list.set_map option.sel)
  have "(\<Sum>(p, low, high)\<leftarrow>marks. max (i64 (high - low)) 0)
      = (\<Sum>p\<leftarrow>map pm_id ps. (\<lambda>(low, high). max (i64 (high - low)) 0) (the (bt_get marks p)))"
    using sum_over_marks [of "map pm_id ps" marks "\<lambda>(low, high). max (i64 (high - low)) 0"] assms(2) found(1,2) ids
    by simp
  also have "\<dots> = (\<Sum>r\<leftarrow>rows. max (i64 (high_offset r - low_offset r)) 0)"
    unfolding r by (simp add: comp_def get cong: map_cong)
  finally show ?thesis
    using c tw marks by (auto simp: r partition_summary_of_def count_topic_messages_def with_metadata_client_def count_messages_def Let_def
        split: prod.splits)
qed

lemma group_lag_rows:
  assumes order: "\<forall>ks. mset (hash_order ks) = mset ks" and lib: "answers_as_asked committed"
    and lag: "group_lag b hash_order created committed gname g = Inr lag"
  shows "distinct (map (\<lambda>r. (lag_topic r, lag_partition r)) (lag_partitions lag))
    \<and> (\<lambda>r. (lag_topic r, lag_partition r)) ` set (lag_partitions lag) = {tp. \<exists>m. owns g m tp}
    \<and> (\<forall>r\<in>set (lag_partitions lag). row_ok b g r)"
proof (cases "owners (scan_members g) = []")
  case True
  then have "claims g = []" using owners_props(3) [of g] by simp
  then have "{tp. \<exists>m. owns g m tp} = {}" using claims_owns [of g] by simp
  moreover have "lag_partitions lag = []" using lag True by (auto simp: group_lag_def Let_def split: if_splits)
  ultimately show ?thesis by simp
next
  case False
  obtain client elements polls watermarks where
    c: "committed client (hash_order (map fst (owners (scan_members g)))) = (Inr elements, polls)"
    and w: "watermarks_by_topic b (partitions_by_topic elements) Map.empty = Inr watermarks"
    and rows: "lag_partitions lag = map (lag_row (owners (scan_members g)) watermarks) elements"
    using lag False by (rule group_lag_table)
  have keys: "map (\<lambda>r. (lag_topic r, lag_partition r)) (lag_partitions lag) = map (\<lambda>(t, p, offset). (t, p)) elements"
    by (auto simp: rows lag_row_def Let_def split: prod.split)
  then have asked: "map (\<lambda>r. (lag_topic r, lag_partition r)) (lag_partitions lag)
      = hash_order (map fst (owners (scan_members g)))"
    using lib c by (auto simp: answers_as_asked_def)
  have perm: "distinct (hash_order (map fst (owners (scan_members g))))"
    "set (hash_order (map fst (owners (scan_members g)))) = fst ` set (claims g)"
    using order owners_props(1,3) [of g] by (metis mset_eq_imp_distinct_iff, metis set_mset_mset list.set_map)
  have set: "(\<lambda>r. (lag_topic r, lag_partition r)) ` set (lag_partitions lag) = fst ` set (claims g)"
    using arg_cong [OF asked, of set] perm(2) by simp
  have "row_ok b g r" if row: "r \<in> set (lag_partitions lag)" for r
  proof -
    obtain e where "e \<in> set elements" "r = lag_row (owners (scan_members g)) watermarks e"
      using row rows by auto
    moreover obtain t p offset where "e = (t, p, offset)" by (rule prod_cases3)
    ultimately have e: "(t, p, offset) \<in> set elements" "r = lag_row (owners (scan_members g)) watermarks (t, p, offset)"
      by simp_all
    then have "(t, p) \<in> fst ` set (claims g)" using set that by (force simp: lag_row_def Let_def split: prod.splits)
    then show ?thesis using lag_row_ok [OF e(1) _ w] e(2) by simp
  qed
  then show ?thesis using asked perm(1) set by (simp add: claims_owns)
qed

theorem partition_table_consistent_witness:
  "count_topic_messages \<lparr>query_watermarks = \<lambda>t p. Inr (2, 9 + p), accepts_offset = \<lambda>raw. True, offsets_for_times = \<lambda>t ps ms. None\<rparr>
     (conn_at ''a'' ''v'') (Inr ())
     (\<lambda>client. (Inr \<lparr>md_brokers = [], md_topics = [(''t'', [\<lparr>pm_id = 0, pm_leader = 1, pm_replicas = [1], pm_isr = [1]\<rparr>,
        \<lparr>pm_id = 1, pm_leader = 1, pm_replicas = [1], pm_isr = [1]\<rparr>])]\<rparr>, []))
     ''t'' (new_client :: (unit, unit) rdkafka_client)
   = (Inr 15, \<lparr>metadata_clients = [''a'' \<mapsto> (''v'', ())], admin_clients = Map.empty\<rparr>)"
proof -
  let ?b = "\<lparr>query_watermarks = \<lambda>t p. Inr (2, 9 + p), accepts_offset = \<lambda>raw. True, offsets_for_times = \<lambda>t ps ms. None\<rparr>"
  let ?ask = "\<lambda>client. (Inr \<lparr>md_brokers = [], md_topics = [(''t'', [\<lparr>pm_id = 0, pm_leader = 1, pm_replicas = [1], pm_isr = [1]\<rparr>,
        \<lparr>pm_id = 1, pm_leader = 1, pm_replicas = [1], pm_isr = [1]\<rparr>])]\<rparr>, [])"
  have *: "list_partitions ?b (conn_at ''a'' ''v'') (Inr ()) ?ask ''t'' (new_client :: (unit, unit) rdkafka_client)
    = (Inr [\<lparr>ps_id = 0, ps_leader = 1, ps_replicas = [1], ps_isr = [1], low_offset = 2, high_offset = 9\<rparr>,
            \<lparr>ps_id = 1, ps_leader = 1, ps_replicas = [1], ps_isr = [1], low_offset = 2, high_offset = 10\<rparr>],
       \<lparr>metadata_clients = [''a'' \<mapsto> (''v'', ())], admin_clients = Map.empty\<rparr>)"
    by (simp add: list_partitions_def with_metadata_client_def metadata_client_def pool_get_def new_client_def
        topic_watermarks_def request_def observed_def find_topic_def watermarks_for_partitions_in_order partition_summary_of_def)
  show ?thesis using partition_table_consistent [OF *] by (simp add: i64_def)
qed


definition small_group :: group_info where
  "small_group = \<lparr>gi_name = ''g'', gi_state = ''Stable'', gi_protocol_type = ''consumer'',
     gi_members = [\<lparr>member_client_id = ''c'', member_client_host = ''h'',
       member_assignment = Some [0, 0, 0, 0, 0, 1, 0, 1, 0x74, 0, 0, 0, 1, 0, 0, 0, 3]\<rparr>]\<rparr>"

definition small_broker :: broker where
  "small_broker = \<lparr>query_watermarks = \<lambda>t p. Inr (2, 9), accepts_offset = \<lambda>raw. True, offsets_for_times = \<lambda>t ps ms. None\<rparr>"

definition small_row :: partition_lag where
  "small_row = \<lparr>lag_topic = ''t'', lag_partition = 3, current_offset = Some 5, log_end_offset = 9, lag_of = Some 4,
     lag_client_id = Some ''c'', lag_client_host = Some ''h''\<rparr>"

definition small_env :: environment where
  "small_env = \<lparr>APP_CLIENT_ID = None, native_certs = [], encode_base64 = \<lambda>bs. []\<rparr>"

lemma small_decode: "decode_consumer_protocol_assignment [0, 0, 0, 0, 0, 1, 0, 1, 0x74, 0, 0, 0, 1, 0, 0, 0, 3] = Inr [(''t'', 3)]"
  by code_simp

lemma small_scan: "owners (scan_members small_group) = [((''t'', 3), (''c'', ''h''))]"
  "decode_failures (scan_members small_group) = 0" "decode_attempts (scan_members small_group) = 1"
  by (simp_all add: scan_members_def group_members_def small_group_def scan_member_def small_decode Let_def)

lemma small_lag: "group_lag small_broker id (Inr ()) (\<lambda>client asked. (Inr (map (\<lambda>(t, p). (t, p, Some 5)) asked), [])) ''g'' small_group
    = Inr \<lparr>lag_state = ''Stable'', lag_partitions = [small_row]\<rparr>"
proof -
  have marks: "watermarks_by_topic small_broker (partitions_by_topic [(''t'', 3, Some 5)]) Map.empty = Inr [(''t'', 3) \<mapsto> (2, 9)]"
    by (simp add: partitions_by_topic_def watermarks_for_partitions_in_order small_broker_def)
  have "lag_row [((''t'', 3), (''c'', ''h''))] [(''t'', 3) \<mapsto> (2, 9)] (''t'', 3, Some 5) = small_row"
    by (simp add: lag_row_def small_row_def i64_def)
  then show ?thesis
    by (simp add: group_lag_def small_scan create_client_def marks Let_def) (simp add: small_group_def)
qed


text \<open>The reachability ping says reachable exactly when some address of the bootstrap list answers in
  time, whichever and in whatever order they answer, within the timeout and one delay however long the
  list is; and when the first address answers, no later than it does.\<close>
theorem ping_any_broker:
  "(fst (ping_bootstrap dial servers) = Reachable
      \<longleftrightarrow> (\<exists>addr\<in>set (bootstrap_entries servers). fst (dial addr) \<and> snd (dial addr) \<le> TCP_PING_TIMEOUT))
    \<and> snd (ping_bootstrap dial servers) \<le> PING_FANOUT_DELAY + TCP_PING_TIMEOUT
    \<and> (case bootstrap_entries servers of
         [] \<Rightarrow> snd (ping_bootstrap dial servers) = 0
       | addr # _ \<Rightarrow> if fst (dial addr) \<and> snd (dial addr) \<le> TCP_PING_TIMEOUT
                     then snd (ping_bootstrap dial servers) \<le> snd (dial addr) else True)"
proof -
  let ?entries = "bootstrap_entries servers"
  let ?attempts = "map (ping_attempt dial) (enumerate 0 ?entries)"
  have "(\<exists>j\<in>set ?attempts. snd j) \<longleftrightarrow> (\<exists>addr\<in>set ?entries. fst (dial addr) \<and> snd (dial addr) \<le> TCP_PING_TIMEOUT)"
    by (rule some_attempt_connects)
  then have "fst (ping_bootstrap dial servers) = Reachable
      \<longleftrightarrow> (\<exists>addr\<in>set ?entries. fst (dial addr) \<and> snd (dial addr) \<le> TCP_PING_TIMEOUT)"
    by (simp add: ping_bootstrap_def join_attempts_reachable)
  moreover have "snd (ping_bootstrap dial servers) \<le> PING_FANOUT_DELAY + TCP_PING_TIMEOUT"
    unfolding ping_bootstrap_def by (rule join_attempts_within) (auto simp: ping_attempt_at)
  moreover have "snd (ping_bootstrap dial servers) \<le> snd (dial addr)"
    if "?entries = addr # rest" and "fst (dial addr) \<and> snd (dial addr) \<le> TCP_PING_TIMEOUT" for addr rest
  proof -
    have "(snd (dial addr), True) \<in> set (sort_key fst ?attempts)"
      unfolding set_sort using that by (simp add: ping_attempt_at)
    then show ?thesis unfolding ping_bootstrap_def by (intro join_attempts_earliest sorted_sort_key)
  qed
  moreover have "snd (ping_bootstrap dial servers) = 0" if "?entries = []"
    using that by (simp add: ping_bootstrap_def)
  ultimately show ?thesis by (cases "?entries") simp_all
qed

end
