(* ===== verification/Commands.thy ===== *)
theory Commands
  imports Cluster_Queries Registry Producer Fetch_Cancellation Db_Tables
begin

text \<open>
  The commands the user interface calls (\<^verbatim>\<open>src-tauri/src/commands/connections.rs\<close>,
  \<^verbatim>\<open>publish.rs\<close>, \<^verbatim>\<open>schema.rs\<close>): how the state of the application
  (\<^verbatim>\<open>src-tauri/src/state.rs\<close>) and the components fit together. Every command is one operation on the
  state; the client library and the network are the record \<open>cluster_lib\<close>, the clock and fresh
  identifiers are arguments. Log lines are left out. The fetch command is in \<^verbatim>\<open>Fetch_Command\<close>.
\<close>

section \<open>The state\<close>

record ('c, 'a, 'h) app_state =
  db_up :: bool
  db_connections :: "connection_row list"
  db_tabs :: "tab list"
  db_schemas :: schema_table
  kafka :: "('c, 'a) rdkafka_client"
  connections :: registry
  fetch_cancellations :: cancellations
  schema_registry :: "'h registry_clients"

text \<open>The client library and the cluster behind it.\<close>

record ('c, 'a, 'g) cluster_lib =
  lib_env :: environment
  lib_make_client :: "client_config \<Rightarrow> kafka_error + 'c"
  lib_make_admin :: "client_config \<Rightarrow> kafka_error + 'a"
  lib_make_group :: "client_config \<Rightarrow> kafka_error + 'g"
  lib_metadata :: "string option \<Rightarrow> ('c, cluster_metadata) ask"
  lib_groups :: "string option \<Rightarrow> ('c, group_info list) ask"
  lib_describe :: "string \<Rightarrow> 'a \<Rightarrow> kafka_error + (unit + (string \<times> string option) list) list"
  lib_committed :: "'g \<Rightarrow> (string \<times> int) list \<Rightarrow> (kafka_error + (string \<times> int \<times> int option) list) \<times> string option list"
  lib_hash_order :: "(string \<times> int) list \<Rightarrow> (string \<times> int) list"
  lib_broker :: broker
  lib_dial :: "string \<Rightarrow> bool \<times> nat"
  lib_create_producer :: "conn \<Rightarrow> string option"
  lib_send :: send

text \<open>\<^verbatim>\<open>CommandError\<close> is its message.\<close>

definition reply :: "report + 'r \<Rightarrow> string + 'r" where
  "reply result = (case result of Inl r \<Rightarrow> Inl (format_report r) | Inr x \<Rightarrow> Inr x)"

section \<open>The gate and the bookkeeping\<close>

definition blocked_message :: "string \<Rightarrow> string" where
  "blocked_message why =
     display_error Authentication @ '': authentication failed for this connection, so it is not being retried: '' @ why
       @ ''. Use Reconnect to try again, or edit the connection's credentials and save.''"

definition connection_for_request :: "('c, 'a, 'h) app_state \<Rightarrow> string \<Rightarrow> string + conn" where
  "connection_for_request st i =
     (case auth_block_reason i (connections st) of
        Some why \<Rightarrow> Inl (blocked_message why)
      | None \<Rightarrow> reply (conn_get (db_up st) (db_connections st) i))"

definition record_auth_outcome :: "string \<Rightarrow> report + 'r \<Rightarrow> ('c, 'a, 'h) app_state \<Rightarrow> ('c, 'a, 'h) app_state" where
  "record_auth_outcome i result st =
     (case result of
        Inr _ \<Rightarrow> st\<lparr>connections := record_auth_success i (connections st)\<rparr>
      | Inl report \<Rightarrow>
          if current_context report = Authentication
          then st\<lparr>connections := record_auth_failure i (report_reasons report) (connections st),
                  kafka := drop_pooled_client i (kafka st)\<rparr>
          else st)"

definition record_auth_success_only :: "string \<Rightarrow> report + 'r \<Rightarrow> ('c, 'a, 'h) app_state \<Rightarrow> ('c, 'a, 'h) app_state" where
  "record_auth_success_only i result st =
     (case result of
        Inr _ \<Rightarrow> st\<lparr>connections := record_auth_success i (connections st)\<rparr>
      | Inl report \<Rightarrow>
          if current_context report = Authentication then st\<lparr>kafka := drop_pooled_client i (kafka st)\<rparr> else st)"

text \<open>What the commands that question a cluster have in common.\<close>

definition broker_request ::
    "(string \<Rightarrow> report + 'r \<Rightarrow> ('c, 'a, 'h) app_state \<Rightarrow> ('c, 'a, 'h) app_state)
      \<Rightarrow> (conn \<Rightarrow> ('c, 'a) rdkafka_client \<Rightarrow> (report + 'r) \<times> ('c, 'a) rdkafka_client)
      \<Rightarrow> string \<Rightarrow> ('c, 'a, 'h) app_state \<Rightarrow> (string + 'r) \<times> ('c, 'a, 'h) app_state" where
  "broker_request record ask i st =
     (case connection_for_request st i of
        Inl e \<Rightarrow> (Inl e, st)
      | Inr connection \<Rightarrow>
          (case ask connection (kafka st) of
             (result, k) \<Rightarrow> (reply result, record i result (st\<lparr>kafka := k\<rparr>))))"

definition built :: "('c, 'a, 'g) cluster_lib \<Rightarrow> conn \<Rightarrow> report + 'c" where
  "built lib = build_metadata_client (lib_env lib) (lib_make_client lib)"

definition built_admin :: "('c, 'a, 'g) cluster_lib \<Rightarrow> conn \<Rightarrow> report + 'a" where
  "built_admin lib = build_admin_client (lib_env lib) (lib_make_admin lib)"

section \<open>Commands that question the cluster\<close>

definition connection_list_brokers ::
    "('c, 'a, 'g) cluster_lib \<Rightarrow> string \<Rightarrow> ('c, 'a, 'h) app_state \<Rightarrow> (string + broker_summary list) \<times> ('c, 'a, 'h) app_state" where
  "connection_list_brokers lib =
     broker_request record_auth_outcome (\<lambda>connection. list_brokers connection (built lib connection) (lib_metadata lib None))"

definition connection_list_topics ::
    "('c, 'a, 'g) cluster_lib \<Rightarrow> string \<Rightarrow> ('c, 'a, 'h) app_state \<Rightarrow> (string + topic_summary list) \<times> ('c, 'a, 'h) app_state" where
  "connection_list_topics lib =
     broker_request record_auth_outcome (\<lambda>connection. list_topics connection (built lib connection) (lib_metadata lib None))"

definition connection_list_consumer_groups ::
    "('c, 'a, 'g) cluster_lib \<Rightarrow> string \<Rightarrow> ('c, 'a, 'h) app_state
      \<Rightarrow> (string + consumer_group_summary list) \<times> ('c, 'a, 'h) app_state" where
  "connection_list_consumer_groups lib =
     broker_request record_auth_success_only
       (\<lambda>connection. list_consumer_groups connection (built lib connection) (lib_groups lib None))"

definition connection_count_topic_messages ::
    "('c, 'a, 'g) cluster_lib \<Rightarrow> string \<Rightarrow> string \<Rightarrow> ('c, 'a, 'h) app_state \<Rightarrow> (string + int) \<times> ('c, 'a, 'h) app_state" where
  "connection_count_topic_messages lib topic =
     broker_request record_auth_outcome (\<lambda>connection.
       count_topic_messages (lib_broker lib) connection (built lib connection) (lib_metadata lib (Some topic)) topic)"

definition connection_list_partitions ::
    "('c, 'a, 'g) cluster_lib \<Rightarrow> string \<Rightarrow> string \<Rightarrow> ('c, 'a, 'h) app_state
      \<Rightarrow> (string + partition_summary list) \<times> ('c, 'a, 'h) app_state" where
  "connection_list_partitions lib topic =
     broker_request record_auth_outcome (\<lambda>connection.
       list_partitions (lib_broker lib) connection (built lib connection) (lib_metadata lib (Some topic)) topic)"

definition connection_describe_topic_config ::
    "('c, 'a, 'g) cluster_lib \<Rightarrow> string \<Rightarrow> string \<Rightarrow> ('c, 'a, 'h) app_state
      \<Rightarrow> (string + config_entry list) \<times> ('c, 'a, 'h) app_state" where
  "connection_describe_topic_config lib topic =
     broker_request record_auth_outcome (\<lambda>connection.
       describe_topic_config connection (built_admin lib connection) (lib_describe lib topic) topic)"

definition connection_fetch_consumer_group_lag ::
    "('c, 'a, 'g) cluster_lib \<Rightarrow> string \<Rightarrow> string \<Rightarrow> ('c, 'a, 'h) app_state
      \<Rightarrow> (string + consumer_group_lag) \<times> ('c, 'a, 'h) app_state" where
  "connection_fetch_consumer_group_lag lib gname =
     broker_request record_auth_success_only (\<lambda>connection.
       fetch_consumer_group_lag (lib_env lib) (lib_broker lib) (lib_hash_order lib) (lib_make_group lib) (lib_committed lib)
         connection (built lib connection) (lib_groups lib (Some gname)) gname)"

section \<open>Commands on the saved connections\<close>

definition connection_list :: "('c, 'a, 'h) app_state \<Rightarrow> string + conn list" where
  "connection_list st = reply (conn_list (db_up st) (db_connections st))"

definition connection_create ::
    "string \<Rightarrow> string \<Rightarrow> new_conn \<Rightarrow> ('c, 'a, 'h) app_state \<Rightarrow> (string + conn) \<times> ('c, 'a, 'h) app_state" where
  "connection_create fresh now n st =
     (case conn_create (db_up st) fresh now n (db_connections st) of
        (result, rows) \<Rightarrow> (reply result, st\<lparr>db_connections := rows\<rparr>))"

definition connection_update ::
    "string \<Rightarrow> new_conn \<Rightarrow> string \<Rightarrow> ('c, 'a, 'h) app_state \<Rightarrow> (string + conn) \<times> ('c, 'a, 'h) app_state" where
  "connection_update now n i st =
     (case conn_update (db_up st) i now n (db_connections st) of
        (Inl e, rows) \<Rightarrow> (reply (Inl e), st\<lparr>db_connections := rows\<rparr>)
      | (Inr connection, rows) \<Rightarrow>
          (Inr connection,
           st\<lparr>db_connections := rows, connections := clear_auth_failures i (connections st),
              kafka := drop_pooled_client i (kafka st), schema_registry := release_registry i (schema_registry st)\<rparr>))"

text \<open>Deleting is two statements, and the database may fail at either; only after both is the rest forgotten.\<close>

definition connection_delete_at :: "bool \<Rightarrow> bool \<Rightarrow> string \<Rightarrow> ('c, 'a, 'h) app_state \<Rightarrow> (string + unit) \<times> ('c, 'a, 'h) app_state" where
  "connection_delete_at rows_up schemas_up i st =
     (case conn_delete rows_up i (db_connections st) of
        (Inl e, rows) \<Rightarrow> (reply (Inl e), st\<lparr>db_connections := rows\<rparr>)
      | (Inr _, rows) \<Rightarrow>
          (let st = st\<lparr>db_connections := rows\<rparr> in
           case schema_delete_all schemas_up i (db_schemas st) of
             (Inl e, schemas) \<Rightarrow> (reply (Inl e), st\<lparr>db_schemas := schemas\<rparr>)
           | (Inr _, schemas) \<Rightarrow>
               (Inr (),
                st\<lparr>db_schemas := schemas, connections := clear_auth_failures i (mark_disconnected i (connections st)),
                   kafka := drop_pooled_client i (kafka st), schema_registry := release_registry i (schema_registry st)\<rparr>)))"

text \<open>The command, with a database that answers or fails throughout.\<close>

definition connection_delete :: "string \<Rightarrow> ('c, 'a, 'h) app_state \<Rightarrow> (string + unit) \<times> ('c, 'a, 'h) app_state" where
  "connection_delete i st = connection_delete_at (db_up st) (db_up st) i st"

text \<open>The probe of a connect, \<^verbatim>\<open>probe_with\<close>.\<close>

definition probe :: "('c, 'a, 'g) cluster_lib \<Rightarrow> 'c \<Rightarrow> report + connection_status" where
  "probe lib client = (case lib_metadata lib None client of (result, polls) \<Rightarrow> fst (probe_with result polls None))"

definition connection_connect ::
    "('c, 'a, 'g) cluster_lib \<Rightarrow> string \<Rightarrow> ('c, 'a, 'h) app_state \<Rightarrow> (string + connection_status) \<times> ('c, 'a, 'h) app_state" where
  "connection_connect lib i st =
     (let st = st\<lparr>connections := clear_auth_failures i (connections st)\<rparr> in
      case connection_for_request st i of
        Inl e \<Rightarrow> (Inl e, st)
      | Inr connection \<Rightarrow>
          (case connect connection (built lib connection) (probe lib) (kafka st) of
             (result, k) \<Rightarrow>
               (let st = record_auth_outcome i result (st\<lparr>kafka := k\<rparr>) in
                case result of
                  Inl e \<Rightarrow> (reply (Inl e), st)
                | Inr status \<Rightarrow>
                    (Inr status,
                     if status = Reachable then st\<lparr>connections := mark_connected i (connections st)\<rparr> else st))))"

definition connection_disconnect :: "string \<Rightarrow> ('c, 'a, 'h) app_state \<Rightarrow> ('c, 'a, 'h) app_state" where
  "connection_disconnect i st =
     st\<lparr>connections := mark_disconnected i (connections st),
        fetch_cancellations := snd (cancel_all_for_connection i (fetch_cancellations st)),
        kafka := drop_pooled_client i (kafka st), schema_registry := release_registry i (schema_registry st)\<rparr>"

definition connection_is_connected :: "string \<Rightarrow> ('c, 'a, 'h) app_state \<Rightarrow> bool" where
  "connection_is_connected i st = is_connected i (connections st)"

definition connection_auth_block_reason :: "string \<Rightarrow> ('c, 'a, 'h) app_state \<Rightarrow> string option" where
  "connection_auth_block_reason i st = auth_block_reason i (connections st)"

definition connection_check_status :: "('c, 'a, 'g) cluster_lib \<Rightarrow> string \<Rightarrow> ('c, 'a, 'h) app_state \<Rightarrow> string + connection_status" where
  "connection_check_status lib i st =
     (case conn_get (db_up st) (db_connections st) i of
        Inl e \<Rightarrow> reply (Inl e)
      | Inr connection \<Rightarrow> Inr (check_status (lib_dial lib) connection))"

definition connection_ping_bootstrap :: "('c, 'a, 'g) cluster_lib \<Rightarrow> string \<Rightarrow> connection_status" where
  "connection_ping_bootstrap lib servers = fst (ping_bootstrap (lib_dial lib) servers)"

definition connection_test :: "('c, 'a, 'g) cluster_lib \<Rightarrow> new_conn \<Rightarrow> string + connection_status" where
  "connection_test lib n =
     reply (test_connection (lib_env lib) (lib_make_client lib) (lib_metadata lib None)
       (bootstrap_servers n) (security_protocol n) (sasl_mechanism n) (sasl_username n) (sasl_password n)
       \<lparr>truststore_location = ssl_truststore_location n, keystore_location = ssl_keystore_location n,
        keystore_password = ssl_keystore_password n, keystore_key_password = ssl_keystore_key_password n\<rparr>)"

definition connection_cancel_fetch :: "string \<Rightarrow> ('c, 'a, 'h) app_state \<Rightarrow> ('c, 'a, 'h) app_state" where
  "connection_cancel_fetch request_id st =
     st\<lparr>fetch_cancellations := cancel request_id (fetch_cancellations st)\<rparr>"

section \<open>Publishing\<close>

text \<open>What is remembered of a publish that reached the cluster.\<close>

definition record_publish :: "string \<Rightarrow> string \<Rightarrow> publish_outcome \<Rightarrow> ('c, 'a, 'h) app_state \<Rightarrow> ('c, 'a, 'h) app_state" where
  "record_publish i topic outcome st =
     (let st = (if delivered outcome \<noteq> [] then st\<lparr>connections := record_auth_success i (connections st)\<rparr> else st) in
      case publish_outcome.failure outcome of
        None \<Rightarrow> st
      | Some f \<Rightarrow>
          (case failure_kind f of
             AuthorizationFailure \<Rightarrow>
               st\<lparr>connections := record_write_denied i topic (failure_reason f) (connections st)\<rparr>
           | AuthenticationFailure \<Rightarrow>
               st\<lparr>connections := record_auth_failure i (failure_reason f) (connections st),
                  kafka := drop_pooled_client i (kafka st)\<rparr>
           | ValidationFailure \<Rightarrow> st
           | TransientFailure \<Rightarrow> st))"

definition connection_publish_messages ::
    "('c, 'a, 'g) cluster_lib \<Rightarrow> (string \<Rightarrow> string option) \<Rightarrow> (string \<Rightarrow> string + byte list) \<Rightarrow> string \<Rightarrow> int
      \<Rightarrow> new_publish_message list \<Rightarrow> u32 \<Rightarrow> string \<Rightarrow> ('c, 'a, 'h) app_state
      \<Rightarrow> (string + publish_outcome) \<times> ('c, 'a, 'h) app_state" where
  "connection_publish_messages lib json_error base64_decode topic p msgs max_size i st =
     (case connection_for_request st i of
        Inl e \<Rightarrow> (Inl e, st)
      | Inr connection \<Rightarrow>
          (case publish_refusal (is_connected i (connections st)) (allow_publishing connection)
                  (write_denied_reason i topic (connections st)) of
             Some r \<Rightarrow> (Inl (display_error (refusal_error r) @ '': '' @ refusal_message r topic), st)
           | None \<Rightarrow>
               (case encode_messages json_error base64_decode msgs (for_max_message_size max_size) of
                  Inl e \<Rightarrow> (reply (Inl e), st)
                | Inr records \<Rightarrow>
                    (case publish_messages (lib_create_producer lib connection) (lib_send lib) topic p records of
                       Inl e \<Rightarrow> (reply (Inl e), st)
                     | Inr outcome \<Rightarrow> (Inr outcome, record_publish i topic outcome st)))))"

definition connection_write_denied_reason :: "string \<Rightarrow> string \<Rightarrow> ('c, 'a, 'h) app_state \<Rightarrow> string option" where
  "connection_write_denied_reason i topic st = write_denied_reason i topic (connections st)"

section \<open>Sequences of commands\<close>

text \<open>The requests a user interface makes of a cluster, on its own or for the user, and every other command.\<close>

datatype cluster_request =
    Brokers | Topics | Groups | Count string | Partitions string | Config string | Lag string
  | Publish "string \<Rightarrow> string option" "string \<Rightarrow> string + byte list" string int "new_publish_message list" u32

datatype app_call =
    Request cluster_request string
  | Reconnect string
  | Create string string new_conn
  | Update string new_conn string
  | Delete string
  | Disconnect string
  | Cancel string

definition failed_with :: "(string + 'r) \<times> 's \<Rightarrow> string option \<times> 's" where
  "failed_with outcome = (case outcome of (Inl e, st) \<Rightarrow> (Some e, st) | (Inr _, st) \<Rightarrow> (None, st))"

fun run_request ::
    "('c, 'a, 'g) cluster_lib \<Rightarrow> cluster_request \<Rightarrow> string \<Rightarrow> ('c, 'a, 'h) app_state \<Rightarrow> string option \<times> ('c, 'a, 'h) app_state" where
  "run_request lib Brokers i st = failed_with (connection_list_brokers lib i st)"
| "run_request lib Topics i st = failed_with (connection_list_topics lib i st)"
| "run_request lib Groups i st = failed_with (connection_list_consumer_groups lib i st)"
| "run_request lib (Count topic) i st = failed_with (connection_count_topic_messages lib topic i st)"
| "run_request lib (Partitions topic) i st = failed_with (connection_list_partitions lib topic i st)"
| "run_request lib (Config topic) i st = failed_with (connection_describe_topic_config lib topic i st)"
| "run_request lib (Lag g) i st = failed_with (connection_fetch_consumer_group_lag lib g i st)"
| "run_request lib (Publish json_error base64_decode topic p msgs max_size) i st =
     failed_with (connection_publish_messages lib json_error base64_decode topic p msgs max_size i st)"

fun run_call ::
    "('c, 'a, 'g) cluster_lib \<Rightarrow> app_call \<Rightarrow> ('c, 'a, 'h) app_state \<Rightarrow> string option \<times> ('c, 'a, 'h) app_state" where
  "run_call lib (Request req i) st = run_request lib req i st"
| "run_call lib (Reconnect i) st = failed_with (connection_connect lib i st)"
| "run_call lib (Create fresh now n) st = failed_with (connection_create fresh now n st)"
| "run_call lib (Update now n i) st = failed_with (connection_update now n i st)"
| "run_call lib (Delete i) st = failed_with (connection_delete i st)"
| "run_call lib (Disconnect i) st = (None, connection_disconnect i st)"
| "run_call lib (Cancel r) st = (None, connection_cancel_fetch r st)"

text \<open>Every call with the cluster as it is at that moment.\<close>

fun run_calls :: "(('c, 'a, 'g) cluster_lib \<times> app_call) list \<Rightarrow> ('c, 'a, 'h) app_state \<Rightarrow> ('c, 'a, 'h) app_state" where
  "run_calls [] st = st"
| "run_calls ((lib, call) # calls) st = run_calls calls (snd (run_call lib call st))"

text \<open>The deliberate acts that give a connection another try.\<close>

fun resets :: "string \<Rightarrow> app_call \<Rightarrow> bool" where
  "resets i (Reconnect j) \<longleftrightarrow> j = i"
| "resets i (Update now n j) \<longleftrightarrow> j = i"
| "resets i (Delete j) \<longleftrightarrow> j = i"
| "resets i _ \<longleftrightarrow> False"

section \<open>Lemmas\<close>

named_theorems request_defs \<open>the commands that are one broker request\<close>

lemmas [request_defs] =
  connection_list_brokers_def connection_list_topics_def connection_list_consumer_groups_def
  connection_count_topic_messages_def connection_list_partitions_def connection_describe_topic_config_def
  connection_fetch_consumer_group_lag_def

lemma reply_Inr [simp]: "reply result = Inr x \<longleftrightarrow> result = Inr x"
  by (simp add: reply_def split: sum.split)

lemma failed_with_simps [simp]:
  "failed_with (Inl e, st) = (Some e, st)" "failed_with (Inr x, st) = (None, st)"
  by (simp_all add: failed_with_def)

lemma snd_failed_with [simp]: "snd (failed_with outcome) = snd outcome"
  by (cases outcome; cases "fst outcome") (auto simp: failed_with_def)

lemma connection_for_request_blocked:
  "auth_block_reason i (connections st) = Some why \<Longrightarrow> connection_for_request st i = Inl (blocked_message why)"
  by (simp add: connection_for_request_def)

lemma broker_request_blocked:
  "auth_block_reason i (connections st) = Some why \<Longrightarrow> broker_request record ask i st = (Inl (blocked_message why), st)"
  by (simp add: broker_request_def connection_for_request_blocked)

lemma run_request_blocked:
  assumes "auth_block_reason i (connections st) = Some why"
  shows "run_request lib req i st = (Some (blocked_message why), st)"
  using assms
  by (cases req) (simp_all add: request_defs broker_request_blocked connection_publish_messages_def connection_for_request_blocked)

text \<open>What a command on connection \<open>j\<close> leaves of the verdict on connection \<open>i\<close>.\<close>

lemma record_block_other:
  assumes "i \<noteq> j"
  shows "auth_block_reason i (connections (record_auth_outcome j result st)) = auth_block_reason i (connections st)"
    and "auth_block_reason i (connections (record_auth_success_only j result st)) = auth_block_reason i (connections st)"
    and "auth_block_reason i (connections (record_publish j topic outcome st)) = auth_block_reason i (connections st)"
  using assms
  by (simp_all add: record_auth_outcome_def record_auth_success_only_def record_publish_def Let_def
      record_auth_success_def auth_block_reason_failure split: sum.split option.split publish_failure_kind.split)

lemma broker_request_other:
  assumes "\<And>result st. auth_block_reason i (connections (record j result st)) = auth_block_reason i (connections st)"
  shows "auth_block_reason i (connections (snd (broker_request record ask j st))) = auth_block_reason i (connections st)"
  by (simp add: broker_request_def assms split: sum.split prod.split)

lemma run_request_other:
  assumes "i \<noteq> j"
  shows "auth_block_reason i (connections (snd (run_request lib req j st))) = auth_block_reason i (connections st)"
  using assms
  by (cases req) (auto simp: request_defs broker_request_other record_block_other connection_publish_messages_def
      split: sum.split option.split)

lemma run_call_block:
  assumes blocked: "auth_block_reason i (connections st) = Some why" and quiet: "\<not> resets i call"
  shows "auth_block_reason i (connections (snd (run_call lib call st))) = Some why"
proof (cases call)
  case (Request req j)
  then show ?thesis
    using assms by (cases "j = i") (simp_all add: run_request_blocked run_request_other)
next
  case (Reconnect j)
  then have "i \<noteq> j" using quiet by simp
  then show ?thesis
    using Reconnect blocked
    by (auto simp: connection_connect_def Let_def record_block_other split: sum.split prod.split)
next
  case (Create fresh now n)
  then show ?thesis using blocked by (simp add: connection_create_def split: prod.split)
next
  case (Update now n j)
  then show ?thesis using assms by (auto simp: connection_update_def split: prod.split sum.split)
next
  case (Delete j)
  then show ?thesis using assms by (auto simp: connection_delete_def connection_delete_at_def Let_def split: prod.split sum.split)
qed (use blocked in \<open>simp_all add: connection_disconnect_def connection_cancel_fetch_def\<close>)

lemma run_calls_block:
  "auth_block_reason i (connections st) = Some why \<Longrightarrow> \<forall>(lib, call)\<in>set calls. \<not> resets i call \<Longrightarrow>
    auth_block_reason i (connections (run_calls calls st)) = Some why"
  by (induction calls st rule: run_calls.induct) (auto simp: run_call_block)

text \<open>A rejection by the broker, on a request whose failures count.\<close>

definition rejected ::
    "(conn \<Rightarrow> ('c, 'a) rdkafka_client \<Rightarrow> (report + 'r) \<times> ('c, 'a) rdkafka_client) \<Rightarrow> string \<Rightarrow> ('c, 'a, 'h) app_state \<Rightarrow> bool" where
  "rejected ask i st \<longleftrightarrow>
     (case connection_for_request st i of
        Inl e \<Rightarrow> False
      | Inr connection \<Rightarrow>
          (case fst (ask connection (kafka st)) of Inl r \<Rightarrow> current_context r = Authentication | Inr _ \<Rightarrow> False))"

definition no_clients :: "string \<Rightarrow> ('c, 'a, 'h) app_state \<Rightarrow> bool" where
  "no_clients i st \<longleftrightarrow> metadata_clients (kafka st) i = None \<and> admin_clients (kafka st) i = None"

lemma no_clients_drop [simp]: "no_clients i (st\<lparr>kafka := drop_pooled_client i k\<rparr>)"
  by (simp add: no_clients_def drop_pooled_client_def)

lemma rejected_request:
  assumes "rejected ask i st"
  obtains r k where "broker_request record_auth_outcome ask i st
      = (Inl (format_report r), st\<lparr>connections := record_auth_failure i (report_reasons r) (connections st), kafka := drop_pooled_client i k\<rparr>)"
    and "auth_block_reason i (connections st) = None"
proof -
  obtain connection where c: "connection_for_request st i = Inr connection"
    and q: "case fst (ask connection (kafka st)) of Inl r \<Rightarrow> current_context r = Authentication | Inr _ \<Rightarrow> False"
    using assms by (auto simp: rejected_def split: sum.splits)
  obtain result k where a: "ask connection (kafka st) = (result, k)" by (cases "ask connection (kafka st)")
  then obtain r where r: "result = Inl r" "current_context r = Authentication" using q by (auto split: sum.splits)
  have "broker_request record_auth_outcome ask i st
      = (Inl (format_report r), st\<lparr>connections := record_auth_failure i (report_reasons r) (connections st), kafka := drop_pooled_client i k\<rparr>)"
    using c a r by (simp add: broker_request_def reply_def record_auth_outcome_def)
  moreover have "auth_block_reason i (connections st) = None"
    using c by (auto simp: connection_for_request_def split: option.splits)
  ultimately show ?thesis by (rule that)
qed

lemma record_failure_counts:
  "auth_attempts i (record_auth_failure i why s) = min (Suc (auth_attempts i s)) (2 ^ 32 - 1)"
  by simp

lemma second_failure_blocks:
  assumes "1 \<le> auth_attempts i s"
  shows "auth_block_reason i (record_auth_failure i why s) = Some why" and "\<not> is_connected i (record_auth_failure i why s)"
proof -
  show "auth_block_reason i (record_auth_failure i why s) = Some why"
    using assms by (simp add: auth_block_reason_failure MAX_AUTH_ATTEMPTS_def)
  show "\<not> is_connected i (record_auth_failure i why s)"
    using assms by (auto simp: registry_defs Let_def sat_add_def MAX_AUTH_ATTEMPTS_def split: option.splits)
qed

text \<open>A publish that goes out has passed every gate.\<close>

lemma publish_sent:
  assumes "connection_publish_messages lib json_error base64_decode topic p msgs max_size i st = (Inr outcome, st')"
  obtains connection records where "auth_block_reason i (connections st) = None"
    and "conn_get (db_up st) (db_connections st) i = Inr connection" and "allow_publishing connection"
    and "is_connected i (connections st)" and "write_denied_reason i topic (connections st) = None"
    and "encode_messages json_error base64_decode msgs (for_max_message_size max_size) = Inr records"
    and "publish_messages (lib_create_producer lib connection) (lib_send lib) topic p records = Inr outcome"
    and "st' = record_publish i topic outcome st"
  using assms
  by (auto simp: connection_publish_messages_def connection_for_request_def publish_refusal_def reply_def
      split: sum.splits option.splits if_splits)

lemma publish_denied:
  assumes "write_denied_reason i topic (connections st) \<noteq> None"
  shows "connection_publish_messages lib json_error base64_decode topic p msgs max_size i st
    = connection_publish_messages lib' json_error base64_decode topic p msgs max_size i st"
    and "snd (connection_publish_messages lib json_error base64_decode topic p msgs max_size i st) = st"
    and "fst (connection_publish_messages lib json_error base64_decode topic p msgs max_size i st) \<in> range Inl"
  using assms
  by (auto simp: connection_publish_messages_def publish_refusal_def split: sum.split option.split)

text \<open>The gates of a publish; nothing here asks the cluster.\<close>

definition publish_gates ::
    "(string \<Rightarrow> string option) \<Rightarrow> (string \<Rightarrow> string + byte list) \<Rightarrow> string \<Rightarrow> new_publish_message list \<Rightarrow> u32
      \<Rightarrow> string \<Rightarrow> ('c, 'a, 'h) app_state \<Rightarrow> string + conn \<times> encoded_record list" where
  "publish_gates json_error base64_decode topic msgs max_size i st =
     and_then (connection_for_request st i) (\<lambda>connection.
     case publish_refusal (is_connected i (connections st)) (allow_publishing connection)
            (write_denied_reason i topic (connections st)) of
       Some r \<Rightarrow> Inl (display_error (refusal_error r) @ '': '' @ refusal_message r topic)
     | None \<Rightarrow>
         and_then (reply (encode_messages json_error base64_decode msgs (for_max_message_size max_size))) (\<lambda>records.
         Inr (connection, records)))"

lemma publish_gates_Inr:
  "publish_gates json_error base64_decode topic msgs max_size i st = Inr (connection, records) \<longleftrightarrow>
     auth_block_reason i (connections st) = None
     \<and> conn_get (db_up st) (db_connections st) i = Inr connection \<and> allow_publishing connection
     \<and> is_connected i (connections st) \<and> write_denied_reason i topic (connections st) = None
     \<and> encode_messages json_error base64_decode msgs (for_max_message_size max_size) = Inr records"
  by (auto simp: publish_gates_def connection_for_request_def publish_refusal_def reply_def
      split: sum.splits option.splits if_splits)

text \<open>A small application: one connection that may publish, connected, nothing held against it.\<close>

definition small_app :: "(unit, unit, unit) app_state" where
  "small_app =
     \<lparr>db_up = True, db_connections = [row_of ''a'' ''t0'' ''t1'' (example_conn\<lparr>allow_publishing := True\<rparr>)],
      db_tabs = [], db_schemas = [],
      kafka = new_client, connections = empty_registry\<lparr>connected := {''a''}\<rparr>, fetch_cancellations = no_cancellations,
      schema_registry = Map.empty\<rparr>"

definition denying_lib :: "(unit, unit, unit) cluster_lib" where
  "denying_lib =
     \<lparr>lib_env = small_env, lib_make_client = \<lambda>config. Inr (), lib_make_admin = \<lambda>config. Inr (), lib_make_group = \<lambda>config. Inr (),
      lib_metadata = \<lambda>topic client. (Inr \<lparr>md_brokers = [], md_topics = []\<rparr>, []), lib_groups = \<lambda>g client. (Inr [], []),
      lib_describe = \<lambda>topic admin. Inr [], lib_committed = \<lambda>g asked. (Inr [], []), lib_hash_order = id,
      lib_broker = small_broker, lib_dial = \<lambda>addr. (False, 0), lib_create_producer = \<lambda>connection. None,
      lib_send = \<lambda>index r. ([], Inl \<lparr>rdkafka_error_code = Some RD_TopicAuthorizationFailed, error_text = []\<rparr>)\<rparr>"

lemma small_app_get:
  obtains c where "conn_get True (db_connections small_app) ''a'' = Inr c" and "allow_publishing c"
proof -
  obtain c where c: "into_connection (row_of ''a'' ''t0'' ''t1'' (example_conn\<lparr>allow_publishing := True\<rparr>)) = Inr c"
    and n: "new_connection.truncate c = example_conn\<lparr>allow_publishing := True\<rparr>"
    using into_row_of by blast
  have "allow_publishing (new_connection.truncate c) = allow_publishing c" by (simp add: new_connection.defs)
  then show ?thesis using c n that by (simp add: conn_get_def small_app_def)
qed

definition empty_message :: new_publish_message where
  "empty_message = \<lparr>message_key = null_field, message_value = null_field, message_headers = []\<rparr>"

lemma small_encode: "encode_messages (\<lambda>s. None) (\<lambda>s. Inr []) [empty_message] (for_max_message_size 1000)
    = Inr [\<lparr>record_key = None, record_value = None, record_headers = []\<rparr>]"
  by (simp add: encode_messages_def encode_record_def encode_field_def empty_message_def null_field_def
      for_max_message_size_def MAX_PUBLISH_BATCH_MESSAGES_def MAX_PUBLISH_BATCH_BYTES_def size_bytes_def opt_len_def
      sat_add_def Let_def)

lemma metadata_unit:
  obtains k where "metadata_client c (Inr ()) s = (Inr (), k)"
  by (cases "metadata_client c (Inr ()) s")
    (auto simp: metadata_client_def pool_get_def Let_def split: option.splits if_splits)

lemma classify_denied:
  "classify_produce_error \<lparr>rdkafka_error_code = Some RD_TopicAuthorizationFailed, error_text = []\<rparr> None = Authorization"
  by code_simp

lemma small_publish:
  obtains outcome f st1 where
    "connection_publish_messages denying_lib (\<lambda>s. None) (\<lambda>s. Inr []) ''t'' 0 [empty_message] 1000 ''a'' small_app = (Inr outcome, st1)"
    and "publish_outcome.failure outcome = Some f" and "failure_kind f = AuthorizationFailure"
proof -
  obtain c where c: "conn_get True (db_connections small_app) ''a'' = Inr c" "allow_publishing c" by (rule small_app_get)
  obtain r where r: "encode_messages (\<lambda>s. None) (\<lambda>s. Inr []) [empty_message] (for_max_message_size 1000) = Inr [r]"
    using small_encode by blast
  have "connection_for_request small_app ''a'' = Inr c"
    using c by (simp add: connection_for_request_def reply_def small_app_def empty_registry_def auth_block_reason_def)
  then show ?thesis
    using c r that
    by (simp add: connection_publish_messages_def publish_refusal_def small_app_def empty_registry_def is_connected_def
        write_denied_reason_def denying_lib_def publish_messages_def default_context_def failure_reason_of_def
        classify_denied Let_def)
qed

section \<open>Properties\<close>



text \<open>Two rejected requests in a row cut a connection off: it is blocked with the latest reason, no
  longer counts as connected, and no client with the rejected credentials is left.\<close>
theorem two_rejections_cut_off:
  assumes "rejected ask i st" and "rejected ask' i (snd (broker_request record_auth_outcome ask i st))"
    and "st' = snd (broker_request record_auth_outcome ask' i (snd (broker_request record_auth_outcome ask i st)))"
  shows "auth_block_reason i (connections st') \<noteq> None \<and> \<not> is_connected i (connections st') \<and> no_clients i st'"
proof -
  let ?st1 = "snd (broker_request record_auth_outcome ask i st)"
  obtain r k where 1: "broker_request record_auth_outcome ask i st
      = (Inl (format_report r), st\<lparr>connections := record_auth_failure i (report_reasons r) (connections st), kafka := drop_pooled_client i k\<rparr>)"
    using rejected_request [OF assms(1)] by blast
  obtain r' k' where 2: "broker_request record_auth_outcome ask' i ?st1
      = (Inl (format_report r'), ?st1\<lparr>connections := record_auth_failure i (report_reasons r') (connections ?st1), kafka := drop_pooled_client i k'\<rparr>)"
    using rejected_request [OF assms(2)] by blast
  have "1 \<le> auth_attempts i (connections ?st1)" using 1 by simp
  then show ?thesis using second_failure_blocks assms(3) 2 by simp
qed

theorem two_rejections_cut_off_witness:
  "auth_block_reason ''a'' (connections (snd (broker_request record_auth_outcome
       (\<lambda>c k. (Inl (fail_with Authentication ''no'') :: report + unit, k)) ''a''
       (snd (broker_request record_auth_outcome (\<lambda>c k. (Inl (fail_with Authentication ''no'') :: report + unit, k)) ''a'' small_app)))))
   \<noteq> None"
proof -
  let ?ask = "\<lambda>c k. (Inl (fail_with Authentication ''no'') :: report + unit, k :: (unit, unit) rdkafka_client)"
  obtain c where c: "conn_get True (db_connections small_app) ''a'' = Inr c" by (rule small_app_get)
  have 1: "connection_for_request small_app ''a'' = Inr c"
    using c by (simp add: connection_for_request_def reply_def small_app_def empty_registry_def auth_block_reason_def)
  have f: "current_context (fail_with Authentication ''no'') = Authentication" by (simp add: fail_with_def attach_def new_report_def)
  let ?st = "snd (broker_request record_auth_outcome ?ask ''a'' small_app)"
  have st: "?st = small_app\<lparr>connections := record_auth_failure ''a'' (report_reasons (fail_with Authentication ''no'')) (connections small_app),
      kafka := drop_pooled_client ''a'' (kafka small_app)\<rparr>"
    using 1 f by (simp add: broker_request_def record_auth_outcome_def)
  have "connection_for_request ?st ''a'' = Inr c"
    unfolding st using c
    by (simp add: connection_for_request_def reply_def small_app_def empty_registry_def auth_block_reason_failure
        auth_attempts_def MAX_AUTH_ATTEMPTS_def)
  then have "rejected ?ask ''a'' small_app" "rejected ?ask ''a'' ?st" using 1 f by (simp_all add: rejected_def)
  then show ?thesis using two_rejections_cut_off by blast
qed

text \<open>C9: Publishing is a run through gates that ask the cluster nothing - the connection is not blocked, its
  saved settings allow publishing, it is connected, the broker has not refused the topic, the batch
  encodes - and only then the producer, for the connection as it is saved at that moment; a publish
  that never reached the cluster leaves the state as it was.\<close>
theorem publish_refines_gates:
  "connection_publish_messages lib json_error base64_decode topic p msgs max_size i st =
     (case publish_gates json_error base64_decode topic msgs max_size i st of
        Inl e \<Rightarrow> (Inl e, st)
      | Inr (connection, records) \<Rightarrow>
          (case publish_messages (lib_create_producer lib connection) (lib_send lib) topic p records of
             Inl e \<Rightarrow> (Inl (format_report e), st)
           | Inr outcome \<Rightarrow> (Inr outcome, record_publish i topic outcome st)))
   \<and> (publish_gates json_error base64_decode topic msgs max_size i st = Inr (connection, records) \<longleftrightarrow>
        auth_block_reason i (connections st) = None
        \<and> conn_get (db_up st) (db_connections st) i = Inr connection \<and> allow_publishing connection
        \<and> is_connected i (connections st) \<and> write_denied_reason i topic (connections st) = None
        \<and> encode_messages json_error base64_decode msgs (for_max_message_size max_size) = Inr records)"
  unfolding publish_gates_Inr
  by (auto simp: connection_publish_messages_def publish_gates_def reply_def split: sum.split option.split)



text \<open>Reconnecting always asks the broker and never trips the breaker: whatever the history, the reply is
  the broker's answer for the saved connection, and whatever that is the connection is not blocked
  afterwards, however often it is repeated.\<close>
theorem reconnect_never_blocks:
  "fst (connection_connect lib i st) =
     (case conn_get (db_up st) (db_connections st) i of
        Inl e \<Rightarrow> reply (Inl e)
      | Inr connection \<Rightarrow> reply (fst (connect connection (built lib connection) (probe lib) (kafka st))))
   \<and> auth_block_reason i (connections (snd (connection_connect lib i st))) = None"
proof
  show "fst (connection_connect lib i st) =
     (case conn_get (db_up st) (db_connections st) i of
        Inl e \<Rightarrow> reply (Inl e)
      | Inr connection \<Rightarrow> reply (fst (connect connection (built lib connection) (probe lib) (kafka st))))"
    by (simp add: connection_connect_def connection_for_request_def Let_def reply_def split: sum.split prod.split)
  show "auth_block_reason i (connections (snd (connection_connect lib i st))) = None"
    by (auto simp: connection_connect_def Let_def record_auth_outcome_def auth_block_reason_failure record_auth_success_def
        MAX_AUTH_ATTEMPTS_def split: sum.split prod.split)
qed

text \<open>Deleting a connection leaves nothing of it: no row, no schema of its topics, no verdict, no write
  refusal, no client in any pool - except the fetches it has running, which are not stopped.\<close>
theorem deleted_connection_is_gone:
  assumes "connection_delete i st = (Inr (), st')"
  shows "i \<notin> conn_id ` set (db_connections st')
    \<and> (\<forall>topic format. schema_get (db_up st') i topic format (db_schemas st') = Inr None)
    \<and> auth_block_reason i (connections st') = None \<and> \<not> is_connected i (connections st')
    \<and> (\<forall>topic. write_denied_reason i topic (connections st') = None)
    \<and> no_clients i st' \<and> schema_registry st' i = None
    \<and> fetch_cancellations st' = fetch_cancellations st"
proof -
  have up: "db_up st" using assms by (auto simp: connection_delete_def connection_delete_at_def conn_delete_def reply_def split: if_splits)
  have "map_of (filter (\<lambda>r. fst (fst r) \<noteq> i) rows) (i, topic, format) = None" for rows :: schema_table and topic format
    by (auto simp: map_of_eq_None_iff)
  then show ?thesis
    using assms up
    by (auto simp: connection_delete_def connection_delete_at_def conn_delete_def schema_delete_all_def schema_get_def Let_def reply_def
        registry_defs no_clients_def drop_pooled_client_def release_registry_def split: if_splits)
qed

theorem deleted_connection_is_gone_witness:
  "''a'' \<notin> conn_id ` set (db_connections (snd (connection_delete ''a'' small_app)))"
proof -
  have "connection_delete ''a'' small_app = (Inr (), snd (connection_delete ''a'' small_app))"
    by (simp add: connection_delete_def connection_delete_at_def conn_delete_def schema_delete_all_def small_app_def)
  then show ?thesis using deleted_connection_is_gone by blast
qed

text \<open>C24: When the database deletes the row of a connection and then fails at its schemas, the command
  stops with an error and the rest of the deletion never happens: the connection no longer exists, but
  counts as connected if it did, keeps its verdict, its clients and its schemas, and deleting it again
  only answers that it is not found and changes nothing.\<close>
theorem half_deleted_connection_stays:
  assumes "i \<in> conn_id ` set (db_connections st)" and "connection_delete_at True False i st = (result, st')"
  shows "(\<exists>e. result = Inl e) \<and> i \<notin> conn_id ` set (db_connections st')
    \<and> connections st' = connections st \<and> kafka st' = kafka st \<and> schema_registry st' = schema_registry st
    \<and> db_schemas st' = db_schemas st
    \<and> connection_delete_at True schemas_up i st'
      = (Inl (format_report (fail_with NotFound (''connection '' @ i @ '' not found''))), st')"
proof -
  have st': "st' = st\<lparr>db_connections := filter (\<lambda>r. conn_id r \<noteq> i) (db_connections st)\<rparr>" and "\<exists>e. result = Inl e"
    using assms by (auto simp: connection_delete_at_def conn_delete_def schema_delete_all_def reply_def Let_def)
  then show ?thesis by (auto simp: connection_delete_at_def conn_delete_def reply_def Let_def)
qed

theorem half_deleted_connection_stays_witness:
  "let st = snd (connection_delete_at True False ''a'' small_app)
   in is_connected ''a'' (connections st) \<and> ''a'' \<notin> conn_id ` set (db_connections st)"
proof -
  have "''a'' \<in> conn_id ` set (db_connections small_app)" by (simp add: small_app_def)
  from half_deleted_connection_stays [OF this surjective_pairing]
  have "connections (snd (connection_delete_at True False ''a'' small_app)) = connections small_app"
    "''a'' \<notin> conn_id ` set (db_connections (snd (connection_delete_at True False ''a'' small_app)))"
    by simp_all
  then show ?thesis by (simp add: small_app_def is_connected_def)
qed

end
