(* ===== verification/Fetch_Command.thy ===== *)
theory Fetch_Command
  imports Commands Fetch_Loop Stream_Batches
begin

text \<open>
  The fetch command (\<^verbatim>\<open>connection_fetch_messages\<close> of
  \<^verbatim>\<open>src-tauri/src/commands/connections.rs\<close>): the cancellation flag, the gate, the pooled client, the
  fetch of \<^verbatim>\<open>Fetch_Loop\<close>, the batches of \<^verbatim>\<open>Stream_Batches\<close>, and the bookkeeping, together. The
  command is one operation on the state; what the cancellation flag shows while it runs is the
  \<open>stops\<close> of the services and the flags of the rounds.
\<close>

section \<open>Definitions\<close>

definition PROGRESS_LOG_INTERVAL :: nat where
  "PROGRESS_LOG_INTERVAL = 100"

definition STREAM_BATCH_SIZE :: nat where
  "STREAM_BATCH_SIZE = 100"

text \<open>
  What becomes of the messages the fetch puts into the channel: the caller wants no updates, the
  forwarding task sees these events, or it panics. The command gets it as a function of the messages.
\<close>

datatype streaming = Not_streaming | Streamed "topic_message stream_event list" | Forwarder_panicked

fun streamed_count :: "streaming \<Rightarrow> nat" where
  "streamed_count Not_streaming = 0"
| "streamed_count (Streamed events) = fst (forward_in_batches STREAM_BATCH_SIZE PROGRESS_LOG_INTERVAL events)"
| "streamed_count Forwarder_panicked = 0"

fun emitted_batches :: "streaming \<Rightarrow> topic_message list list" where
  "emitted_batches (Streamed events) = batches (snd (forward_in_batches STREAM_BATCH_SIZE PROGRESS_LOG_INTERVAL events))"
| "emitted_batches _ = []"

definition without_streamed :: "nat \<Rightarrow> message_fetch_result \<Rightarrow> message_fetch_result" where
  "without_streamed streamed r = r\<lparr>messages := drop (min streamed (length (messages r))) (messages r)\<rparr>"

text \<open>A fetch that fails does so before it polls, so it has put nothing into the channel.\<close>

definition sent_messages :: "report + message_fetch_result \<Rightarrow> topic_message list" where
  "sent_messages result = (case result of Inl _ \<Rightarrow> [] | Inr r \<Rightarrow> messages r)"

text \<open>The reply, the batches emitted, and the state after.\<close>

definition connection_fetch_messages ::
    "('c, 'a, 'g) cluster_lib \<Rightarrow> fetch_services \<Rightarrow> string \<Rightarrow> message_filter \<Rightarrow> u32 \<Rightarrow> nat option \<Rightarrow> string
      \<Rightarrow> (byte list \<Rightarrow> string) \<Rightarrow> poll_round list \<Rightarrow> (topic_message list \<Rightarrow> streaming) \<Rightarrow> string \<Rightarrow> string
      \<Rightarrow> ('c, 'a, 'h) app_state
      \<Rightarrow> ((string + message_fetch_result) \<times> topic_message list list \<times> ('c, 'a, 'h) app_state) option" where
  "connection_fetch_messages lib sv topic flt max_size budget features base64 rounds forward request_id i st =
     (let (flag, cs) = begin_for_connection request_id i (fetch_cancellations st);
          st = st\<lparr>fetch_cancellations := cs\<rparr>
      in case connection_for_request st i of
           Inl e \<Rightarrow> Some (Inl e, [], st\<lparr>fetch_cancellations := finish request_id cs\<rparr>)
         | Inr connection \<Rightarrow>
             (let (client, k) = metadata_client connection (built lib connection) (kafka st);
                  seen = sv\<lparr>pooled_client := and_then client (\<lambda>_. Inr ()), stops := \<lambda>look. store cs flag \<or> stops sv look\<rparr>
              in map_option
                   (\<lambda>result.
                     let stream = forward (sent_messages result) in
                     (reply (and_then result (\<lambda>r. Inr (without_streamed (streamed_count stream) r))),
                      emitted_batches stream,
                      record_auth_outcome i result
                        (st\<lparr>kafka := k, fetch_cancellations := finish request_id cs\<rparr>)))
                   (fetch_messages (lib_broker lib) seen topic flt max_size budget features base64 rounds)))"

section \<open>Lemmas\<close>

text \<open>The messages that were put into the channel.\<close>

definition received :: "'m stream_event list \<Rightarrow> 'm list" where
  "received events = concat (map (\<lambda>e. case e of Received m cancelled \<Rightarrow> [m] | Elapsed \<Rightarrow> []) events)"

lemma taken_received: "prefix (taken events) (received events)"
  by (induction events rule: taken.induct) (auto simp: received_def)

lemma forwarded_prefix:
  "prefix (concat (emitted_batches stream)) (case stream of Streamed events \<Rightarrow> received events | _ \<Rightarrow> [])
    \<and> streamed_count stream = length (concat (emitted_batches stream))"
proof (cases stream)
  case (Streamed events)
  obtain n out where out: "forward_in_batches STREAM_BATCH_SIZE PROGRESS_LOG_INTERVAL events = (n, out)" by fastforce
  have "n = length (concat (batches out))" and "prefix (concat (batches out)) (taken events)"
    using forward_loop_spec [OF forward_inv_start, of "max STREAM_BATCH_SIZE 1" PROGRESS_LOG_INTERVAL events n out] out
    by (auto simp: forward_in_batches_def start_state_def)
  then show ?thesis using Streamed out taken_received [of events] by (auto intro: prefix_order.trans)
qed simp_all

lemma connection_for_request_fetching [simp]:
  "connection_for_request (st\<lparr>fetch_cancellations := cs\<rparr>) i = connection_for_request st i"
  by (simp add: connection_for_request_def split: option.split)

lemma fetch_command_eq:
  assumes "begin_for_connection request_id i (fetch_cancellations st) = (flag, cs)"
    and "connection_for_request st i = Inr connection"
    and "metadata_client connection (built lib connection) (kafka st) = (client, k)"
  shows "connection_fetch_messages lib sv topic flt max_size budget features base64 rounds forward request_id i st =
    map_option (\<lambda>result.
        (reply (and_then result (\<lambda>r. Inr (without_streamed (streamed_count (forward (sent_messages result))) r))),
         emitted_batches (forward (sent_messages result)),
         record_auth_outcome i result (st\<lparr>kafka := k, fetch_cancellations := finish request_id cs\<rparr>)))
      (fetch_messages (lib_broker lib)
        (sv\<lparr>pooled_client := and_then client (\<lambda>_. Inr ()), stops := \<lambda>look. store cs flag \<or> stops sv look\<rparr>)
        topic flt max_size budget features base64 rounds)"
  using assms by (simp add: connection_fetch_messages_def Let_def)

lemma fetch_command_returned:
  assumes "connection_fetch_messages lib sv topic flt max_size budget features base64 rounds forward request_id i st
    = Some (Inr r, bs, st')"
  obtains whole seen where "fetch_messages (lib_broker lib) seen topic flt max_size budget features base64 rounds = Some (Inr whole)"
    and "r = without_streamed (streamed_count (forward (messages whole))) whole"
    and "bs = emitted_batches (forward (messages whole))"
proof -
  obtain flag cs where cs: "begin_for_connection request_id i (fetch_cancellations st) = (flag, cs)" by fastforce
  then obtain connection where c: "connection_for_request st i = Inr connection"
    using assms by (cases "connection_for_request st i") (simp_all add: connection_fetch_messages_def)
  obtain client k where k: "metadata_client connection (built lib connection) (kafka st) = (client, k)" by fastforce
  note eq = fetch_command_eq [OF cs c k, of sv topic flt max_size budget features base64 rounds forward]
  obtain result where f: "fetch_messages (lib_broker lib)
      (sv\<lparr>pooled_client := and_then client (\<lambda>_. Inr ()), stops := \<lambda>look. store cs flag \<or> stops sv look\<rparr>)
      topic flt max_size budget features base64 rounds = Some result"
    using assms unfolding eq by blast
  note got = assms [unfolded eq f]
  obtain whole where whole: "result = Inr whole" using got by (cases result) (auto simp: reply_def)
  show ?thesis
    using that [OF f [unfolded whole]] got by (simp add: whole sent_messages_def)
qed

lemma fetch_command_blocked:
  assumes "auth_block_reason i (connections st) = Some why"
  shows "connection_fetch_messages lib sv topic flt max_size budget features base64 rounds forward request_id i st
    = Some (Inl (blocked_message why), [],
        st\<lparr>fetch_cancellations := finish request_id (snd (begin_for_connection request_id i (fetch_cancellations st)))\<rparr>)"
  using assms by (simp add: connection_fetch_messages_def connection_for_request_blocked split: prod.split)

section \<open>Properties\<close>



text \<open>C40: A fetch that was stopped before it began returns without asking the cluster anything, and is
  recorded as a success: the rejections held against the connection and every write refusal are
  forgotten, although no credentials were tried.\<close>
theorem stopped_fetch_clears_the_verdict:
  assumes "flags (fetch_cancellations st) request_id = Some flag" and "store (fetch_cancellations st) flag"
    and "connection_for_request st i = Inr connection" and "built lib connection = Inr client"
  shows "\<exists>bs st'. connection_fetch_messages lib sv topic flt max_size budget features base64 rounds (\<lambda>ms. Not_streaming)
        request_id i st = Some (Inr default_result, bs, st')
    \<and> auth_attempts i (connections st') = 0 \<and> (\<forall>t. write_denied_reason i t (connections st') = None)"
proof -
  obtain cs where cs: "begin_for_connection request_id i (fetch_cancellations st) = (flag, cs)" and flag: "store cs flag"
    using assms(1,2) by (auto simp: begin_for_connection_def begin_fetch_def flag_entry_def)
  obtain served k where k: "metadata_client connection (built lib connection) (kafka st) = (Inr served, k)"
    using assms(4) by (cases "metadata_client connection (built lib connection) (kafka st)")
      (auto simp: metadata_client_def pool_get_def Let_def split: option.splits if_splits)
  have stop: "fetch_messages (lib_broker lib) (sv\<lparr>pooled_client := Inr (), stops := \<lambda>look. True\<rparr>)
      topic flt max_size budget features base64 rounds = Some (Inr default_result)"
    by (simp add: fetch_messages_def)
  have "without_streamed 0 default_result = default_result"
    by (simp add: without_streamed_def)
  then show ?thesis
    using flag stop
    by (simp add: fetch_command_eq [OF cs assms(3) k] reply_def record_auth_outcome_def record_auth_success_def registry_defs)
qed

theorem stopped_fetch_clears_the_verdict_witness:
  "\<exists>bs st'. connection_fetch_messages denying_lib small_services ''t'' newest_five 1000 None [] chars_of [] (\<lambda>ms. Not_streaming)
        ''r'' ''a'' (small_app\<lparr>connections := record_auth_failure ''a'' ''no'' empty_registry,
          fetch_cancellations := cancel ''r'' no_cancellations\<rparr>) = Some (Inr default_result, bs, st')
    \<and> auth_attempts ''a'' (connections st') = 0"
proof -
  let ?st = "small_app\<lparr>connections := record_auth_failure ''a'' ''no'' empty_registry,
      fetch_cancellations := cancel ''r'' no_cancellations\<rparr>"
  obtain c where c: "conn_get True (db_connections small_app) ''a'' = Inr c" by (rule small_app_get)
  have gate: "connection_for_request ?st ''a'' = Inr c"
    using c by (simp add: connection_for_request_def reply_def small_app_def auth_block_reason_failure auth_attempts_def
        empty_registry_def MAX_AUTH_ATTEMPTS_def)
  have flag: "flags (fetch_cancellations ?st) ''r'' = Some 0" "store (fetch_cancellations ?st) 0"
    by (simp_all add: cancel_def flag_entry_def no_cancellations_def)
  have b: "built denying_lib c = Inr ()" by (simp add: built_def build_metadata_client_def create_client_def denying_lib_def)
  show ?thesis using stopped_fetch_clears_the_verdict [OF flag gate b] by blast
qed

end
