(* ===== verification/Avro.thy ===== *)
theory Avro
  imports Bytes App_Error "HOL-Library.AList" "HOL-Library.Char_ord" "HOL-Library.List_Lexorder" "HOL-Library.Multiset"
begin

text \<open>
  Avro decoding, \<^verbatim>\<open>backend/avro/src/lib.rs\<close>: which schema a payload is read with, and how a decoded
  value becomes the JSON that is shown. The Avro library reads the bytes (\<open>avro_lib\<close>), the calendar
  library turns seconds into dates and clock times (\<open>calendar\<close>).
\<close>

section \<open>Choosing a schema\<close>

definition detect_wire_format :: "byte list \<Rightarrow> u32 option" where
  "detect_wire_format bytes =
     (if length bytes < 5 \<or> bytes ! 0 \<noteq> 0 then None
      else Some (of_nat (be_nat [bytes ! 1, bytes ! 2, bytes ! 3, bytes ! 4])))"

definition CONTAINER_FILE_MAGIC :: "byte list" where
  "CONTAINER_FILE_MAGIC = [0x4F, 0x62, 0x6A, 0x01]"

definition detect_container_file :: "byte list \<Rightarrow> bool" where
  "detect_container_file bytes = starts_with bytes CONTAINER_FILE_MAGIC"

datatype avro_decode_strategy = AvroContainerFile | AvroManualSchema | AvroSchemaRegistry u32

datatype avro_decode_refusal = NoSchemaAvailable | NoRegistryConfigured

definition avro_decide_decode_strategy :: "byte list \<Rightarrow> bool \<Rightarrow> bool \<Rightarrow> avro_decode_refusal + avro_decode_strategy" where
  "avro_decide_decode_strategy bytes has_manual_schema has_registry =
     (if detect_container_file bytes then Inr AvroContainerFile
      else if has_manual_schema then Inr AvroManualSchema
      else case detect_wire_format bytes of
             Some schema_id \<Rightarrow> if has_registry then Inr (AvroSchemaRegistry schema_id) else Inl NoRegistryConfigured
           | None \<Rightarrow> Inl NoSchemaAvailable)"

fun avro_refusal_message :: "avro_decode_refusal \<Rightarrow> string" where
  "avro_refusal_message NoSchemaAvailable =
     ''payload has no Confluent Avro wire-format header and no manual schema is set for this topic''"
| "avro_refusal_message NoRegistryConfigured =
     ''no manual schema is set for this topic and this connection has no Schema Registry configured''"

section \<open>Values and schemas\<close>

text \<open>
  The values and the parts of a schema the code tells apart. The texts of a UUID and of a big decimal
  are the library's; floating point numbers are their bits.
\<close>

datatype avro_value =
    ANull | ABoolean bool | AInt int | ALong int | AFloat u32 | ADouble u64 | ABytes "byte list" | AString string
  | AFixed nat "byte list" | AEnum nat string | AUuid string | ADecimal int | ADate int
  | ATimeMillis int | ATimeMicros int | ATimestampMillis int | ATimestampMicros int
  | ALocalTimestampMillis int | ALocalTimestampMicros int | ATimestampNanos int | ALocalTimestampNanos int
  | ABigDecimal string | ADuration nat nat nat | AUnion nat avro_value | AArray "avro_value list"
  | AMap "(string \<times> avro_value) list" | ARecord "(string \<times> avro_value) list"

text \<open>A record schema has its fields and the table from names and aliases to their positions.\<close>

datatype avro_schema =
    SDecimal nat | SRef string | SUnion "avro_schema list" | SArray avro_schema | SMap avro_schema
  | SRecord "(string \<times> nat) list" "avro_schema list" | SOther

record calendar =
  from_timestamp :: "int \<Rightarrow> nat \<Rightarrow> (string \<times> nat \<times> nat \<times> nat \<times> nat) option"
  from_midnight :: "nat \<Rightarrow> nat \<Rightarrow> (nat \<times> nat \<times> nat \<times> nat) option"

record avro_lib =
  base64 :: "byte list \<Rightarrow> string"
  json_f32 :: "u32 \<Rightarrow> json"
  json_f64 :: "u64 \<Rightarrow> json"
  cal :: calendar
  parse_schema :: "string \<Rightarrow> avro_schema option"
  resolve_names :: "avro_schema \<Rightarrow> (string \<rightharpoonup> avro_schema) option"
  reader_builds :: "avro_schema \<Rightarrow> bool"
  read_datum :: "avro_schema \<Rightarrow> byte list \<Rightarrow> avro_value option"
  read_container :: "byte list \<Rightarrow> (avro_schema \<times> avro_value option list) option"

section \<open>Logical types\<close>

definition format_decimal :: "int \<Rightarrow> nat \<Rightarrow> string" where
  "format_decimal unscaled scale =
     (let digits = show_int unscaled in
      if scale = 0 then digits
      else
        let (sign, digits) = (if starts_with digits ''-'' then (''-'', tl digits) else ([], digits)) in
        if scale < length digits
        then let whole = length digits - scale in sign @ take whole digits @ ''.'' @ drop whole digits
        else sign @ ''0.'' @ replicate (scale - length digits) CHR ''0'' @ digits)"

text \<open>\<^verbatim>\<open>{:0>width$}\<close>\<close>

definition pad_zeros :: "nat \<Rightarrow> nat \<Rightarrow> string" where
  "pad_zeros width n = replicate (width - length (show_nat n)) CHR ''0'' @ show_nat n"

text \<open>A clock time is hours, minutes, seconds and nanoseconds.\<close>

definition render_time :: "nat \<times> nat \<times> nat \<times> nat \<Rightarrow> nat \<Rightarrow> string" where
  "render_time time fraction_digits =
     (case time of (hour, minute, second, nanos) \<Rightarrow>
        pad_zeros 2 hour @ '':'' @ pad_zeros 2 minute @ '':'' @ pad_zeros 2 second @ ''.''
          @ pad_zeros fraction_digits (nanos div 10 ^ (9 - fraction_digits)))"

definition format_date :: "calendar \<Rightarrow> int \<Rightarrow> json" where
  "format_date c days =
     (case from_timestamp c (days * 86400) 0 of
        Some (date, time) \<Rightarrow> JString date
      | None \<Rightarrow> JInt days)"

definition format_time :: "calendar \<Rightarrow> int \<Rightarrow> int \<Rightarrow> nat \<Rightarrow> json" where
  "format_time c val per_second fraction_digits =
     (let seconds = val div per_second;
          nanos = val mod per_second * (1000000000 div per_second);
          time = (if 0 \<le> seconds \<and> seconds < 2 ^ 32 \<and> 0 \<le> nanos \<and> nanos < 2 ^ 32
                  then from_midnight c (nat seconds) (nat nanos) else None)
      in case time of Some t \<Rightarrow> JString (render_time t fraction_digits) | None \<Rightarrow> JInt val)"

definition format_timestamp :: "calendar \<Rightarrow> int \<Rightarrow> int \<Rightarrow> nat \<Rightarrow> bool \<Rightarrow> json" where
  "format_timestamp c val per_second fraction_digits utc =
     (let seconds = val div per_second;
          nanos = val mod per_second * (1000000000 div per_second);
          instant = (if 0 \<le> nanos \<and> nanos < 2 ^ 32 then from_timestamp c seconds (nat nanos) else None)
      in case instant of
           Some (date, time) \<Rightarrow> JString (date @ ''T'' @ render_time time fraction_digits @ (if utc then ''Z'' else []))
         | None \<Rightarrow> JInt val)"

section \<open>Values as JSON\<close>

definition deref :: "(string \<rightharpoonup> avro_schema) \<Rightarrow> avro_schema option \<Rightarrow> avro_schema option" where
  "deref names schema = (case schema of Some (SRef name) \<Rightarrow> names name | other \<Rightarrow> other)"

text \<open>Collecting entries into an object: a key that comes again keeps its place and takes the new value.\<close>

definition collect_object :: "(string \<times> json) list \<Rightarrow> json" where
  "collect_object entries = JObject (fold (\<lambda>(k, v). AList.update k v) entries [])"

definition field_schema :: "avro_schema option \<Rightarrow> string \<Rightarrow> avro_schema option" where
  "field_schema schema name =
     (case schema of
        Some (SRecord positions field_schemas) \<Rightarrow>
          (case map_of positions name of
             Some i \<Rightarrow> if i < length field_schemas then Some (field_schemas ! i) else None
           | None \<Rightarrow> None)
      | _ \<Rightarrow> None)"

definition variant_schema :: "avro_schema option \<Rightarrow> nat \<Rightarrow> avro_schema option" where
  "variant_schema schema i =
     (case schema of
        Some (SUnion variants) \<Rightarrow> if i < length variants then Some (variants ! i) else None
      | _ \<Rightarrow> None)"

definition items_schema :: "avro_schema option \<Rightarrow> avro_schema option" where
  "items_schema schema = (case schema of Some (SArray s) \<Rightarrow> Some s | _ \<Rightarrow> None)"

definition values_schema :: "avro_schema option \<Rightarrow> avro_schema option" where
  "values_schema schema = (case schema of Some (SMap s) \<Rightarrow> Some s | _ \<Rightarrow> None)"

definition scale_of :: "avro_schema option \<Rightarrow> nat" where
  "scale_of schema = (case schema of Some (SDecimal scale) \<Rightarrow> scale | _ \<Rightarrow> 0)"

fun to_json_value :: "avro_lib \<Rightarrow> (string \<rightharpoonup> avro_schema) \<Rightarrow> avro_value \<Rightarrow> avro_schema option \<Rightarrow> json"
  and to_json_items :: "avro_lib \<Rightarrow> (string \<rightharpoonup> avro_schema) \<Rightarrow> avro_value list \<Rightarrow> avro_schema option \<Rightarrow> json list"
  and to_json_entries :: "avro_lib \<Rightarrow> (string \<rightharpoonup> avro_schema) \<Rightarrow> (string \<times> avro_value) list
      \<Rightarrow> (string \<Rightarrow> avro_schema option) \<Rightarrow> (string \<times> json) list" where
  "to_json_value lib names ANull schema = JNull"
| "to_json_value lib names (ABoolean b) schema = JBool b"
| "to_json_value lib names (AInt i) schema = JInt i"
| "to_json_value lib names (ALong i) schema = JInt i"
| "to_json_value lib names (AFloat f) schema = json_f32 lib f"
| "to_json_value lib names (ADouble f) schema = json_f64 lib f"
| "to_json_value lib names (ABytes b) schema = JString (base64 lib b)"
| "to_json_value lib names (AString s) schema = JString s"
| "to_json_value lib names (AFixed n b) schema = JString (base64 lib b)"
| "to_json_value lib names (AEnum n s) schema = JString s"
| "to_json_value lib names (AUuid s) schema = JString s"
| "to_json_value lib names (ADecimal d) schema = JString (format_decimal d (scale_of (deref names schema)))"
| "to_json_value lib names (ADate days) schema = format_date (cal lib) days"
| "to_json_value lib names (ATimeMillis t) schema = format_time (cal lib) t 1000 3"
| "to_json_value lib names (ATimeMicros t) schema = format_time (cal lib) t 1000000 6"
| "to_json_value lib names (ATimestampMillis t) schema = format_timestamp (cal lib) t 1000 3 True"
| "to_json_value lib names (ATimestampMicros t) schema = format_timestamp (cal lib) t 1000000 6 True"
| "to_json_value lib names (ALocalTimestampMillis t) schema = format_timestamp (cal lib) t 1000 3 False"
| "to_json_value lib names (ALocalTimestampMicros t) schema = format_timestamp (cal lib) t 1000000 6 False"
| "to_json_value lib names (ATimestampNanos t) schema = format_timestamp (cal lib) t 1000000000 9 True"
| "to_json_value lib names (ALocalTimestampNanos t) schema = format_timestamp (cal lib) t 1000000000 9 False"
| "to_json_value lib names (ABigDecimal s) schema = JString s"
| "to_json_value lib names (ADuration months days millis) schema =
     JObject [(''months'', JInt (int months)), (''days'', JInt (int days)), (''milliseconds'', JInt (int millis))]"
| "to_json_value lib names (AUnion i inner) schema = to_json_value lib names inner (variant_schema (deref names schema) i)"
| "to_json_value lib names (AArray items) schema = JArray (to_json_items lib names items (items_schema (deref names schema)))"
| "to_json_value lib names (AMap entries) schema =
     collect_object (sort_key fst (to_json_entries lib names entries (\<lambda>name. values_schema (deref names schema))))"
| "to_json_value lib names (ARecord entries) schema =
     collect_object (to_json_entries lib names entries (field_schema (deref names schema)))"
| "to_json_items lib names [] schema = []"
| "to_json_items lib names (v # vs) schema = to_json_value lib names v schema # to_json_items lib names vs schema"
| "to_json_entries lib names [] schemas = []"
| "to_json_entries lib names ((name, v) # es) schemas =
     (name, to_json_value lib names v (schemas name)) # to_json_entries lib names es schemas"

definition to_json :: "avro_lib \<Rightarrow> avro_value \<Rightarrow> avro_schema \<Rightarrow> json" where
  "to_json lib v schema =
     (let names = (case resolve_names lib schema of Some names \<Rightarrow> names | None \<Rightarrow> Map.empty)
      in to_json_value lib names v (Some schema))"

section \<open>Decoding\<close>

definition avro_validate_schema :: "avro_lib \<Rightarrow> string \<Rightarrow> report + unit" where
  "avro_validate_schema lib schema_json =
     (case parse_schema lib schema_json of
        None \<Rightarrow> Inl (fail_with Decode ''invalid Avro schema'')
      | Some schema \<Rightarrow> Inr ())"

definition avro_decode :: "avro_lib \<Rightarrow> byte list \<Rightarrow> string \<Rightarrow> report + json" where
  "avro_decode lib bytes schema_json =
     (case parse_schema lib schema_json of
        None \<Rightarrow> Inl (fail_with Decode ''invalid Avro schema'')
      | Some schema \<Rightarrow>
          if \<not> reader_builds lib schema then Inl (fail_with Decode ''invalid Avro schema'')
          else (case read_datum lib schema bytes of
             None \<Rightarrow> Inl (fail_with Decode ''payload isn't valid Avro for this schema'')
           | Some v \<Rightarrow> Inr (to_json lib v schema)))"

fun container_records :: "avro_lib \<Rightarrow> avro_schema \<Rightarrow> avro_value option list \<Rightarrow> report + json list" where
  "container_records lib schema [] = Inr []"
| "container_records lib schema (None # vs) = Inl (fail_with Decode ''payload isn't a valid Avro container file'')"
| "container_records lib schema (Some v # vs) =
     and_then (container_records lib schema vs) (\<lambda>records. Inr (to_json lib v schema # records))"

definition decode_container :: "avro_lib \<Rightarrow> byte list \<Rightarrow> report + json" where
  "decode_container lib bytes =
     (case read_container lib bytes of
        None \<Rightarrow> Inl (fail_with Decode ''payload isn't a valid Avro container file'')
      | Some (schema, vs) \<Rightarrow>
          and_then (container_records lib schema vs) (\<lambda>records.
          case records of
            [] \<Rightarrow> Inl (fail_with Decode ''Avro container file has no records'')
          | [record_json] \<Rightarrow> Inr record_json
          | _ \<Rightarrow> Inr (JArray records)))"

section \<open>Lemmas\<close>

lemma read_zeros [simp]: "read_nat (replicate n CHR ''0'' @ s) = read_nat s"
  by (induction n) (simp_all add: read_nat_def digit_val_def)

lemma read_pad [simp]: "read_nat (pad_zeros width n) = n"
  by (simp add: pad_zeros_def)

lemma show_nat_length: "n < 10 ^ k \<Longrightarrow> 0 < k \<Longrightarrow> length (show_nat n) \<le> k"
proof (induction n arbitrary: k rule: show_nat.induct)
  case (1 n)
  show ?case
  proof (cases "n < 10")
    case False
    obtain j where k: "k = Suc j" using 1(3) by (cases k) auto
    have "n div 10 < 10 ^ j" using 1(2) k by (simp add: less_mult_imp_div_less)
    moreover have "0 < j" using 1(2) k False by (cases j) auto
    ultimately show ?thesis using 1(1) False k by (simp add: show_nat.simps [of n])
  qed (use 1 in \<open>simp add: show_nat.simps [of n]\<close>)
qed

lemma length_pad: "n < 10 ^ k \<Longrightarrow> 0 < k \<Longrightarrow> length (pad_zeros k n) = k"
  using show_nat_length [of n k] by (simp add: pad_zeros_def)

lemma show_nat_no_sign: "starts_with (show_nat n) ''-'' = False"
proof (cases "show_nat n")
  case (Cons c cs)
  then have "is_digit c" using show_nat_digits [of c n] by simp
  then show ?thesis using Cons by (auto simp: starts_with_iff is_digit_def)
qed simp

text \<open>A decimal is a sign, the digits before the point, the point and as many digits as the scale.\<close>

lemma format_decimal_parts:
  assumes "0 < scale"
  shows "\<exists>whole fraction. format_decimal d scale = (if d < 0 then ''-'' else []) @ whole @ ''.'' @ fraction
      \<and> length fraction = scale \<and> whole \<noteq> [] \<and> read_nat (whole @ fraction) = nat \<bar>d\<bar>"
proof -
  let ?digits = "show_nat (nat \<bar>d\<bar>)"
  have sign: "show_int d = (if d < 0 then ''-'' else []) @ ?digits" by (simp add: show_int_def)
  have split: "format_decimal d scale = (if d < 0 then ''-'' else []) @
      (if scale < length ?digits
       then take (length ?digits - scale) ?digits @ ''.'' @ drop (length ?digits - scale) ?digits
       else ''0.'' @ replicate (scale - length ?digits) CHR ''0'' @ ?digits)"
    using assms show_nat_no_sign unfolding format_decimal_def sign by (auto simp: Let_def starts_with_iff)
  show ?thesis
  proof (cases "scale < length ?digits")
    case True
    then show ?thesis
      unfolding split
      by (intro exI [of _ "take (length ?digits - scale) ?digits"] exI [of _ "drop (length ?digits - scale) ?digits"]) simp
  next
    case False
    have "read_nat (''0'' @ replicate (scale - length ?digits) CHR ''0'' @ ?digits) = nat \<bar>d\<bar>"
      using read_zeros [of "Suc (scale - length ?digits)"] by simp
    with False show ?thesis
      unfolding split
      by (intro exI [of _ "''0''"] exI [of _ "replicate (scale - length ?digits) CHR ''0'' @ ?digits"]) simp
  qed
qed

lemma collect_distinct: "distinct (map fst acc @ map fst es) \<Longrightarrow> fold (\<lambda>(k, v). AList.update k v) es acc = acc @ es"
proof (induction es arbitrary: acc)
  case (Cons e es)
  have "AList.update (fst e) (snd e) acc = acc @ [e]"
    using Cons.prems by (induction acc) auto
  with Cons show ?case by (simp add: case_prod_unfold)
qed simp

lemma collect_object_distinct: "distinct (map fst es) \<Longrightarrow> collect_object es = JObject es"
  by (simp add: collect_object_def collect_distinct [of "[]", simplified])

lemma entries_map:
  "to_json_entries lib names es schemas = map (\<lambda>(name, v). (name, to_json_value lib names v (schemas name))) es"
  by (induction es) auto

lemma sort_perm:
  assumes "mset xs = mset ys" "distinct (map fst xs)"
  shows "sort_key fst xs = sort_key fst (ys :: (string \<times> json) list)"
  using assms by (intro sort_key_inj_key_eq) (simp_all add: distinct_map)

lemma distinct_entries: "map fst (to_json_entries lib names es schemas) = map fst es"
  by (simp add: entries_map case_prod_unfold)

text \<open>The time of day is printed with a fixed number of digits after the second.\<close>

lemma render_time_fraction:
  assumes "0 < digits" "digits \<le> 9" "nanos = r * 10 ^ (9 - digits)" "r < 10 ^ digits"
  shows "render_time (h, m, s, nanos) digits
      = pad_zeros 2 h @ '':'' @ pad_zeros 2 m @ '':'' @ pad_zeros 2 s @ ''.'' @ pad_zeros digits r"
    and "length (pad_zeros digits r) = digits"
  using assms by (simp_all add: render_time_def length_pad)

lemma timestamp_nanos:
  assumes "digits \<le> 9" "0 \<le> r" "r < 10 ^ digits"
  shows "r * (1000000000 div 10 ^ digits) = r * 10 ^ (9 - digits)" "r * (10 ^ (9 - digits)) < (2 ^ 32 :: int)"
proof -
  have split: "(1000000000 :: int) = 10 ^ (9 - digits) * 10 ^ digits"
    using assms(1) by (simp flip: power_add)
  show "r * (1000000000 div 10 ^ digits) = r * 10 ^ (9 - digits)" unfolding split by simp
  have "r * 10 ^ (9 - digits) \<le> 10 ^ digits * 10 ^ (9 - digits)"
    using assms by (intro mult_right_mono) simp_all
  also have "\<dots> = 1000000000" unfolding split by (simp add: mult.commute)
  finally show "r * (10 ^ (9 - digits)) < (2 ^ 32 :: int)" by simp
qed

lemma image_mset_fst: "image_mset fst (mset (to_json_entries lib names es schemas)) = image_mset fst (mset es)"
  unfolding entries_map by (simp add: multiset.map_comp comp_def case_prod_unfold)

section \<open>Properties\<close>

text \<open>A decimal is shown exactly: with scale zero it is the integer, otherwise it has one point with exactly
  as many digits after it as the schema's scale and at least one before, the minus sign comes first, and
  the digits read without the point are the unscaled integer.\<close>
theorem decimals_exact:
  "if scale = 0 then format_decimal d scale = show_int d
   else \<exists>whole fraction. format_decimal d scale = (if d < 0 then ''-'' else []) @ whole @ ''.'' @ fraction
      \<and> length fraction = scale \<and> whole \<noteq> [] \<and> read_nat (whole @ fraction) = nat \<bar>d\<bar>"
  using format_decimal_parts by (simp add: format_decimal_def Let_def)

text \<open>A timestamp of milliseconds, microseconds or nanoseconds is shown without losing any of it, before the
  epoch too: the date and clock time are those of the second it falls in, and the fraction has a fixed
  width and reads back to the rest. The calendar has to keep the nanoseconds it is given.\<close>
theorem timestamps_lose_nothing:
  assumes keeps: "\<And>seconds nanos date h m s n. from_timestamp c seconds nanos = Some (date, h, m, s, n) \<Longrightarrow> n = nanos"
    and digits: "0 < digits" "digits \<le> 9"
  shows "\<exists>fraction. length fraction = digits \<and> read_nat fraction = nat (v mod 10 ^ digits)
    \<and> format_timestamp c v (10 ^ digits) digits utc =
        (case from_timestamp c (v div 10 ^ digits) (nat (v mod 10 ^ digits) * 10 ^ (9 - digits)) of
           None \<Rightarrow> JInt v
         | Some (date, h, m, s, n) \<Rightarrow>
             JString (date @ ''T'' @ pad_zeros 2 h @ '':'' @ pad_zeros 2 m @ '':'' @ pad_zeros 2 s @ ''.'' @ fraction
               @ (if utc then ''Z'' else [])))"
proof -
  let ?r = "v mod 10 ^ digits" and ?n = "nat (v mod 10 ^ digits) * 10 ^ (9 - digits)"
  have r: "0 \<le> ?r" "?r < 10 ^ digits" by simp_all
  have n: "nat (?r * 10 ^ (9 - digits)) = ?n" by (simp add: nat_mult_distrib nat_power_eq)
  have less: "nat ?r < 10 ^ digits" using r by (simp add: nat_less_iff)
  have shown: "format_timestamp c v (10 ^ digits) digits utc =
      (case from_timestamp c (v div 10 ^ digits) ?n of
         Some (date, time) \<Rightarrow> JString (date @ ''T'' @ render_time time digits @ (if utc then ''Z'' else []))
       | None \<Rightarrow> JInt v)"
    unfolding format_timestamp_def Let_def timestamp_nanos(1) [OF digits(2) r] n
    using timestamp_nanos(2) [OF digits(2) r] by simp
  have "render_time (h, m, s, k) digits
      = pad_zeros 2 h @ '':'' @ pad_zeros 2 m @ '':'' @ pad_zeros 2 s @ ''.'' @ pad_zeros digits (nat ?r)"
    if "from_timestamp c (v div 10 ^ digits) ?n = Some (date, h, m, s, k)" for date h m s k
    using keeps [OF that] by (intro render_time_fraction(1) [OF digits _ less])
  then show ?thesis
    unfolding shown using render_time_fraction(2) [OF digits refl less]
    by (intro exI [of _ "pad_zeros digits (nat ?r)"]) (auto split: option.split)
qed

theorem timestamps_lose_nothing_witness:
  "\<exists>fraction. length fraction = 3 \<and> read_nat fraction = 999
    \<and> format_timestamp \<lparr>from_timestamp = (\<lambda>s n. Some (''1969-12-31'', 23, 59, 59, n)), from_midnight = (\<lambda>s n. None)\<rparr> (- 1) 1000 3 True
      = JString (''1969-12-31T23:59:59.'' @ fraction @ ''Z'')"
proof -
  have "pad_zeros 2 23 = ''23''" "pad_zeros 2 59 = ''59''" by code_simp+
  then show ?thesis
    using timestamps_lose_nothing [of "\<lparr>from_timestamp = (\<lambda>s n. Some (''1969-12-31'', 23, 59, 59, n)), from_midnight = (\<lambda>s n. None)\<rparr>" 3 "- 1" True]
    by simp
qed

text \<open>The JSON of a map does not depend on the order the hash map hands its entries out in, and is sorted by
  key; a record keeps the order of its fields.\<close>
theorem maps_sorted_records_ordered:
  assumes "mset es = mset es'" and "distinct (map fst es)"
  shows "to_json_value lib names (AMap es) schema = to_json_value lib names (AMap es') schema
    \<and> (\<exists>shown. to_json_value lib names (AMap es) schema = JObject shown \<and> map fst shown = sort (map fst es))
    \<and> (\<exists>shown. to_json_value lib names (ARecord es) schema = JObject shown \<and> map fst shown = map fst es)"
proof -
  let ?json = "\<lambda>es. to_json_entries lib names es (\<lambda>name. values_schema (deref names schema))"
  have "mset (?json es) = mset (?json es')" unfolding entries_map by (simp add: assms(1))
  then have "sort_key fst (?json es) = sort_key fst (?json es')"
    by (rule sort_perm) (simp add: distinct_entries assms(2))
  moreover have "map fst (sort_key fst (?json es)) = sort (map fst es)"
    by (rule properties_for_sort [symmetric]) (simp_all add: distinct_entries image_mset_fst)
  ultimately show ?thesis
    using assms(2) by (simp add: collect_object_distinct distinct_entries)
qed

end
