(* ===== verification/Schema_Commands.thy ===== *)
theory Schema_Commands
  imports Commands Protobuf Avro
begin

text \<open>
  The commands on topic schemas and the two decode commands of the payload viewer
  (\<^verbatim>\<open>src-tauri/src/commands/schema.rs\<close>), on the state of the application. A command that would stop at
  an \<^verbatim>\<open>expect\<close> returns \<open>None\<close>; a panic inside a blocking task is \<open>None\<close> there and becomes the error the
  command reports when it joins the task. The libraries are the record \<open>decode_lib\<close>; the cache of
  compiled protobuf schemas belongs to the process and is passed along.
\<close>

section \<open>Definitions\<close>

record ('s, 'p, 'd, 'm, 'cert, 'identity, 'h) decode_lib =
  dl_base64 :: "string \<Rightarrow> string + byte list"
  dl_avro :: avro_lib
  dl_proto :: "('s, 'p, 'd, 'm) proto_lib"
  dl_between :: "(string \<times> 'p) list \<Rightarrow> (string \<times> 'p) list"
  dl_show_f64 :: "u64 \<Rightarrow> string"
  dl_show_f32 :: "u32 \<Rightarrow> string"
  dl_http :: "('cert, 'identity, 'h) http_lib"
  dl_hash :: "string option list \<Rightarrow> u64"
  dl_send :: "'h \<Rightarrow> string \<Rightarrow> (string \<times> string) option \<Rightarrow> http_response"

definition topic_schema_get ::
    "string \<Rightarrow> string \<Rightarrow> string \<Rightarrow> ('c, 'a, 'h) app_state \<Rightarrow> string + string option" where
  "topic_schema_get i topic format st = reply (schema_get (db_up st) i topic format (db_schemas st))"

definition validate_for ::
    "('s, 'p, 'd, 'm, 'cert, 'identity, 'h) decode_lib \<Rightarrow> string \<Rightarrow> string \<Rightarrow> (string \<times> 'p) list
      \<Rightarrow> (report + unit) \<times> (string \<times> 'p) list" where
  "validate_for lib format schema_text cache =
     (if format = ''avro'' then (avro_validate_schema (dl_avro lib) schema_text, cache)
      else if format = ''protobuf'' then proto_validate_schema (dl_proto lib) (dl_between lib) schema_text cache
      else (Inr (), cache))"

definition topic_schema_set ::
    "('s, 'p, 'd, 'm, 'cert, 'identity, 'h) decode_lib \<Rightarrow> string \<Rightarrow> string \<Rightarrow> string \<Rightarrow> string
      \<Rightarrow> ('c, 'a, 'h) app_state \<times> (string \<times> 'p) list \<Rightarrow> (string + unit) \<times> ('c, 'a, 'h) app_state \<times> (string \<times> 'p) list" where
  "topic_schema_set lib i topic format schema_text s =
     (case s of (st, cache) \<Rightarrow>
        (case validate_for lib format schema_text cache of
           (Inl e, cache) \<Rightarrow> (reply (Inl e), st, cache)
         | (Inr _, cache) \<Rightarrow>
             (case schema_set (db_up st) i topic format schema_text (db_schemas st) of
                (result, rows) \<Rightarrow> (reply result, st\<lparr>db_schemas := rows\<rparr>, cache))))"

definition topic_schema_delete ::
    "string \<Rightarrow> string \<Rightarrow> string \<Rightarrow> ('c, 'a, 'h) app_state \<Rightarrow> (string + unit) \<times> ('c, 'a, 'h) app_state" where
  "topic_schema_delete i topic format st =
     (case schema_delete (db_up st) i topic format (db_schemas st) of
        (result, rows) \<Rightarrow> (reply result, st\<lparr>db_schemas := rows\<rparr>))"

text \<open>Joining a blocking task, and \<^verbatim>\<open>&bytes[offset..]\<close>, which panics past the end.\<close>

definition join_task :: "string \<Rightarrow> (report + 'r) option \<Rightarrow> report + 'r" where
  "join_task message outcome =
     (case outcome of None \<Rightarrow> Inl (fail_with Decode message) | Some result \<Rightarrow> result)"

definition bytes_from :: "nat \<Rightarrow> byte list \<Rightarrow> byte list option" where
  "bytes_from offset bytes = (if offset \<le> length bytes then Some (drop offset bytes) else None)"

definition registry_auth :: "conn \<Rightarrow> schema_registry_auth" where
  "registry_auth connection =
     \<lparr>basic_auth_credentials = schema_registry_basic_auth_credentials connection,
      trust_store_location = schema_registry_trust_store_location connection,
      registry_keystore_location = schema_registry_keystore_location connection,
      registry_keystore_password = schema_registry_keystore_password connection\<rparr>"

text \<open>What both decode commands gather first: the payload, the topic's schema and the connection.\<close>

definition decode_inputs ::
    "('s, 'p, 'd, 'm, 'cert, 'identity, 'h) decode_lib \<Rightarrow> string \<Rightarrow> string \<Rightarrow> string \<Rightarrow> string
      \<Rightarrow> ('c, 'a, 'h) app_state \<Rightarrow> report + byte list \<times> string option \<times> conn" where
  "decode_inputs lib i topic format payload st =
     (case dl_base64 lib payload of
        Inl e \<Rightarrow> Inl (fail_with Decode ''payload isn't valid base64'')
      | Inr bytes \<Rightarrow>
          and_then (schema_get (db_up st) i topic format (db_schemas st)) (\<lambda>manual_schema.
          and_then (conn_get (db_up st) (db_connections st) i) (\<lambda>connection.
          Inr (bytes, manual_schema, connection))))"

definition registry_schema ::
    "('s, 'p, 'd, 'm, 'cert, 'identity, 'h) decode_lib \<Rightarrow> string \<Rightarrow> conn \<Rightarrow> string \<Rightarrow> u32
      \<Rightarrow> ('c, 'a, 'h) app_state \<Rightarrow> (report + string) \<times> ('c, 'a, 'h) app_state" where
  "registry_schema lib i connection endpoint sid st =
     (case fetch_pooled (dl_hash lib) (dl_http lib) (dl_send lib) i endpoint (registry_auth connection) sid (schema_registry st) of
        (result, clients) \<Rightarrow> (result, st\<lparr>schema_registry := clients\<rparr>))"

section \<open>The Avro command\<close>

datatype decode_outcome = Decoded json | NeedsRegistrySchema "byte list" u32

definition avro_outcome ::
    "avro_lib \<Rightarrow> byte list \<Rightarrow> string option \<Rightarrow> bool \<Rightarrow> (report + decode_outcome) option" where
  "avro_outcome lib bytes manual_schema has_registry_endpoint =
     (case avro_decide_decode_strategy bytes (manual_schema \<noteq> None) has_registry_endpoint of
        Inl refusal \<Rightarrow> Some (Inl (fail_with Decode (avro_refusal_message refusal)))
      | Inr AvroContainerFile \<Rightarrow> Some (and_then (decode_container lib bytes) (\<lambda>v. Inr (Decoded v)))
      | Inr AvroManualSchema \<Rightarrow>
          map_option (\<lambda>schema. and_then (avro_decode lib bytes schema) (\<lambda>v. Inr (Decoded v))) manual_schema
      | Inr (AvroSchemaRegistry sid) \<Rightarrow> Some (Inr (NeedsRegistrySchema bytes sid)))"

definition connection_decode_avro ::
    "('s, 'p, 'd, 'm, 'cert, 'identity, 'h) decode_lib \<Rightarrow> string \<Rightarrow> string \<Rightarrow> string
      \<Rightarrow> ('c, 'a, 'h) app_state \<Rightarrow> (string + json) option \<times> ('c, 'a, 'h) app_state" where
  "connection_decode_avro lib i topic payload st =
     (case decode_inputs lib i topic ''avro'' payload st of
        Inl e \<Rightarrow> (Some (reply (Inl e)), st)
      | Inr (bytes, manual_schema, connection) \<Rightarrow>
          (case join_task ''avro decode task panicked''
                  (avro_outcome (dl_avro lib) bytes manual_schema (schema_registry_endpoint connection \<noteq> None)) of
             Inl e \<Rightarrow> (Some (reply (Inl e)), st)
           | Inr (Decoded v) \<Rightarrow> (Some (Inr v), st)
           | Inr (NeedsRegistrySchema bytes sid) \<Rightarrow>
               (case schema_registry_endpoint connection of
                  None \<Rightarrow> (None, st)
                | Some endpoint \<Rightarrow>
                    (case registry_schema lib i connection endpoint sid st of
                       (Inl e, st) \<Rightarrow> (Some (reply (Inl e)), st)
                     | (Inr schema_text, st) \<Rightarrow>
                         (Some (reply (join_task ''avro decode task panicked''
                            (map_option (\<lambda>body. avro_decode (dl_avro lib) body schema_text) (bytes_from 5 bytes)))), st)))))"

section \<open>The Protobuf command\<close>

text \<open>The task that decodes the bytes after the framing with a schema.\<close>

definition proto_task ::
    "('s, 'p, 'd, 'm, 'cert, 'identity, 'h) decode_lib \<Rightarrow> byte list option \<Rightarrow> string \<Rightarrow> int list \<Rightarrow> protobuf_schema_source
      \<Rightarrow> (string \<times> 'p) list \<Rightarrow> (string + protobuf_decoded) \<times> (string \<times> 'p) list" where
  "proto_task lib body schema index source cache =
     (case body of
        None \<Rightarrow> (reply (join_task ''protobuf decode task panicked'' None), cache)
      | Some b \<Rightarrow>
          (case proto_decode (dl_proto lib) (dl_between lib) b schema index source cache of
             (result, cache) \<Rightarrow> (reply (join_task ''protobuf decode task panicked'' (Some result)), cache)))"

definition connection_decode_protobuf ::
    "('s, 'p, 'd, 'm, 'cert, 'identity, 'h) decode_lib \<Rightarrow> string \<Rightarrow> string \<Rightarrow> string
      \<Rightarrow> ('c, 'a, 'h) app_state \<times> (string \<times> 'p) list
      \<Rightarrow> (string + protobuf_decoded) option \<times> ('c, 'a, 'h) app_state \<times> (string \<times> 'p) list" where
  "connection_decode_protobuf lib i topic payload s =
     (case s of (st, cache) \<Rightarrow>
      (case decode_inputs lib i topic ''protobuf'' payload st of
         Inl e \<Rightarrow> (Some (reply (Inl e)), st, cache)
       | Inr (bytes, manual_schema, connection) \<Rightarrow>
          (case proto_decide_decode_strategy bytes (manual_schema \<noteq> None) (schema_registry_endpoint connection \<noteq> None) of
             ProtoRawFields offset \<Rightarrow>
               (Some (reply (join_task ''protobuf decode task panicked''
                  (map_option (decode_without_schema (dl_show_f64 lib) (dl_show_f32 lib)) (bytes_from offset bytes)))), st, cache)
           | ProtoManualSchema offset index \<Rightarrow>
               (case manual_schema of
                  None \<Rightarrow> (None, st, cache)
                | Some schema \<Rightarrow>
                    (case proto_task lib (bytes_from offset bytes) schema index ManualSource cache of
                       (result, cache) \<Rightarrow> (Some result, st, cache)))
           | ProtoSchemaRegistry sid offset index \<Rightarrow>
               (case schema_registry_endpoint connection of
                  None \<Rightarrow> (None, st, cache)
                | Some endpoint \<Rightarrow>
                    (case registry_schema lib i connection endpoint sid st of
                       (Inl e, st) \<Rightarrow> (Some (reply (Inl e)), st, cache)
                     | (Inr schema_text, st) \<Rightarrow>
                         (case proto_task lib (bytes_from offset bytes) schema_text index RegistrySource cache of
                            (result, cache) \<Rightarrow> (Some result, st, cache)))))))"

section \<open>Lemmas\<close>

lemma reply_simps [simp]: "reply (Inl e) = Inl (format_report e)" "reply (Inr x) = Inr x"
  by (simp_all add: reply_def)

lemma join_task_simps [simp]: "join_task message (Some r) = r" "join_task message None = Inl (fail_with Decode message)"
  by (simp_all add: join_task_def)

lemma bytes_from_ok [simp]: "offset \<le> length bytes \<Longrightarrow> bytes_from offset bytes = Some (drop offset bytes)"
  by (simp add: bytes_from_def)

lemma proto_task_ok [simp]:
  "proto_task lib (Some b) schema index source cache =
     map_prod reply id (proto_decode (dl_proto lib) (dl_between lib) b schema index source cache)"
  by (simp add: proto_task_def split: prod.split)

text \<open>The offset a payload is read from lies inside it, whatever the framing says.\<close>

definition framing :: "byte list \<Rightarrow> nat \<times> int list \<times> u32 option" where
  "framing bytes =
     (case detect_confluent_header bytes of
        Some h \<Rightarrow> (body_offset h, message_index h, Some (schema_id h))
      | None \<Rightarrow> (0, [0], None))"

lemma framing_inside: "framing bytes = (offset, index, sid) \<Longrightarrow> offset \<le> length bytes"
  by (auto simp: framing_def dest: confluent_header_bounds split: option.splits)

lemma registry_schema_frame:
  "db_schemas (snd (registry_schema lib i c endpoint sid st)) = db_schemas st"
  "db_connections (snd (registry_schema lib i c endpoint sid st)) = db_connections st"
  "db_up (snd (registry_schema lib i c endpoint sid st)) = db_up st"
  by (simp_all add: registry_schema_def split: prod.split)

text \<open>Opening messages in the viewer, one after another.\<close>

datatype viewing = ViewAvro string string string | ViewProtobuf string string string

fun view ::
    "('s, 'p, 'd, 'm, 'cert, 'identity, 'h) decode_lib \<Rightarrow> viewing \<Rightarrow> ('c, 'a, 'h) app_state \<times> (string \<times> 'p) list
      \<Rightarrow> ('c, 'a, 'h) app_state \<times> (string \<times> 'p) list" where
  "view lib (ViewAvro i topic payload) (st, cache) = (snd (connection_decode_avro lib i topic payload st), cache)"
| "view lib (ViewProtobuf i topic payload) s = snd (connection_decode_protobuf lib i topic payload s)"

text \<open>All that opening a message does to the state is to look a schema up in the registry.\<close>

lemma decode_inputs_Inr:
  "decode_inputs lib i topic format payload st = Inr (bytes, manual_schema, connection) \<Longrightarrow>
     conn_get (db_up st) (db_connections st) i = Inr connection"
  by (auto simp: decode_inputs_def split: sum.splits)

lemma decode_inputs_same_db:
  assumes "db_up st' = db_up st" "db_schemas st' = db_schemas st" "db_connections st' = db_connections st"
  shows "decode_inputs lib i topic format payload st' = decode_inputs lib i topic format payload st"
  unfolding decode_inputs_def assms ..

lemma decode_avro_state:
  "snd (connection_decode_avro lib i topic payload st) = st
   \<or> (\<exists>connection endpoint sid. conn_get (db_up st) (db_connections st) i = Inr connection
        \<and> schema_registry_endpoint connection = Some endpoint
        \<and> snd (connection_decode_avro lib i topic payload st) = snd (registry_schema lib i connection endpoint sid st))"
  by (auto simp: connection_decode_avro_def split: sum.split option.split decode_outcome.split prod.split
      dest!: decode_inputs_Inr) (metis snd_conv)+

lemma decode_protobuf_state:
  "fst (snd (connection_decode_protobuf lib i topic payload (st, cache))) = st
   \<or> (\<exists>connection endpoint sid. conn_get (db_up st) (db_connections st) i = Inr connection
        \<and> schema_registry_endpoint connection = Some endpoint
        \<and> fst (snd (connection_decode_protobuf lib i topic payload (st, cache))) = snd (registry_schema lib i connection endpoint sid st))"
  by (auto simp: connection_decode_protobuf_def split: sum.split option.split protobuf_decode_strategy.split prod.split
      dest!: decode_inputs_Inr) (metis snd_conv)+

lemma view_cases:
  obtains (same) "fst (view lib v (st, cache)) = st"
  | (asked) j connection endpoint sid where "conn_get (db_up st) (db_connections st) j = Inr connection"
      and "schema_registry_endpoint connection = Some endpoint"
      and "fst (view lib v (st, cache)) = snd (registry_schema lib j connection endpoint sid st)"
  using decode_avro_state [of lib _ _ _ st] decode_protobuf_state [of lib _ _ _ st cache]
  by (cases v) (fastforce+)

lemma view_frame:
  "db_schemas (fst (view lib v s)) = db_schemas (fst s)"
  "db_connections (fst (view lib v s)) = db_connections (fst s)"
  "db_up (fst (view lib v s)) = db_up (fst s)"
  by (cases s, rule view_cases [of lib v "fst s" "snd s"]; simp add: registry_schema_frame)+

lemma views_frame:
  "db_schemas (fst (fold (view lib) vs s)) = db_schemas (fst s)"
  "db_connections (fst (fold (view lib) vs s)) = db_connections (fst s)"
  "db_up (fst (fold (view lib) vs s)) = db_up (fst s)"
  by (induction vs arbitrary: s) (simp_all add: view_frame)

text \<open>A schema the connection's registry client holds is served from it.\<close>

definition schema_held ::
    "('s, 'p, 'd, 'm, 'cert, 'identity, 'h) decode_lib \<Rightarrow> string \<Rightarrow> conn \<Rightarrow> string \<Rightarrow> u32 \<Rightarrow> string \<Rightarrow> ('c, 'a, 'h) app_state \<Rightarrow> bool" where
  "schema_held lib i connection endpoint sid schema st \<longleftrightarrow>
     (\<exists>client. schema_registry st i = Some (fingerprint_of (dl_hash lib) endpoint (registry_auth connection), client)
        \<and> schema_cache client sid = Some schema)"

lemma held_served:
  "schema_held lib i connection endpoint sid schema st \<Longrightarrow>
     registry_schema (lib\<lparr>dl_send := send\<rparr>) i connection endpoint sid st = (Inr schema, st)"
  by (auto simp: schema_held_def registry_schema_def fetch_pooled_def get_or_create_def pool_get_def fetch_schema_cached
      fun_upd_idem)

lemma got_held:
  assumes "registry_schema lib i connection endpoint sid st = (Inr schema, st')"
  shows "schema_held lib i connection endpoint sid schema st'"
proof -
  obtain client clients where c: "get_or_create (dl_hash lib) (dl_http lib) i endpoint (registry_auth connection) (schema_registry st) = (Inr client, clients)"
    using assms by (auto simp: registry_schema_def fetch_pooled_def split: prod.splits sum.splits)
  show ?thesis
    by (rule fetch_schema_cases [of client sid "dl_send lib"])
      (use assms c in \<open>auto simp: registry_schema_def fetch_pooled_def schema_held_def\<close>)
qed

lemma held_kept:
  assumes held: "schema_held lib i connection endpoint sid schema st"
    and same: "j = i \<Longrightarrow> c = connection \<and> e = endpoint"
  shows "schema_held lib i connection endpoint sid schema (snd (registry_schema lib j c e sid' st))"
proof (cases "j = i")
  case True
  obtain client where c: "schema_registry st i = Some (fingerprint_of (dl_hash lib) endpoint (registry_auth connection), client)"
    "schema_cache client sid = Some schema" using held by (auto simp: schema_held_def)
  have "get_or_create (dl_hash lib) (dl_http lib) i endpoint (registry_auth connection) (schema_registry st) = (Inr client, schema_registry st)"
    using c by (simp add: get_or_create_def pool_get_def)
  then show ?thesis
    using True same c(2) fetch_schema_keeps [of client sid schema "dl_send lib" sid']
    by (auto simp: registry_schema_def fetch_pooled_def schema_held_def split: prod.split)
next
  case False
  then show ?thesis
    using held
    by (simp add: registry_schema_def fetch_pooled_def get_or_create_def pool_get_def Let_def schema_held_def
        split: prod.split sum.split option.split)
qed

lemma view_keeps_held:
  assumes "schema_held lib i connection endpoint sid schema (fst s)"
    and "conn_get (db_up (fst s)) (db_connections (fst s)) i = Inr connection" "schema_registry_endpoint connection = Some endpoint"
  shows "schema_held lib i connection endpoint sid schema (fst (view lib v s))"
proof (cases s)
  case (Pair st cache)
  show ?thesis
    unfolding Pair
  proof (rule view_cases [of lib v st cache])
    show "schema_held lib i connection endpoint sid schema (fst (view lib v (st, cache)))"
      if "fst (view lib v (st, cache)) = st" using that assms(1) Pair by simp
    show "schema_held lib i connection endpoint sid schema (fst (view lib v (st, cache)))"
      if "conn_get (db_up st) (db_connections st) j = Inr c" "schema_registry_endpoint c = Some e"
        "fst (view lib v (st, cache)) = snd (registry_schema lib j c e sid' st)" for j c e sid'
      using that assms Pair by (auto intro: held_kept)
  qed
qed

lemma views_keep_held:
  assumes "schema_held lib i connection endpoint sid schema (fst s)"
    and "conn_get (db_up (fst s)) (db_connections (fst s)) i = Inr connection" "schema_registry_endpoint connection = Some endpoint"
  shows "schema_held lib i connection endpoint sid schema (fst (fold (view lib) vs s))"
  using assms by (induction vs arbitrary: s) (simp_all add: view_keeps_held view_frame)

lemma avro_command:
  "connection_decode_avro lib i topic payload st =
     (case decode_inputs lib i topic ''avro'' payload st of
        Inl e \<Rightarrow> (Some (Inl (format_report e)), st)
      | Inr (bytes, manual_schema, connection) \<Rightarrow>
          if starts_with bytes CONTAINER_FILE_MAGIC then (Some (reply (decode_container (dl_avro lib) bytes)), st)
          else case manual_schema of
            Some schema \<Rightarrow> (Some (reply (avro_decode (dl_avro lib) bytes schema)), st)
          | None \<Rightarrow>
              (case (detect_wire_format bytes, schema_registry_endpoint connection) of
                 (Some sid, Some endpoint) \<Rightarrow>
                   (case registry_schema lib i connection endpoint sid st of
                      (schema, st') \<Rightarrow> (Some (reply (and_then schema (avro_decode (dl_avro lib) (drop 5 bytes)))), st'))
               | (Some sid, None) \<Rightarrow> (Some (Inl (format_report (fail_with Decode (avro_refusal_message NoRegistryConfigured)))), st)
               | (None, _) \<Rightarrow> (Some (Inl (format_report (fail_with Decode (avro_refusal_message NoSchemaAvailable)))), st)))"
proof (cases "decode_inputs lib i topic ''avro'' payload st")
  case (Inr inputs)
  obtain bytes manual_schema connection where inputs: "inputs = (bytes, manual_schema, connection)" by (cases inputs)
  have five: "bytes_from 5 bytes = Some (drop 5 bytes)" if "detect_wire_format bytes = Some sid" for sid
    using that by (simp add: detect_wire_format_def split: if_splits)
  show ?thesis
    using five
    by (auto simp: connection_decode_avro_def Inr inputs avro_outcome_def avro_decide_decode_strategy_def
        detect_container_file_def and_then_Inl_iff split: option.splits sum.splits prod.splits)
qed (simp add: connection_decode_avro_def)

section \<open>Properties\<close>

text \<open>C16: What the viewer shows of an Avro message: a container file is read with its own schema, otherwise a
  schema pasted for the topic decides and reads the payload whole, otherwise the registry's schema for
  the header's id reads what follows the five bytes of the header; every other payload is refused for
  the reason that applies. Only the third case touches the state, and no case panics.\<close>
theorem avro_command_precedence:
  "connection_decode_avro lib i topic payload st =
     (case decode_inputs lib i topic ''avro'' payload st of
        Inl e \<Rightarrow> (Some (Inl (format_report e)), st)
      | Inr (bytes, manual_schema, connection) \<Rightarrow>
          if starts_with bytes CONTAINER_FILE_MAGIC then (Some (reply (decode_container (dl_avro lib) bytes)), st)
          else case manual_schema of
            Some schema \<Rightarrow> (Some (reply (avro_decode (dl_avro lib) bytes schema)), st)
          | None \<Rightarrow>
              (case (detect_wire_format bytes, schema_registry_endpoint connection) of
                 (Some sid, Some endpoint) \<Rightarrow>
                   (case registry_schema lib i connection endpoint sid st of
                      (schema, st') \<Rightarrow> (Some (reply (and_then schema (avro_decode (dl_avro lib) (drop 5 bytes)))), st'))
               | (Some sid, None) \<Rightarrow> (Some (Inl (format_report (fail_with Decode (avro_refusal_message NoRegistryConfigured)))), st)
               | (None, _) \<Rightarrow> (Some (Inl (format_report (fail_with Decode (avro_refusal_message NoSchemaAvailable)))), st)))"
  by (rule avro_command)

text \<open>C17: What the viewer shows of a Protobuf message: the framing is stripped whoever supplies the schema, a
  pasted schema decides, otherwise the registry's for a framed payload, and without either the fields
  are shown raw instead of refusing. Only the second case touches the state, and no case panics,
  because the framing never ends outside the payload.\<close>
theorem protobuf_command_precedence:
  "connection_decode_protobuf lib i topic payload (st, cache) =
     (case decode_inputs lib i topic ''protobuf'' payload st of
        Inl e \<Rightarrow> (Some (Inl (format_report e)), st, cache)
      | Inr (bytes, manual_schema, connection) \<Rightarrow>
          (case framing bytes of (offset, index, sid) \<Rightarrow>
           let decode = (\<lambda>schema source. proto_decode (dl_proto lib) (dl_between lib) (drop offset bytes) schema index source cache) in
           (case (manual_schema, sid, schema_registry_endpoint connection) of
              (Some schema, _, _) \<Rightarrow>
                (case decode schema ManualSource of (result, cache') \<Rightarrow> (Some (reply result), st, cache'))
            | (None, Some sid, Some endpoint) \<Rightarrow>
                (case registry_schema lib i connection endpoint sid st of
                   (Inl e, st') \<Rightarrow> (Some (Inl (format_report e)), st', cache)
                 | (Inr schema, st') \<Rightarrow>
                     (case decode schema RegistrySource of (result, cache') \<Rightarrow> (Some (reply result), st', cache')))
            | _ \<Rightarrow> (Some (reply (decode_without_schema (dl_show_f64 lib) (dl_show_f32 lib) (drop offset bytes))), st, cache))))"
proof (cases "decode_inputs lib i topic ''protobuf'' payload st")
  case (Inr inputs)
  obtain bytes manual_schema connection where inputs: "inputs = (bytes, manual_schema, connection)" by (cases inputs)
  obtain offset index sid where f: "framing bytes = (offset, index, sid)" by (cases "framing bytes")
  have strategy: "proto_decide_decode_strategy bytes manual registry =
      (if manual then ProtoManualSchema offset index
       else case sid of Some j \<Rightarrow> if registry then ProtoSchemaRegistry j offset index else ProtoRawFields offset
                      | None \<Rightarrow> ProtoRawFields offset)" for manual registry
    using f by (auto simp: proto_decide_decode_strategy_def framing_def split: option.splits)
  show ?thesis
    using framing_inside [OF f]
    by (auto simp: connection_decode_protobuf_def Inr inputs f strategy Let_def split: option.split prod.split sum.split)
qed (simp add: connection_decode_protobuf_def)


definition viewer_avro :: avro_lib where
  "viewer_avro =
     \<lparr>base64 = (\<lambda>b. []), json_f32 = (\<lambda>f. JNull), json_f64 = (\<lambda>f. JNull),
      cal = \<lparr>from_timestamp = (\<lambda>s n. None), from_midnight = (\<lambda>s n. None)\<rparr>, parse_schema = (\<lambda>s. Some SOther),
      resolve_names = (\<lambda>s. None), reader_builds = (\<lambda>s. True), read_datum = (\<lambda>s b. Some (AInt (int (length b)))),
      read_container = (\<lambda>b. None)\<rparr>"

text \<open>A registry that answers any id, and a viewer whose payloads are a header for schema 7 and one byte.\<close>

definition viewer_lib :: "(string, string, string, string, unit, unit, unit) decode_lib" where
  "viewer_lib =
     \<lparr>dl_base64 = (\<lambda>s. Inr [0, 0, 0, 0, 7, 1]), dl_avro = viewer_avro, dl_proto = example_lib, dl_between = id,
      dl_show_f64 = (\<lambda>f. []), dl_show_f32 = (\<lambda>f. []),
      dl_http = \<lparr>read_file = (\<lambda>f. None), certificate_from_pem = (\<lambda>b. None), identity_from_pkcs12 = (\<lambda>b p. None),
        build_http = (\<lambda>c i. Some ())\<rparr>,
      dl_hash = (\<lambda>parts. 0), dl_send = (\<lambda>h url auth. Answer 200 (Some ''int''))\<rparr>"

definition viewer_app :: "(unit, unit, unit) app_state" where
  "viewer_app = small_app\<lparr>db_connections := [row_of ''a'' ''t0'' ''t1'' (example_conn\<lparr>schema_registry_endpoint := Some ''r''\<rparr>)]\<rparr>"

lemma viewer_connection:
  obtains c where "conn_get True (db_connections viewer_app) ''a'' = Inr c" and "schema_registry_endpoint c = Some ''r''"
    and "registry_auth c = \<lparr>basic_auth_credentials = None, trust_store_location = None, registry_keystore_location = None, registry_keystore_password = None\<rparr>"
proof -
  let ?n = "example_conn\<lparr>schema_registry_endpoint := Some ''r''\<rparr>"
  obtain c where c: "into_connection (row_of ''a'' ''t0'' ''t1'' ?n) = Inr c" and n: "new_connection.truncate c = ?n"
    using into_row_of by blast
  have "schema_registry_endpoint (new_connection.truncate c) = schema_registry_endpoint c"
    "registry_auth c = \<lparr>basic_auth_credentials = schema_registry_basic_auth_credentials (new_connection.truncate c),
       trust_store_location = schema_registry_trust_store_location (new_connection.truncate c),
       registry_keystore_location = schema_registry_keystore_location (new_connection.truncate c),
       registry_keystore_password = schema_registry_keystore_password (new_connection.truncate c)\<rparr>"
    by (simp_all add: new_connection.defs registry_auth_def)
  then show ?thesis
    using c n that by (simp add: conn_get_def viewer_app_def small_app_def example_conn_def new_of_portable_def)
qed


text \<open>What can happen to the saved schemas: the Schema tab, deleting a connection, and opening messages.\<close>

inductive edited ::
    "('s, 'p, 'd, 'm, 'cert, 'identity, 'h) decode_lib \<Rightarrow> ('c, 'a, 'h) app_state \<times> (string \<times> 'p) list \<Rightarrow> bool"
  for lib :: "('s, 'p, 'd, 'm, 'cert, 'identity, 'h) decode_lib" where
  first_start: "db_schemas st = [] \<Longrightarrow> edited lib (st, [])"
| restart: "edited lib (st, cache) \<Longrightarrow> db_schemas st' = db_schemas st \<Longrightarrow> edited lib (st', [])"
| save: "edited lib s \<Longrightarrow> edited lib (snd (topic_schema_set lib i topic format schema_text s))"
| clear: "edited lib (st, cache) \<Longrightarrow> edited lib (snd (topic_schema_delete i topic format st), cache)"
| remove: "edited lib (st, cache) \<Longrightarrow> edited lib (snd (connection_delete i st), cache)"
| open_message: "edited lib s \<Longrightarrow> edited lib (view lib v s)"

definition schema_valid :: "('s, 'p, 'd, 'm, 'cert, 'identity, 'h) decode_lib \<Rightarrow> schema_key \<times> string \<Rightarrow> bool" where
  "schema_valid lib row =
     (case row of ((i, topic, format), schema_text) \<Rightarrow>
        format = ''avro'' \<and> parse_schema (dl_avro lib) schema_text \<noteq> None
        \<or> format = ''protobuf'' \<and> (\<exists>pool. compile_uncached (dl_proto lib) schema_text = Inr pool
             \<and> schema_messages (dl_proto lib) pool \<noteq> Some []))"

definition edited_inv :: "('s, 'p, 'd, 'm, 'cert, 'identity, 'h) decode_lib \<Rightarrow> ('c, 'a, 'h) app_state \<times> (string \<times> 'p) list \<Rightarrow> bool" where
  "edited_inv lib s \<longleftrightarrow> (\<forall>row\<in>set (db_schemas (fst s)). schema_valid lib row) \<and> cache_reachable (dl_proto lib) (snd s)"

definition threads_compile :: "('s, 'p, 'd, 'm, 'cert, 'identity, 'h) decode_lib \<Rightarrow> bool" where
  "threads_compile lib \<longleftrightarrow> (\<forall>cache. cache_reachable (dl_proto lib) cache \<longrightarrow> cache_reachable (dl_proto lib) (dl_between lib cache))"

lemma compiled:
  assumes "threads_compile lib" "cache_reachable (dl_proto lib) cache"
    "compile (dl_proto lib) (dl_between lib) schema_text cache = (result, cache')"
  shows "result = compile_uncached (dl_proto lib) schema_text \<and> cache_reachable (dl_proto lib) cache'"
  using compile_sound [of "dl_proto lib" cache "dl_between lib" schema_text] assms by (simp add: threads_compile_def)

lemma validate_for_ok:
  assumes "threads_compile lib" "cache_reachable (dl_proto lib) cache"
    "validate_for lib format schema_text cache = (result, cache')"
  shows "cache_reachable (dl_proto lib) cache'
    \<and> (result = Inr () \<and> format \<in> {''avro'', ''protobuf''} \<longrightarrow> schema_valid lib ((i, topic, format), schema_text))"
  using assms(3) compiled [OF assms(1,2)] assms(2)
  by (auto simp: validate_for_def proto_validate_schema_def avro_validate_schema_def schema_valid_def
      split: if_splits option.splits prod.splits sum.splits)

lemma set_upsert: "row \<in> set (upsert k v rows) \<Longrightarrow> row = (k, v) \<or> row \<in> set rows"
  by (induction k v rows rule: upsert.induct) (auto split: if_splits)

lemma proto_task_reachable:
  "threads_compile lib \<Longrightarrow> cache_reachable (dl_proto lib) cache
    \<Longrightarrow> cache_reachable (dl_proto lib) (snd (proto_task lib body schema index source cache))"
  by (auto simp: proto_task_def proto_decode_def Let_def split: option.split prod.split dest: compiled)

lemma view_reachable:
  assumes "threads_compile lib" "cache_reachable (dl_proto lib) (snd s)"
  shows "cache_reachable (dl_proto lib) (snd (view lib v s))"
proof (cases v)
  case (ViewProtobuf i topic payload)
  obtain st cache where s: "s = (st, cache)" by (cases s)
  have task: "cache_reachable (dl_proto lib) cache'" if "proto_task lib body schema index source cache = (result, cache')"
    for body schema index source result cache'
    using proto_task_reachable [OF assms(1), of cache body schema index source] assms(2) that s by simp
  show ?thesis
    using assms(2) task unfolding ViewProtobuf s
    by (auto simp: connection_decode_protobuf_def split: sum.split option.split protobuf_decode_strategy.split prod.split)
qed (use assms in \<open>cases s; simp\<close>)

lemma edited_keeps:
  assumes "edited lib s" and "threads_compile lib"
  shows "edited_inv lib s"
  using assms
proof (induction rule: edited.induct)
  case (save s i topic format schema_text)
  obtain st cache where s: "s = (st, cache)" by (cases s)
  obtain result cache' where v: "validate_for lib format schema_text cache = (result, cache')"
    by (cases "validate_for lib format schema_text cache")
  have "cache_reachable (dl_proto lib) cache"
    using save s by (simp add: edited_inv_def)
  from validate_for_ok [OF save.prems this v] save s v show ?case
    by (auto simp: edited_inv_def topic_schema_set_def schema_set_def split: sum.split dest!: set_upsert)
next
  case (open_message s v)
  then show ?case by (simp add: edited_inv_def view_frame view_reachable)
qed (auto simp: edited_inv_def cache_empty topic_schema_delete_def schema_delete_def connection_delete_def connection_delete_at_def conn_delete_def
    schema_delete_all_def Let_def split: prod.splits sum.splits if_splits)

text \<open>C15: Every schema kept for a topic is one the decoder accepts: whatever was typed, saved, cleared or deleted,
  a message opened with its topic's schema is never refused because the schema does not parse or
  compile - only because its bytes do not fit. Other threads may fill the cache meanwhile.\<close>
theorem saved_schemas_compile:
  assumes "edited lib (st, cache)" and "threads_compile lib"
    and "schema_get (db_up st) i topic format (db_schemas st) = Inr (Some schema)"
  shows "(format = ''avro'' \<and> parse_schema (dl_avro lib) schema \<noteq> None)
    \<or> (format = ''protobuf'' \<and> (\<exists>pool. fst (compile (dl_proto lib) (dl_between lib) schema cache) = Inr pool
        \<and> schema_messages (dl_proto lib) pool \<noteq> Some []))"
proof -
  have inv: "edited_inv lib (st, cache)" using edited_keeps [OF assms(1,2)] .
  have "((i, topic, format), schema) \<in> set (db_schemas st)"
    using assms(3) by (auto simp: schema_get_def split: if_splits dest: map_of_SomeD)
  then have "schema_valid lib ((i, topic, format), schema)" using inv by (auto simp: edited_inv_def)
  moreover have "fst (compile (dl_proto lib) (dl_between lib) schema cache) = compile_uncached (dl_proto lib) schema"
    using compiled [OF assms(2), of cache schema] inv
    by (cases "compile (dl_proto lib) (dl_between lib) schema cache") (simp add: edited_inv_def)
  ultimately show ?thesis by (auto simp: schema_valid_def)
qed

theorem saved_schemas_compile_witness:
  "\<exists>pool. fst (compile example_lib id ''M'' (snd (snd (topic_schema_set viewer_lib ''a'' ''t'' ''protobuf'' ''M'' (viewer_app, []))))) = Inr pool"
proof -
  let ?s = "snd (topic_schema_set viewer_lib ''a'' ''t'' ''protobuf'' ''M'' (viewer_app, []))"
  have "edited viewer_lib (viewer_app, [])" by (rule first_start) (simp add: viewer_app_def small_app_def)
  then have e: "edited viewer_lib (fst ?s, snd ?s)" using save by (metis prod.collapse)
  have t: "threads_compile viewer_lib" by (simp add: threads_compile_def viewer_lib_def)
  have "schema_get (db_up (fst ?s)) ''a'' ''t'' ''protobuf'' (db_schemas (fst ?s)) = Inr (Some ''M'')"
    by (simp add: topic_schema_set_def validate_for_def proto_validate_schema_def compile_def cache_lookup_def compile_uncached_def
        viewer_lib_def example_lib_def schema_set_def schema_get_def viewer_app_def small_app_def)
  from saved_schemas_compile [OF e t this]
  moreover have "dl_proto viewer_lib = example_lib" "dl_between viewer_lib = id" by (simp_all add: viewer_lib_def)
  ultimately show ?thesis by auto
qed

end
