(* ===== verification/System_Commands.thy ===== *)
theory System_Commands
  imports Commands
begin

text \<open>
  The remaining commands of the user interface: the tabs of the window (\<^verbatim>\<open>src-tauri/src/commands/tabs.rs\<close>),
  the import of connections (\<^verbatim>\<open>connections.rs\<close>), saving a payload (\<^verbatim>\<open>system.rs\<close>) and the Zookeeper ping (\<^verbatim>\<open>backend/kafka/src/zookeeper.rs\<close>). The file
  system is the argument \<open>write\<close>, which says whether a file could be written.
\<close>

section \<open>Tabs\<close>

definition tab_list :: "('c, 'a, 'h) app_state \<Rightarrow> string + tab list" where
  "tab_list st = reply (tabs_list (db_up st) (db_tabs st))"

text \<open>What the four commands that change the table have in common: the statement, then its new rows.\<close>

definition on_tabs ::
    "(bool \<Rightarrow> tab list \<Rightarrow> (report + 'r) \<times> tab list) \<Rightarrow> ('c, 'a, 'h) app_state \<Rightarrow> (string + 'r) \<times> ('c, 'a, 'h) app_state" where
  "on_tabs statement st =
     (case statement (db_up st) (db_tabs st) of (result, rows) \<Rightarrow> (reply result, st\<lparr>db_tabs := rows\<rparr>))"

definition tab_create :: "string \<Rightarrow> string \<Rightarrow> ('c, 'a, 'h) app_state \<Rightarrow> (string + tab) \<times> ('c, 'a, 'h) app_state" where
  "tab_create fresh name = on_tabs (\<lambda>up. tabs_create up fresh name)"

definition tab_rename :: "string \<Rightarrow> string \<Rightarrow> ('c, 'a, 'h) app_state \<Rightarrow> (string + unit) \<times> ('c, 'a, 'h) app_state" where
  "tab_rename i name = on_tabs (\<lambda>up. tabs_rename up i name)"

definition tab_delete :: "string \<Rightarrow> ('c, 'a, 'h) app_state \<Rightarrow> (string + unit) \<times> ('c, 'a, 'h) app_state" where
  "tab_delete i = on_tabs (\<lambda>up. tabs_delete up i)"

definition tab_reorder :: "string list \<Rightarrow> ('c, 'a, 'h) app_state \<Rightarrow> (string + unit) \<times> ('c, 'a, 'h) app_state" where
  "tab_reorder ids = on_tabs (\<lambda>up. tabs_reorder up ids)"

section \<open>Importing connections\<close>

text \<open>The import of \<^verbatim>\<open>Connections\<close> as a command: its rows are the saved connections.\<close>

definition import_command ::
    "(string \<Rightarrow> export_file option) \<Rightarrow> string option \<Rightarrow> (nat \<Rightarrow> string \<times> string) \<Rightarrow> ('c, 'a, 'h) app_state
      \<Rightarrow> (string + nat \<times> nat) \<times> ('c, 'a, 'h) app_state" where
  "import_command from_json file_text fresh st =
     (case connections_import (db_up st) from_json file_text fresh (db_connections st) of
        (result, rows) \<Rightarrow> (reply result, st\<lparr>db_connections := rows\<rparr>))"

section \<open>Saving a payload\<close>

definition payload_save ::
    "(string \<Rightarrow> string + byte list) \<Rightarrow> (string \<Rightarrow> byte list \<Rightarrow> bool) \<Rightarrow> string \<Rightarrow> string \<Rightarrow> string + unit" where
  "payload_save base64_decode write path contents =
     reply (case base64_decode contents of
        Inl e \<Rightarrow> Inl (fail_with Validation ''contents aren't valid base64'')
      | Inr bytes \<Rightarrow>
          if write path bytes then Inr () else Inl (fail_with Validation ''failed to write the file''))"

section \<open>Zookeeper\<close>

text \<open>\<open>dial\<close> says of an address whether connecting succeeds and after how many milliseconds.\<close>

definition zookeeper_ping :: "(string \<Rightarrow> bool \<times> nat) \<Rightarrow> string \<Rightarrow> 16 word \<Rightarrow> u64 \<Rightarrow> connection_status" where
  "zookeeper_ping dial host port timeout_ms =
     (case dial (host @ '':'' @ show_nat (unat port)) of
        (connects, t) \<Rightarrow> if connects \<and> t \<le> unat timeout_ms then Reachable else Unreachable)"

definition connection_ping_zookeeper ::
    "('c, 'a, 'g) cluster_lib \<Rightarrow> string \<Rightarrow> 16 word \<Rightarrow> u64 \<Rightarrow> connection_status" where
  "connection_ping_zookeeper lib = zookeeper_ping (lib_dial lib)"

end
