(* ===== verification/Startup.thy ===== *)
theory Startup
  imports Commands Migration Fetch_Loop
begin

text \<open>
  Starting the program: \<^verbatim>\<open>src-tauri/src/main.rs\<close>, opening the database (\<^verbatim>\<open>backend/db/src/lib.rs\<close>) and the
  report on the compression codecs that were compiled in (\<^verbatim>\<open>backend/kafka/src/build_info.rs\<close>). The
  database engine is the record \<open>sqlite_lib\<close>, the client library's configuration interface \<open>conf_api\<close>.
\<close>

section \<open>What the client library was built with\<close>

text \<open>Asking for the size and then for the value; each answer may be a refusal.\<close>

record conf_api =
  conf_size :: "string \<Rightarrow> nat option"
  conf_value :: "string \<Rightarrow> nat \<Rightarrow> byte list option"
  to_string_lossy :: "byte list \<Rightarrow> string"

definition builtin_features :: "conf_api \<Rightarrow> string" where
  "builtin_features api =
     (case conf_size api ''builtin.features'' of
        None \<Rightarrow> []
      | Some s \<Rightarrow>
          (case conf_value api ''builtin.features'' s of
             None \<Rightarrow> []
           | Some buf \<Rightarrow> if 0 \<in> set buf then to_string_lossy api (takeWhile (\<lambda>b. b \<noteq> 0) buf) else []))"

definition missing_required_features :: "conf_api \<Rightarrow> string list" where
  "missing_required_features api = missing_from (builtin_features api)"

text \<open>The report of \<^verbatim>\<open>--librdkafka-features\<close> and the exit code.\<close>

definition report_librdkafka_features :: "conf_api \<Rightarrow> string \<times> nat" where
  "report_librdkafka_features api =
     (let features = builtin_features api;
          missing = missing_required_features api;
          report =
            (if missing = [] then ''ok'' @ newline @ ''builtin.features = '' @ features @ newline
             else ''MISSING '' @ str_join '', '' missing @ newline @ ''builtin.features = '' @ features @ newline
               @ ''Topics compressed with a missing codec fail every poll with \"Local: Not Implemented\".'' @ newline)
      in (report, if missing = [] then 0 else 1))"

section \<open>Opening the database\<close>

record tables =
  connection_rows :: "connection_row list"
  tab_rows :: "tab list"
  schema_rows :: schema_table

text \<open>
  Connecting creates the file if there is none (\<^verbatim>\<open>mode=rwc\<close>) and may change the write-ahead log beside it;
  the migrations bring the tables up to date.
\<close>

record sqlite_lib =
  sqlite_parse :: "string \<Rightarrow> fpath option"
  sqlite_connect :: "fpath \<Rightarrow> fs \<Rightarrow> fs option"
  sqlite_migrate :: "fpath \<Rightarrow> fs \<Rightarrow> (fs \<times> tables) option"

definition init_pool :: "sqlite_lib \<Rightarrow> string \<Rightarrow> fs \<Rightarrow> (report + tables) \<times> fs" where
  "init_pool lib database_url s =
     (case sqlite_parse lib database_url of
        None \<Rightarrow> (Inl (fail_with Db (''failed to parse sqlite url '' @ database_url)), s)
      | Some path \<Rightarrow>
          (case sqlite_connect lib path s of
             None \<Rightarrow> (Inl (fail_with Db (''failed to connect to sqlite at '' @ database_url)), s)
           | Some s \<Rightarrow>
               (case sqlite_migrate lib path s of
                  None \<Rightarrow> (Inl (fail_with Db ''failed to run migrations''), s)
                | Some (s, t) \<Rightarrow> (Inr t, s))))"

section \<open>Starting\<close>

definition fresh_state :: "tables \<Rightarrow> ('c, 'a, 'h) app_state" where
  "fresh_state t =
     \<lparr>db_up = True, db_connections = connection_rows t, db_tabs = tab_rows t, db_schemas = schema_rows t,
      kafka = new_client, connections = empty_registry, fetch_cancellations = no_cancellations, schema_registry = Map.empty\<rparr>"

text \<open>
  The adoption of an older version's data, which may fail: \<open>fault = Some (k, junk)\<close> is an error of the
  file system at action \<open>k\<close>, which leaves the file being copied with the contents \<open>junk\<close>.
\<close>

definition try_adoption :: "(nat \<times> byte list option) option \<Rightarrow> fs \<Rightarrow> dir \<Rightarrow> (unit + (dir \<times> string list) option) \<times> fs" where
  "try_adoption fault s data_dir =
     (case (fault, adoption s data_dir) of
        (Some (k, junk), Some (actions, legacy_dir, files)) \<Rightarrow>
          if k < length actions then (Inl (), crashed k junk s data_dir)
          else (Inr (Some (legacy_dir, files)), snd (adopt_legacy_app_data s data_dir))
      | _ \<Rightarrow> (case adopt_legacy_app_data s data_dir of (adopted, s) \<Rightarrow> (Inr adopted, s)))"

definition database_url :: "(fpath \<Rightarrow> string) \<Rightarrow> dir \<Rightarrow> string" where
  "database_url display data_dir = ''sqlite://'' @ display (data_dir, DB_FILE) @ ''?mode=rwc''"

text \<open>The setup, as far as it decides anything; \<open>None\<close> when it panics because the database does not open.\<close>

definition setup_app ::
    "sqlite_lib \<Rightarrow> (fpath \<Rightarrow> string) \<Rightarrow> string \<Rightarrow> dir \<Rightarrow> (nat \<times> byte list option) option \<Rightarrow> environment \<times> fs
      \<Rightarrow> (('c, 'a, 'h) app_state \<times> (unit + (dir \<times> string list) option)) option \<times> environment \<times> fs" where
  "setup_app lib display version data_dir fault world =
     (case world of (env, s) \<Rightarrow>
        let env = set_app_version version env;
            s = execute (CreateDirAll data_dir) s
        in case try_adoption fault s data_dir of
             (adopted, s) \<Rightarrow>
               (case init_pool lib (database_url display data_dir) s of
                  (Inl e, s) \<Rightarrow> (None, env, s)
                | (Inr t, s) \<Rightarrow> (Some (fresh_state t, adopted), env, s)))"

text \<open>The lines the setup logs, by level; \<open>show_dir\<close> prints a directory, the times are arguments.\<close>

definition startup_log ::
    "conf_api \<Rightarrow> (dir \<Rightarrow> string) \<Rightarrow> string \<Rightarrow> nat \<Rightarrow> nat \<Rightarrow> environment \<Rightarrow> unit + (dir \<times> string list) option \<Rightarrow> (string \<times> string) list" where
  "startup_log api show_dir io_error started_ms ca_ms env adopted =
     (let features = builtin_features api; missing = missing_required_features api in
      [(''info'', ''Application started in '' @ show_nat started_ms @ '' ms'')]
      @ (case adopted of
           Inr (Some (legacy_dir, files)) \<Rightarrow>
             [(''info'', ''Adopted data from the previous version ('' @ show_dir legacy_dir @ ''): '' @ str_join '', '' files)]
         | Inr None \<Rightarrow> []
         | Inl _ \<Rightarrow>
             [(''warn'', ''Could not copy data from the previous version: '' @ io_error
               @ ''. Saved connections from before the rename to Salty will not appear.'')])
      @ [(''info'', ''Broker connections identify as client.id='' @ client_id env),
         (''info'', ''Loaded the OS trust store in '' @ show_nat ca_ms @ '' ms''),
         (if missing = [] then (''info'', ''librdkafka features: '' @ features)
          else (''error'', ''This build of librdkafka is missing '' @ str_join '', '' missing
                 @ ''. Topics compressed with those codecs will fail to fetch with \"Local: Not Implemented\". Compiled with: ''
                 @ features))])"

section \<open>Properties\<close>

text \<open>What the database engine does, as its documentation says: opening a database at a path creates the file
  if it is missing, and nothing here deletes it or touches another directory.\<close>

definition engine_ok :: "sqlite_lib \<Rightarrow> bool" where
  "engine_ok lib \<longleftrightarrow>
     (\<forall>path s s'. sqlite_connect lib path s = Some s' \<longrightarrow>
        file_at s' path \<noteq> None \<and> (\<forall>f. fst f \<noteq> fst path \<longrightarrow> file_at s' f = file_at s f))
     \<and> (\<forall>path s s' t. sqlite_migrate lib path s = Some (s', t) \<longrightarrow>
        (file_at s path \<noteq> None \<longrightarrow> file_at s' path \<noteq> None) \<and> (\<forall>f. fst f \<noteq> fst path \<longrightarrow> file_at s' f = file_at s f))"

lemma init_pool_creates:
  assumes "engine_ok lib" "init_pool lib url s = (Inr t, s')" "sqlite_parse lib url = Some path"
  shows "file_at s' path \<noteq> None" and "fst f \<noteq> fst path \<Longrightarrow> file_at s' f = file_at s f"
proof -
  obtain u where u: "sqlite_connect lib path s = Some u" "sqlite_migrate lib path u = Some (s', t)"
    using assms(2,3) by (auto simp: init_pool_def split: option.splits)
  have c: "file_at u path \<noteq> None" "fst f \<noteq> fst path \<Longrightarrow> file_at u f = file_at s f" for f
    using assms(1) u(1) unfolding engine_ok_def by blast+
  have m: "file_at u path \<noteq> None \<Longrightarrow> file_at s' path \<noteq> None" "fst f \<noteq> fst path \<Longrightarrow> file_at s' f = file_at u f" for f
    using assms(1) u(2) unfolding engine_ok_def by blast+
  show "file_at s' path \<noteq> None" using c(1) m(1) by blast
  show "file_at s' f = file_at s f" if "fst f \<noteq> fst path" using c(2) m(2) that by simp
qed

lemma adoption_done: "file_at s (d, DB_FILE) \<noteq> None \<Longrightarrow> try_adoption fault s d = (Inr None, s)"
  by (simp add: try_adoption_def adopt_legacy_app_data_def adoption_def split: option.splits)

lemma create_dir_files [simp]: "file_at (execute (CreateDirAll d) s) = file_at s"
  by (simp add: execute_def)

lemma adoption_dirs [simp]: "adoption (execute (CreateDirAll d) s) d = adoption s d"
proof -
  have "sidecar_copies (execute (CreateDirAll d) s) a b xs = sidecar_copies s a b xs" for a b xs
    by (induction xs) (simp_all add: Let_def)
  then show ?thesis unfolding adoption_def Let_def by (simp split: option.split)
qed

text \<open>C26: A copy of the old data that fails with an error is final: the start goes on and opens a database, which
  creates the file whose absence would have made the next start try again. The old data stays where
  it was, complete, and every later start passes it by without a word.\<close>
theorem failed_adoption_is_final:
  assumes pending: "adoption s d = Some (actions, l, files)" and fault: "k < length actions"
    and engine: "engine_ok lib" "sqlite_parse lib (database_url display d) = Some (d, DB_FILE)"
    and started: "setup_app lib display v d (Some (k, junk)) (env, s) = (Some (st, adopted), env', s')"
  shows "adopted = Inl () \<and> file_at s' (l, LEGACY_DB_FILE) = file_at s (l, LEGACY_DB_FILE)
    \<and> try_adoption None (execute (CreateDirAll d) s') d = (Inr None, execute (CreateDirAll d) s')"
proof -
  let ?s = "execute (CreateDirAll d) s"
  have adoption: "adoption ?s d = Some (actions, l, files)" using pending by simp
  have tried: "try_adoption (Some (k, junk)) ?s d = (Inl (), crashed k junk ?s d)"
    using adoption fault by (simp add: try_adoption_def)
  obtain t where pool: "init_pool lib (database_url display d) (crashed k junk ?s d) = (Inr t, s')" and a: "adopted = Inl ()"
    using started tried by (auto simp: setup_app_def Let_def split: prod.splits sum.splits)
  have ld: "l \<noteq> d" using adoption_actions(2) [OF pending] by (rule legacy_dir_differs)
  have "file_at s' (l, LEGACY_DB_FILE) = file_at (crashed k junk ?s d) (l, LEGACY_DB_FILE)"
    using ld by (intro init_pool_creates(2) [OF engine(1) pool engine(2)]) simp
  also have "\<dots> = file_at s (l, LEGACY_DB_FILE)"
    using crashed_outside [OF adoption, of "(l, LEGACY_DB_FILE)"] ld by simp
  finally show ?thesis
    using a init_pool_creates(1) [OF engine(1) pool engine(2)] adoption_done by simp
qed

text \<open>An engine that creates an empty file and finds empty tables.\<close>

definition empty_engine :: sqlite_lib where
  "empty_engine =
     \<lparr>sqlite_parse = (\<lambda>url. Some ([''d'', ''salty''], DB_FILE)),
      sqlite_connect = (\<lambda>path s. Some (s\<lparr>file_at := (file_at s)(path \<mapsto> (case file_at s path of None \<Rightarrow> [] | Some b \<Rightarrow> b))\<rparr>)),
      sqlite_migrate = (\<lambda>path s. Some (s, \<lparr>connection_rows = [], tab_rows = [], schema_rows = []\<rparr>))\<rparr>"

lemma empty_engine_starts:
  "\<exists>st adopted env' s'. setup_app empty_engine (\<lambda>p. []) ''1'' [''d'', ''salty''] fault (env, s) = (Some (st, adopted), env', s')"
  by (simp add: setup_app_def init_pool_def empty_engine_def Let_def split: prod.split)

theorem failed_adoption_is_final_witness:
  "\<exists>(st :: (unit, unit, unit) app_state) env s'.
     setup_app empty_engine (\<lambda>p. []) ''1'' [''d'', ''salty''] (Some (1, None)) (small_env, old_install) = (Some (st, Inl ()), env, s')
     \<and> file_at s' ([''d'', LEGACY_IDENTIFIER], LEGACY_DB_FILE) = Some [1]"
proof -
  obtain actions files where a: "adoption old_install [''d'', ''salty''] = Some (actions, [''d'', LEGACY_IDENTIFIER], files)"
    using old_install_adoption by blast
  have k: "1 < length actions" using adoption_actions(4) [OF a] by simp
  have e: "engine_ok empty_engine" "sqlite_parse empty_engine (database_url (\<lambda>p. []) [''d'', ''salty'']) = Some ([''d'', ''salty''], DB_FILE)"
    by (auto simp: engine_ok_def empty_engine_def)
  obtain st :: "(unit, unit, unit) app_state" and adopted env s' where
    st: "setup_app empty_engine (\<lambda>p. []) ''1'' [''d'', ''salty''] (Some (1, None)) (small_env, old_install) = (Some (st, adopted), env, s')"
    using empty_engine_starts by blast
  from failed_adoption_is_final [OF a k e st] st show ?thesis by (auto simp: old_install_def LEGACY_DB_FILE_def)
qed



end
