(* ===== verification/Session.thy ===== *)
theory Session
  imports Fetch_Command Schema_Commands System_Commands Startup
begin

text \<open>
  A session of the program: from its start on, every command of the user interface in any order
  (\<^verbatim>\<open>src-tauri/src/main.rs\<close> lists them), each with one of the clusters and decoders that may answer it.
  It starts from one of the given states of the tables, and the database may fail and recover.
  The invariants here span the components: the circuit breaker, the connected set, the write
  refusals, the pooled clients and the table of saved connections.
\<close>

section \<open>Sessions\<close>

inductive session ::
    "tables set \<Rightarrow> ('c, 'a, 'g) cluster_lib set \<Rightarrow> ('s, 'p, 'd, 'm, 'cert, 'identity, 'h) decode_lib set
      \<Rightarrow> ('c, 'a, 'h) app_state \<times> (string \<times> 'p) list \<Rightarrow> bool"
  for stored :: "tables set" and clusters :: "('c, 'a, 'g) cluster_lib set" and decoders :: "('s, 'p, 'd, 'm, 'cert, 'identity, 'h) decode_lib set" where
  started: "t \<in> stored \<Longrightarrow> session stored clusters decoders (fresh_state t, [])"
| database: "session stored clusters decoders (st, cache) \<Longrightarrow> session stored clusters decoders (st\<lparr>db_up := up\<rparr>, cache)"
| imported: "session stored clusters decoders (st, cache)
    \<Longrightarrow> session stored clusters decoders (snd (import_command from_json file_text new_row st), cache)"
| called: "session stored clusters decoders (st, cache) \<Longrightarrow> lib \<in> clusters \<Longrightarrow> session stored clusters decoders (snd (run_call lib call st), cache)"
| fetched: "session stored clusters decoders (st, cache) \<Longrightarrow> lib \<in> clusters \<Longrightarrow>
    connection_fetch_messages lib sv topic flt max_size budget features enc rounds forward request_id i st = Some (result, shown, st')
    \<Longrightarrow> session stored clusters decoders (st', cache)"
| viewed: "session stored clusters decoders s \<Longrightarrow> dl \<in> decoders \<Longrightarrow> session stored clusters decoders (view dl v s)"
| schema_saved: "session stored clusters decoders s \<Longrightarrow> dl \<in> decoders
    \<Longrightarrow> session stored clusters decoders (snd (topic_schema_set dl i topic format schema_text s))"
| schema_cleared: "session stored clusters decoders (st, cache) \<Longrightarrow> session stored clusters decoders (snd (topic_schema_delete i topic format st), cache)"
| tab_created: "session stored clusters decoders (st, cache) \<Longrightarrow> session stored clusters decoders (snd (tab_create fresh name st), cache)"
| tab_renamed: "session stored clusters decoders (st, cache) \<Longrightarrow> session stored clusters decoders (snd (tab_rename i name st), cache)"
| tab_deleted: "session stored clusters decoders (st, cache) \<Longrightarrow> session stored clusters decoders (snd (tab_delete i st), cache)"
| tabs_moved: "session stored clusters decoders (st, cache) \<Longrightarrow> session stored clusters decoders (snd (tab_reorder ids st), cache)"

section \<open>Invariants of sessions as an interface\<close>

text \<open>
  What a property of the state has to promise to hold throughout: every command keeps it, and so do the
  database's going down and coming back. Nothing is asked of the cache of compiled schemas.
\<close>

locale session_invariant =
  fixes inv :: "('c, 'a, 'h) app_state \<Rightarrow> bool"
    and clusters :: "('c, 'a, 'g) cluster_lib set"
    and decoders :: "('s, 'p, 'd, 'm, 'cert, 'identity, 'h) decode_lib set"
  assumes inv_database: "inv st \<Longrightarrow> inv (st\<lparr>db_up := up\<rparr>)"
    and inv_imported: "inv st \<Longrightarrow> inv (snd (import_command from_json file_text new_row st))"
    and inv_called: "lib \<in> clusters \<Longrightarrow> inv st \<Longrightarrow> inv (snd (run_call lib call st))"
    and inv_fetched: "lib \<in> clusters \<Longrightarrow> inv st \<Longrightarrow>
      connection_fetch_messages lib sv topic flt max_size budget features enc rounds forward request_id i st = Some (result, shown, st')
      \<Longrightarrow> inv st'"
    and inv_viewed: "dl \<in> decoders \<Longrightarrow> inv (fst s) \<Longrightarrow> inv (fst (view dl v s))"
    and inv_schemas: "inv st \<Longrightarrow> inv (st\<lparr>db_schemas := snd (schema_set (db_up st) i topic format schema_text (db_schemas st))\<rparr>)"
    and inv_schema_cleared: "inv st \<Longrightarrow> inv (snd (topic_schema_delete i topic format st))"
    and inv_tabs: "inv st \<Longrightarrow> inv (snd (tab_create fresh name st))" "inv st \<Longrightarrow> inv (snd (tab_rename i name st))"
      "inv st \<Longrightarrow> inv (snd (tab_delete i st))" "inv st \<Longrightarrow> inv (snd (tab_reorder ids st))"
begin

lemma throughout:
  "session stored clusters decoders s \<Longrightarrow> (\<And>t. t \<in> stored \<Longrightarrow> inv (fresh_state t)) \<Longrightarrow> inv (fst s)"
proof (induction rule: session.induct)
  case (fetched st cache lib sv topic flt max_size budget features enc rounds forward request_id i result shown st')
  then show ?case using inv_fetched [OF fetched.hyps(2) _ fetched.hyps(3)] by simp
next
  case (schema_saved s dl i topic format schema_text)
  then show ?case
    using inv_schemas [of "fst s" i topic format schema_text]
    by (cases s) (simp add: topic_schema_set_def case_prod_unfold split: sum.split)
qed (simp_all add: inv_database inv_imported inv_called inv_viewed inv_schema_cleared inv_tabs)

end

section \<open>The cut-off invariant\<close>

text \<open>A blocked connection is cut off, and a write refusal is only kept for a connected one.\<close>

definition cut_off :: "string \<Rightarrow> ('c, 'a, 'h) app_state \<Rightarrow> bool" where
  "cut_off i st \<longleftrightarrow>
     (auth_block_reason i (connections st) \<noteq> None \<longrightarrow> \<not> is_connected i (connections st) \<and> no_clients i st)
     \<and> (\<forall>topic. write_denied_reason i topic (connections st) \<noteq> None \<longrightarrow> is_connected i (connections st))"

section \<open>Pools of other connections\<close>

text \<open>What a request does to the pools, it does under the id of its connection.\<close>

definition keeps_others :: "string \<Rightarrow> ('c, 'a) rdkafka_client \<Rightarrow> ('c, 'a) rdkafka_client \<Rightarrow> bool" where
  "keeps_others i k k' \<longleftrightarrow>
     (\<forall>j. j \<noteq> i \<longrightarrow> metadata_clients k' j = metadata_clients k j \<and> admin_clients k' j = admin_clients k j)"

lemma keeps_others_metadata: "keeps_others (conn_id c) k (snd (metadata_client c client k))"
proof -
  have "admin_clients (snd (metadata_client c client k)) = admin_clients k"
    by (auto simp: metadata_client_def split: prod.split)
  then show ?thesis using metadata_other [of _ c client k] by (auto simp: keeps_others_def)
qed

lemma keeps_others_admin: "keeps_others (conn_id c) k (snd (admin_client c client k))"
  by (auto simp: keeps_others_def admin_client_def pool_get_def Let_def split: prod.split option.split sum.split)

lemma keeps_others_with: "keeps_others (conn_id c) k (snd (with_metadata_client c client body k))"
  using keeps_others_metadata [of c k client] by (auto simp: with_metadata_client_def split: prod.split)

lemma keeps_others_config: "keeps_others (conn_id c) k (snd (describe_topic_config c client describe topic k))"
  using keeps_others_admin [of c k client]
  by (auto simp: describe_topic_config_def split: prod.split sum.split list.split)

lemma keeps_others_drop: "keeps_others i k k' \<Longrightarrow> keeps_others i k (drop_pooled_client i k')"
  by (simp add: keeps_others_def drop_pooled_client_def)

lemma keeps_others_connect: "keeps_others (conn_id c) k (snd (connect c client check k))"
  using keeps_others_metadata [of c k client] by (simp add: connect_state Let_def keeps_others_drop)

lemma for_request_id:
  "connection_for_request st i = Inr c \<Longrightarrow> conn_id c = i \<and> auth_block_reason i (connections st) = None"
  by (auto simp: connection_for_request_def dest: conn_get_id split: option.splits)

section \<open>What every command keeps\<close>

text \<open>An operation on one connection: the registry and the pools of every other are as before.\<close>

definition only_touches :: "string \<Rightarrow> ('c, 'a, 'h) app_state \<Rightarrow> ('c, 'a, 'h) app_state \<Rightarrow> bool" where
  "only_touches i st st' \<longleftrightarrow>
     (\<forall>j. j \<noteq> i \<longrightarrow>
        auth_block_reason j (connections st') = auth_block_reason j (connections st)
        \<and> is_connected j (connections st') = is_connected j (connections st)
        \<and> (\<forall>topic. write_denied_reason j topic (connections st') = write_denied_reason j topic (connections st)))
     \<and> keeps_others i (kafka st) (kafka st')"

lemma cut_off_elsewhere: "only_touches i st st' \<Longrightarrow> cut_off j st \<Longrightarrow> j \<noteq> i \<Longrightarrow> cut_off j st'"
  by (simp add: only_touches_def cut_off_def keeps_others_def no_clients_def)

lemma record_outcome_touches:
  assumes "keeps_others i (kafka st) k"
  shows "only_touches i st (record_auth_outcome i result (st\<lparr>kafka := k\<rparr>))"
    and "only_touches i st (record_auth_success_only i result (st\<lparr>kafka := k\<rparr>))"
  using assms keeps_others_drop [OF assms]
  by (auto simp: only_touches_def record_auth_outcome_def record_auth_success_only_def registry_defs Let_def
      split: sum.split)

text \<open>What is recorded of an unblocked connection leaves it cut off if it ends up blocked.\<close>

lemma record_outcome_cut_off:
  assumes "cut_off i st" and "auth_block_reason i (connections st) = None"
  shows "cut_off i (record_auth_outcome i result (st\<lparr>kafka := k\<rparr>))"
    and "cut_off i (record_auth_success_only i result (st\<lparr>kafka := k\<rparr>))"
  using assms
  by (auto simp: cut_off_def record_auth_outcome_def record_auth_success_only_def registry_defs Let_def no_clients_def
      drop_pooled_client_def split: sum.split option.splits if_splits)

lemma cut_off_frame [simp]:
  "cut_off i (st\<lparr>db_connections := rows\<rparr>) = cut_off i st" "cut_off i (st\<lparr>db_schemas := schemas\<rparr>) = cut_off i st"
  "cut_off i (st\<lparr>db_tabs := tabs\<rparr>) = cut_off i st" "cut_off i (st\<lparr>db_up := up\<rparr>) = cut_off i st" "cut_off i (st\<lparr>schema_registry := clients\<rparr>) = cut_off i st"
  "cut_off i (st\<lparr>fetch_cancellations := cs\<rparr>) = cut_off i st"
  by (simp_all add: cut_off_def no_clients_def)

lemma request_cut_off:
  assumes keeps: "\<And>c k. keeps_others (conn_id c) k (snd (ask c k))"
    and rec: "keep = record_auth_outcome \<or> keep = record_auth_success_only" and all: "\<forall>j. cut_off j st"
  shows "cut_off j (snd (broker_request keep ask i st))"
proof (cases "connection_for_request st i")
  case (Inr c)
  obtain result k where r: "ask c (kafka st) = (result, k)" by (cases "ask c (kafka st)")
  have c: "conn_id c = i" "auth_block_reason i (connections st) = None" using for_request_id [OF Inr] by simp_all
  then have k: "keeps_others i (kafka st) k" using keeps [of c "kafka st"] r by simp
  have "cut_off j (keep i result (st\<lparr>kafka := k\<rparr>))"
    using rec all cut_off_elsewhere [OF record_outcome_touches(1) [OF k]] cut_off_elsewhere [OF record_outcome_touches(2) [OF k]]
      record_outcome_cut_off [OF spec [OF all] c(2)]
    by (cases "j = i") auto
  then show ?thesis by (simp add: broker_request_def Inr r)
qed (use all in \<open>simp add: broker_request_def\<close>)

lemma publish_cut_off:
  assumes all: "\<forall>j. cut_off j st" and i: "auth_block_reason i (connections st) = None" "is_connected i (connections st)"
  shows "cut_off j (record_publish i topic outcome st)"
proof -
  have "only_touches i st (record_publish i topic outcome st)"
    by (auto simp: only_touches_def record_publish_def Let_def registry_defs keeps_others_def drop_pooled_client_def
        split: option.split publish_failure_kind.split)
  then have "j \<noteq> i \<Longrightarrow> ?thesis" using cut_off_elsewhere all by blast
  moreover have "cut_off i (record_publish i topic outcome st)"
    using spec [OF all, of i] i
    by (auto simp: cut_off_def record_publish_def Let_def registry_defs no_clients_def drop_pooled_client_def
        split: option.splits publish_failure_kind.splits if_splits)
  ultimately show ?thesis by blast
qed

lemma run_request_cut_off:
  assumes all: "\<forall>j. cut_off j st"
  shows "cut_off j (snd (run_request lib req i st))"
proof (cases req)
  case (Publish json_error base64_decode topic p msgs max_size)
  show ?thesis
  proof (cases "connection_for_request st i")
    case (Inr c)
    then have i: "auth_block_reason i (connections st) = None" using for_request_id by blast
    show ?thesis
      using publish_cut_off [OF all i] all Publish Inr
      by (auto simp: connection_publish_messages_def publish_refusal_def split: option.split sum.split if_splits)
  qed (use all Publish in \<open>simp add: connection_publish_messages_def\<close>)
qed (simp_all add: request_defs request_cut_off [OF _ _ all] keeps_others_with keeps_others_config list_brokers_def list_topics_def
    list_consumer_groups_def count_topic_messages_def list_partitions_def fetch_consumer_group_lag_def)

lemma reset_cut_off:
  assumes "\<forall>j. cut_off j st"
  shows "cut_off j (st\<lparr>connections := clear_auth_failures i (connections st)\<rparr>)"
  using spec [OF assms, of j] by (auto simp: cut_off_def registry_defs no_clients_def)

lemma connect_cut_off:
  assumes all: "\<forall>j. cut_off j st"
  shows "cut_off j (snd (connection_connect lib i st))"
proof -
  let ?st = "st\<lparr>connections := clear_auth_failures i (connections st)\<rparr>"
  have all': "\<forall>j. cut_off j ?st" using reset_cut_off [OF all] by blast
  show ?thesis
  proof (cases "connection_for_request ?st i")
    case (Inl e)
    then show ?thesis using all' by (simp add: connection_connect_def Let_def)
  next
    case (Inr c)
    obtain result k where r: "connect c (built lib c) (probe lib) (kafka st) = (result, k)"
      by (cases "connect c (built lib c) (probe lib) (kafka st)")
    have c: "conn_id c = i" "auth_block_reason i (connections ?st) = None" using for_request_id [OF Inr] by simp_all
    have k: "keeps_others i (kafka ?st) k" using keeps_others_connect [of c "kafka st" "built lib c" "probe lib"] r c by simp
    let ?st1 = "record_auth_outcome i result (?st\<lparr>kafka := k\<rparr>)"
    have 1: "cut_off j ?st1" for j
      using cut_off_elsewhere [OF record_outcome_touches(1) [OF k]] record_outcome_cut_off(1) [OF spec [OF all'] c(2)] all'
      by (cases "j = i") auto
    have "auth_block_reason i (connections ?st1) = None" if "result = Inr status" for status
      using that by (simp add: record_auth_outcome_def record_auth_success_def)
    then have "cut_off j (?st1\<lparr>connections := mark_connected i (connections ?st1)\<rparr>)" if "result = Inr status" for status
      using 1 [of j] that by (cases "j = i") (auto simp: cut_off_def mark_connected_def is_connected_def no_clients_def
          write_denied_reason_def auth_block_reason_def)
    then show ?thesis using 1 [of j] Inr r by (cases result) (auto simp: connection_connect_def Let_def)
  qed
qed

lemma run_call_cut_off:
  assumes all: "\<forall>j. cut_off j st"
  shows "cut_off j (snd (run_call lib call st))"
proof (cases call)
  case (Request req i)
  then show ?thesis using run_request_cut_off [OF all] by simp
next
  case (Reconnect i)
  then show ?thesis using connect_cut_off [OF all] by simp
next
  case (Create fresh now n)
  then show ?thesis using all by (simp add: connection_create_def split: prod.split)
next
  case (Update now n i)
  then show ?thesis
    using spec [OF all, of j]
    by (auto simp: connection_update_def cut_off_def registry_defs no_clients_def drop_pooled_client_def split: prod.split sum.split)
next
  case (Delete i)
  then show ?thesis
    using spec [OF all, of j]
    by (auto simp: connection_delete_def connection_delete_at_def Let_def cut_off_def registry_defs no_clients_def drop_pooled_client_def
        split: prod.split sum.split)
next
  case (Disconnect i)
  then show ?thesis
    using spec [OF all, of j]
    by (auto simp: connection_disconnect_def cut_off_def registry_defs no_clients_def drop_pooled_client_def)
next
  case (Cancel r)
  then show ?thesis using all by (simp add: connection_cancel_fetch_def)
qed

lemma fetch_cut_off:
  assumes all: "\<forall>j. cut_off j st"
    and "connection_fetch_messages lib sv topic flt max_size budget features enc rounds forward request_id i st = Some (result, shown, st')"
  shows "cut_off j st'"
proof -
  obtain flag cs where cs: "begin_for_connection request_id i (fetch_cancellations st) = (flag, cs)"
    by (cases "begin_for_connection request_id i (fetch_cancellations st)")
  show ?thesis
  proof (cases "connection_for_request st i")
    case (Inl e)
    then show ?thesis using assms cs by (auto simp: connection_fetch_messages_def)
  next
    case (Inr c)
    obtain client k where k: "metadata_client c (built lib c) (kafka st) = (client, k)"
      by (cases "metadata_client c (built lib c) (kafka st)")
    have c: "conn_id c = i" "auth_block_reason i (connections st) = None" using for_request_id [OF Inr] by simp_all
    have others: "keeps_others i (kafka st) k" using keeps_others_metadata [of c "kafka st" "built lib c"] k c by simp
    have "\<exists>r :: report + message_fetch_result. st' = record_auth_outcome i r ((st\<lparr>kafka := k\<rparr>)\<lparr>fetch_cancellations := finish request_id cs\<rparr>)"
      using assms(2) unfolding fetch_command_eq [OF cs Inr k] map_option_eq_Some prod.inject by blast
    then obtain r :: "report + message_fetch_result" where "st' = record_auth_outcome i r ((st\<lparr>kafka := k\<rparr>)\<lparr>fetch_cancellations := finish request_id cs\<rparr>)" ..
    also have "\<dots> = (record_auth_outcome i r (st\<lparr>kafka := k\<rparr>))\<lparr>fetch_cancellations := finish request_id cs\<rparr>"
      by (simp add: record_auth_outcome_def split: sum.split)
    finally show ?thesis
      using cut_off_elsewhere [OF record_outcome_touches(1) [OF others]] record_outcome_cut_off(1) [OF spec [OF all] c(2)] all
      by (cases "j = i") auto
  qed
qed

interpretation cut: session_invariant "\<lambda>st. \<forall>j. cut_off j st" clusters decoders
  for clusters :: "('c, 'a, 'g) cluster_lib set" and decoders :: "('s, 'p, 'd, 'm, 'cert, 'identity, 'h) decode_lib set"
proof (unfold_locales, goal_cases)
  case (4 lib st sv topic flt max_size budget features enc rounds forward request_id i result shown st')
  then show ?case using fetch_cut_off by blast
next
  case (5 dl s v)
  obtain st cache where s: "s = (st, cache)" by (cases s)
  show ?case
    unfolding s by (rule view_cases [of dl v st cache]) (use 5 s in \<open>simp_all add: registry_schema_def split: prod.split\<close>)
qed (simp_all add: run_call_cut_off import_command_def topic_schema_delete_def on_tabs_def tab_create_def tab_rename_def
    tab_delete_def tab_reorder_def split: prod.split)

section \<open>Properties\<close>



end
