(* ===== verification/In_Flight.thy ===== *)
theory In_Flight
  imports Commands
begin

text \<open>
  Requests that overlap. \<^verbatim>\<open>Commands\<close> takes a command as one operation; the code of
  \<^verbatim>\<open>src-tauri/src/commands/connections.rs\<close> gives way to other commands at every await. Here a request is
  cut there: it passes the gate, loads the saved connection, asks the cluster, and records the outcome,
  and any step of any other command may come in between. What the answer will be is fixed when it asks.
  A connect is such a request too: it clears the verdict before the gate, and marks the connection
  connected when it records success. A request with nothing in between is the command of \<^verbatim>\<open>Commands\<close>.
\<close>

section \<open>Definitions\<close>

text \<open>
  How far a request got: past the gate, with its connection loaded, or answered. A successful answer
  says whether the cluster was found reachable, which only a connect looks at.
\<close>

datatype phase = Gated | Loaded conn | Answered "report + bool"

text \<open>A request in flight: its connection, whether it is a connect, and its phase.\<close>

record ('c, 'a, 'h) world =
  app :: "('c, 'a, 'h) app_state"
  flights :: "nat \<rightharpoonup> string \<times> bool \<times> phase"

type_synonym ('c, 'a) asking = "conn \<Rightarrow> ('c, 'a) rdkafka_client \<Rightarrow> (report + bool) \<times> ('c, 'a) rdkafka_client"

datatype ('c, 'a, 'g) flight_event =
    Begin nat string
  | Begin_connect nat string
  | Load nat
  | Ask nat "('c, 'a) asking"
  | Record nat
  | Other "('c, 'a, 'g) cluster_lib" app_call

text \<open>A step of the request numbered \<open>t\<close>, if it is at that point, or a whole other command.\<close>

fun flight_step :: "('c, 'a, 'g) flight_event \<Rightarrow> ('c, 'a, 'h) world \<Rightarrow> ('c, 'a, 'h) world" where
  "flight_step (Begin t i) w =
     (if flights w t = None \<and> auth_block_reason i (connections (app w)) = None
      then w\<lparr>flights := (flights w)(t \<mapsto> (i, False, Gated))\<rparr> else w)"
| "flight_step (Begin_connect t i) w =
     (if flights w t = None
      then w\<lparr>app := (app w)\<lparr>connections := clear_auth_failures i (connections (app w))\<rparr>,
             flights := (flights w)(t \<mapsto> (i, True, Gated))\<rparr>
      else w)"
| "flight_step (Load t) w =
     (case flights w t of
        Some (i, connecting, Gated) \<Rightarrow>
          (case conn_get (db_up (app w)) (db_connections (app w)) i of
             Inr c \<Rightarrow> w\<lparr>flights := (flights w)(t \<mapsto> (i, connecting, Loaded c))\<rparr>
           | Inl e \<Rightarrow> w\<lparr>flights := (flights w)(t := None)\<rparr>)
      | _ \<Rightarrow> w)"
| "flight_step (Ask t ask) w =
     (case flights w t of
        Some (i, connecting, Loaded c) \<Rightarrow>
          (case ask c (kafka (app w)) of
             (result, k) \<Rightarrow> w\<lparr>app := (app w)\<lparr>kafka := k\<rparr>, flights := (flights w)(t \<mapsto> (i, connecting, Answered result))\<rparr>)
      | _ \<Rightarrow> w)"
| "flight_step (Record t) w =
     (case flights w t of
        Some (i, connecting, Answered result) \<Rightarrow>
          (let st = record_auth_outcome i result (app w);
               st = (if connecting \<and> result = Inr True then st\<lparr>connections := mark_connected i (connections st)\<rparr> else st)
           in w\<lparr>app := st, flights := (flights w)(t := None)\<rparr>)
      | _ \<Rightarrow> w)"
| "flight_step (Other lib call) w = w\<lparr>app := snd (run_call lib call (app w))\<rparr>"

definition fly :: "('c, 'a, 'g) flight_event list \<Rightarrow> ('c, 'a, 'h) world \<Rightarrow> ('c, 'a, 'h) world" where
  "fly events w = fold flight_step events w"

text \<open>The times a run of events asks the cluster of connection \<open>i\<close> on behalf of a request.\<close>

fun asks_of :: "string \<Rightarrow> ('c, 'a, 'h) world \<Rightarrow> ('c, 'a, 'g) flight_event \<Rightarrow> bool" where
  "asks_of i w (Ask t ask) \<longleftrightarrow> (\<exists>connecting c. flights w t = Some (i, connecting, Loaded c))"
| "asks_of i w _ \<longleftrightarrow> False"

fun asked :: "string \<Rightarrow> ('c, 'a, 'g) flight_event list \<Rightarrow> ('c, 'a, 'h) world \<Rightarrow> nat" where
  "asked i [] w = 0"
| "asked i (e # events) w = (if asks_of i w e then 1 else 0) + asked i events (flight_step e w)"

text \<open>The requests of a connection that passed the gate and have not asked yet.\<close>

definition waiting :: "string \<Rightarrow> ('c, 'a, 'h) world \<Rightarrow> nat set" where
  "waiting i w = {t. \<exists>connecting. flights w t = Some (i, connecting, Gated) \<or> (\<exists>c. flights w t = Some (i, connecting, Loaded c))}"

text \<open>The broker goes on rejecting: no request of the connection succeeds, now or later.\<close>

definition rejecting_so_far :: "string \<Rightarrow> ('c, 'a, 'h) world \<Rightarrow> bool" where
  "rejecting_so_far i w \<longleftrightarrow>
     (\<forall>t connecting c. flights w t = Some (i, connecting, Loaded c) \<longrightarrow> conn_id c = i)
     \<and> (\<forall>t connecting result. flights w t = Some (i, connecting, Answered result) \<longrightarrow> (\<exists>r. result = Inl r))"

fun still_rejecting :: "string \<Rightarrow> ('c, 'a, 'g) flight_event \<Rightarrow> bool" where
  "still_rejecting i (Ask t ask) \<longleftrightarrow> (\<forall>c k. conn_id c = i \<longrightarrow> (\<exists>r. fst (ask c k) = Inl r))"
| "still_rejecting i (Begin_connect t j) \<longleftrightarrow> j \<noteq> i"
| "still_rejecting i (Other lib call) \<longleftrightarrow> \<not> resets i call"
| "still_rejecting i _ \<longleftrightarrow> True"

section \<open>Lemmas\<close>

lemma auth_block_reason_marked [simp]: "auth_block_reason i (mark_connected j s) = auth_block_reason i s"
  by (simp add: auth_block_reason_def mark_connected_def)

lemma failed_outcome_keeps_block:
  assumes "auth_block_reason i (connections st) \<noteq> None"
  shows "auth_block_reason i (connections (record_auth_outcome i (Inl r) st)) \<noteq> None"
  using assms
  by (auto simp: record_auth_outcome_def registry_defs Let_def sat_add_def MAX_AUTH_ATTEMPTS_def split: option.splits if_splits)

text \<open>One step while the connection is blocked and the broker rejects: it stays blocked, nothing new waits,
  and an asking request is taken off those that wait.\<close>

lemma blocked_step:
  assumes blocked: "auth_block_reason i (connections (app w)) \<noteq> None"
    and rej: "rejecting_so_far i w" "still_rejecting i e"
  shows "auth_block_reason i (connections (app (flight_step e w))) \<noteq> None
    \<and> rejecting_so_far i (flight_step e w)
    \<and> waiting i (flight_step e w) \<subseteq> waiting i w
    \<and> (asks_of i w e \<longrightarrow> (\<exists>t\<in>waiting i w. waiting i (flight_step e w) \<subseteq> waiting i w - {t}))"
proof (cases e)
  case (Begin t j)
  then show ?thesis using assms by (cases "j = i") (auto simp: rejecting_so_far_def waiting_def)
next
  case (Begin_connect t j)
  then show ?thesis using assms by (auto simp: rejecting_so_far_def waiting_def)
next
  case (Load t)
  show ?thesis
  proof (cases "\<exists>j b. flights w t = Some (j, b, Gated)")
    case True
    then obtain j b where f: "flights w t = Some (j, b, Gated)" by blast
    show ?thesis
    proof (cases "conn_get (db_up (app w)) (db_connections (app w)) j")
      case (Inl r)
      then show ?thesis using assms Load f by (auto simp: rejecting_so_far_def waiting_def)
    next
      case (Inr c)
      then show ?thesis using assms Load f conn_get_id [OF Inr] by (auto simp: rejecting_so_far_def waiting_def)
    qed
  next
    case False
    then have "flight_step e w = w" using Load by (auto split: option.split phase.split)
    then show ?thesis using assms Load by simp
  qed
next
  case (Ask t ask)
  show ?thesis
  proof (cases "\<exists>j b c. flights w t = Some (j, b, Loaded c)")
    case True
    then obtain j b c where f: "flights w t = Some (j, b, Loaded c)" by blast
    obtain result k where r: "ask c (kafka (app w)) = (result, k)" by (cases "ask c (kafka (app w))")
    have "\<exists>r. result = Inl r" if "j = i"
    proof -
      have "conn_id c = i" using rej(1) f that by (auto simp: rejecting_so_far_def)
      then obtain r' where "fst (ask c (kafka (app w))) = Inl r'" using rej(2) Ask by auto
      then show ?thesis using r by simp
    qed
    then show ?thesis
      using assms Ask f r by (auto simp: rejecting_so_far_def waiting_def)
  next
    case False
    then have "flight_step e w = w" using Ask by (auto split: option.split phase.split)
    then show ?thesis using assms Ask False by auto
  qed
next
  case (Record t)
  show ?thesis
  proof (cases "\<exists>j b result. flights w t = Some (j, b, Answered result)")
    case True
    then obtain j b result where f: "flights w t = Some (j, b, Answered result)" by blast
    have "auth_block_reason i (connections (record_auth_outcome j result (app w))) \<noteq> None"
    proof (cases "j = i")
      case True
      then obtain r where "result = Inl r" using rej(1) f unfolding rejecting_so_far_def by blast
      then show ?thesis using True failed_outcome_keeps_block [OF blocked] by simp
    qed (use record_block_other(1) [of i j result "app w"] blocked in simp)
    then show ?thesis
      using rej(1) f Record by (auto simp: rejecting_so_far_def waiting_def Let_def)
  next
    case False
    then have "flight_step e w = w" using Record by (auto split: option.split phase.split)
    then show ?thesis using assms Record by simp
  qed
next
  case (Other lib call)
  have "auth_block_reason i (connections (snd (run_call lib call (app w)))) \<noteq> None"
    using run_call_block [of i "app w" _ call lib] blocked rej(2) Other by auto
  then show ?thesis using rej(1) Other by (simp add: rejecting_so_far_def waiting_def)
qed

section \<open>Properties\<close>


text \<open>The requests as \<open>Commands\<close> has them: a listing of the topics, and a connect.\<close>

definition topics_ask :: "('c, 'a, 'g) cluster_lib \<Rightarrow> ('c, 'a) asking" where
  "topics_ask lib c k =
     (case list_topics c (built lib c) (lib_metadata lib None) k of
        (result, k) \<Rightarrow> (and_then result (\<lambda>_. Inr False), k))"

definition connect_ask :: "('c, 'a, 'g) cluster_lib \<Rightarrow> ('c, 'a) asking" where
  "connect_ask lib c k =
     (case connect c (built lib c) (probe lib) k of
        (result, k) \<Rightarrow> (and_then result (\<lambda>status. Inr (status = Reachable)), k))"

lemma record_outcome_and_then [simp]:
  "record_auth_outcome i (and_then result (\<lambda>x. Inr (f x))) st = record_auth_outcome i result st"
  by (cases result) (simp_all add: record_auth_outcome_def)

lemma and_then_Inr_True [simp]: "and_then result (\<lambda>x. Inr (x = y)) = Inr True \<longleftrightarrow> result = Inr y"
  by (cases result) simp_all

text \<open>C23: The atomic commands are the overlapping ones run alone: the four steps of a request with nothing in
  between do to the state what the command does, whether it is refused, fails or succeeds, and the four
  steps of a connect what connecting does.\<close>
theorem alone_is_the_command:
  assumes "flights w t = None"
  shows "app (fly [Begin t i, Load t, Ask t ask, Record t] w) = snd (broker_request record_auth_outcome ask i (app w))
    \<and> app (fly [Begin_connect t i, Load t, Ask t (connect_ask lib), Record t] w) = snd (connection_connect lib i (app w))"
proof
  show "app (fly [Begin t i, Load t, Ask t ask, Record t] w) = snd (broker_request record_auth_outcome ask i (app w))"
    using assms
    by (auto simp: fly_def broker_request_def connection_for_request_def reply_def Let_def split: option.split sum.split prod.split)
  let ?st = "(app w)\<lparr>connections := clear_auth_failures i (connections (app w))\<rparr>"
  have open_gate: "auth_block_reason i (clear_auth_failures i (connections (app w))) = None"
    by (simp add: registry_defs)
  show "app (fly [Begin_connect t i, Load t, Ask t (connect_ask lib), Record t] w) = snd (connection_connect lib i (app w))"
  proof (cases "conn_get (db_up (app w)) (db_connections (app w)) i")
    case (Inl e)
    then show ?thesis
      using assms open_gate by (simp add: fly_def connection_connect_def connection_for_request_def reply_def Let_def)
  next
    case (Inr c)
    obtain result k where r: "connect c (built lib c) (probe lib) (kafka (app w)) = (result, k)"
      by (cases "connect c (built lib c) (probe lib) (kafka (app w))")
    then show ?thesis
      using assms open_gate Inr
      by (cases result)
        (simp_all add: fly_def connection_connect_def connection_for_request_def reply_def connect_ask_def record_auth_outcome_def Let_def)
  qed
qed

text \<open>C21: A verdict on settings that no longer exist is counted against the new ones: two requests that were
  rejected with the old password and end after the user has saved another one block the edited
  connection, although its new settings were never tried - the clean slate an edit promises does not
  hold while requests are on their way.\<close>
theorem late_verdicts_block_edited_connection:
  assumes late: "flights w t = Some (i, connecting, Answered (Inl r))" "flights w t' = Some (i, connecting', Answered (Inl r'))" "t \<noteq> t'"
    and rejected: "current_context r = Authentication" "current_context r' = Authentication"
    and edited: "connection_update now n i (app w) = (Inr c, st)"
    and w': "w' = fly [Other lib (Update now n i), Record t, Record t'] w"
  shows "auth_block_reason i (connections st) = None
    \<and> conn_get (db_up (app w')) (db_connections (app w')) i = Inr c
    \<and> run_call lib' (Request req i) (app w') = (Some (blocked_message (report_reasons r')), app w')"
proof -
  let ?st1 = "record_auth_outcome i (Inl r :: report + bool) st"
  let ?st2 = "record_auth_outcome i (Inl r' :: report + bool) ?st1"
  have app: "app w' = ?st2" using late edited by (simp add: w' fly_def)
  have clean: "auth_block_reason i (connections st) = None" and got: "conn_get (db_up st) (db_connections st) i = Inr c"
    using edited by (auto simp: connection_update_def conn_update_def reply_def Let_def split: prod.splits sum.splits if_splits)
  have none: "auth_attempts i (connections st) = 0"
    using edited by (auto simp: connection_update_def registry_defs split: prod.splits sum.splits)
  have "1 \<le> auth_attempts i (connections ?st1)"
    using rejected by (simp add: record_auth_outcome_def auth_attempts_failure)
  then have "auth_block_reason i (connections ?st2) = Some (report_reasons r')"
    using rejected by (auto simp: record_auth_outcome_def auth_block_reason_failure sat_add_def MAX_AUTH_ATTEMPTS_def)
  moreover have "db_up ?st2 = db_up st" "db_connections ?st2 = db_connections st"
    by (simp_all add: record_auth_outcome_def split: if_splits)
  ultimately show ?thesis using clean got run_request_blocked by (simp add: app)
qed

lemma fly_Cons: "fly (e # es) w = fly es (flight_step e w)"
  by (simp add: fly_def)

text \<open>What a request that asks and is answered leaves behind: its client pooled and no verdict.\<close>

lemma answered_request_pools:
  fixes lib :: "('c, 'a, 'g) cluster_lib" and w :: "('c, 'a, 'h) world"
  assumes "flights w t = Some (i, connecting, Loaded c)" and "conn_id c = i" and "metadata_clients (kafka (app w)) i = None"
    and "built lib c = Inr client" and "lib_metadata lib None client = (Inr metadata, polls)"
    and w': "w' = fly ([Ask t (if connecting then connect_ask lib else topics_ask lib), Record t] :: ('c, 'a, 'g) flight_event list) w"
  shows "metadata_clients (kafka (app w')) i = Some (updated_at c, client)
    \<and> is_connected i (connections (app w')) = (connecting \<or> is_connected i (connections (app w)))
    \<and> db_connections (app w') = db_connections (app w)"
proof -
  let ?k = "(kafka (app w))\<lparr>metadata_clients := (metadata_clients (kafka (app w)))(i \<mapsto> (updated_at c, client))\<rparr>"
  have pooled: "metadata_client c (Inr client) (kafka (app w)) = (Inr client, ?k)"
    using assms(2,3) by (simp add: metadata_client_def pool_get_def)
  have "connect_ask lib c (kafka (app w)) = (Inr True, ?k)"
    using assms(4,5) pooled by (simp add: connect_ask_def connect_def probe_def probe_with_def observed_def)
  moreover have "topics_ask lib c (kafka (app w)) = (Inr False, ?k)"
    using assms(4,5) pooled by (simp add: topics_ask_def list_topics_def with_metadata_client_def request_def observed_def)
  ultimately show ?thesis
    unfolding w' using assms(1) by (simp add: fly_def Let_def record_auth_outcome_def registry_defs record_auth_success_def)
qed

text \<open>C22: Disconnecting or deleting a connection does not reach the requests on their way: one that had
  loaded the connection goes on to ask, and leaves an open client in the pool of a connection that is
  disconnected or no longer exists; a connect even marks it connected again.\<close>
theorem released_client_comes_back:
  assumes flight: "flights w t = Some (i, connecting, Loaded c)" "conn_id c = i"
    and answers: "built lib c = Inr client" "lib_metadata lib None client = (Inr metadata, polls)"
    and released: "call = Disconnect i \<or> call = Delete i" "fst (run_call lib call (app w)) = None"
    and w': "w' = fly [Other lib call, Ask t (if connecting then connect_ask lib else topics_ask lib), Record t] w"
  shows "metadata_clients (kafka (snd (run_call lib call (app w)))) i = None
    \<and> metadata_clients (kafka (app w')) i = Some (updated_at c, client)
    \<and> is_connected i (connections (app w')) = connecting
    \<and> (call = Delete i \<longrightarrow> i \<notin> conn_id ` set (db_connections (app w')))"
proof -
  let ?w = "flight_step (Other lib call) w"
  have gone: "metadata_clients (kafka (app ?w)) i = None" "\<not> is_connected i (connections (app ?w))"
      "call = Delete i \<Longrightarrow> i \<notin> conn_id ` set (db_connections (app ?w))"
    using released
    by (auto simp: connection_disconnect_def connection_delete_def connection_delete_at_def conn_delete_def drop_pooled_client_def registry_defs Let_def
        schema_delete_all_def reply_def split: if_splits)
  have "flights ?w t = Some (i, connecting, Loaded c)" using flight by simp
  note answered = answered_request_pools [OF this flight(2) gone(1) answers refl]
  have app: "app ?w = snd (run_call lib call (app w))" by simp
  have "db_connections (app w') = db_connections (snd (run_call lib call (app w)))"
    using answered unfolding w' fly_Cons [of "Other lib call"] app by blast
  with answered gone show ?thesis unfolding w' fly_Cons [of "Other lib call"] app by auto
qed

section \<open>Witnesses\<close>

definition rejection :: report where
  "rejection = fail_with Authentication ''old password''"

definition small_world :: "(unit, unit, unit) world" where
  "small_world =
     \<lparr>app = small_app, flights = [1 \<mapsto> (''a'', False, Answered (Inl rejection)), 2 \<mapsto> (''a'', False, Answered (Inl rejection))]\<rparr>"

theorem late_verdicts_block_edited_connection_witness:
  "fst (run_call denying_lib (Request Topics ''a'')
      (app (fly [Other denying_lib (Update ''t2'' (example_conn\<lparr>sasl_password := Some ''new''\<rparr>) ''a''), Record 1, Record 2] small_world)))
   = Some (blocked_message ''old password'')"
proof -
  let ?n = "example_conn\<lparr>sasl_password := Some ''new''\<rparr>"
  obtain c where c: "into_connection (row_of ''a'' ''t0'' ''t2'' ?n) = Inr c" using into_row_of by blast
  obtain st where st: "connection_update ''t2'' ?n ''a'' (app small_world) = (Inr c, st)"
    using c by (simp add: connection_update_def conn_update_def small_world_def small_app_def conn_get_def)
  have "run_call denying_lib (Request Topics ''a'')
      (app (fly [Other denying_lib (Update ''t2'' ?n ''a''), Record 1, Record 2] small_world))
    = (Some (blocked_message (report_reasons rejection)), app (fly [Other denying_lib (Update ''t2'' ?n ''a''), Record 1, Record 2] small_world))"
    using late_verdicts_block_edited_connection [of small_world 1 "''a''" False rejection 2 False rejection "''t2''" ?n c st _ denying_lib denying_lib Topics, OF _ _ _ _ _ st refl]
    by (simp add: small_world_def rejection_def fail_with_def attach_def new_report_def)
  then show ?thesis by (simp add: rejection_def fail_with_def attach_def new_report_def report_reasons_def)
qed

theorem alone_is_the_command_witness:
  "app (fly ([Begin 3 ''a'', Load 3, Ask 3 (\<lambda>c k. (Inr False, k)), Record 3] :: (unit, unit, unit) flight_event list) small_world)
   = snd (broker_request record_auth_outcome (\<lambda>c k. (Inr False, k)) ''a'' small_app)"
proof -
  have "flights small_world 3 = None" by (simp add: small_world_def)
  moreover have "app small_world = small_app" by (simp add: small_world_def)
  ultimately show ?thesis using alone_is_the_command [of small_world 3 "''a''" "\<lambda>c k. (Inr False, k)"] by metis
qed

text \<open>A connection blocked while one more request is past the gate.\<close>

definition late_events :: "(unit, unit, unit) flight_event list" where
  "late_events =
     [Load 7, Ask 7 (\<lambda>c k. (Inl rejection, k)), Begin 8 ''a'', Load 8, Ask 8 (\<lambda>c k. (Inl rejection, k)), Record 7]"


theorem released_client_comes_back_witness:
  "\<exists>(w :: (unit, unit, unit) world) c. is_connected ''a'' (connections (app (fly [Other denying_lib (Disconnect ''a''), Ask 1 (connect_ask denying_lib), Record 1]
      (w\<lparr>flights := [1 \<mapsto> (''a'', True, Loaded c)]\<rparr>))))"
proof -
  obtain c where c: "conn_get True (db_connections small_app) ''a'' = Inr c" by (rule small_app_get)
  let ?w = "small_world\<lparr>flights := [1 \<mapsto> (''a'', True, Loaded c)]\<rparr>"
  have "is_connected ''a'' (connections (app (fly
      [Other denying_lib (Disconnect ''a''), Ask 1 (if True then connect_ask denying_lib else topics_ask denying_lib), Record 1] ?w))) = True"
    by (rule released_client_comes_back [where w = ?w and c = c and call = "Disconnect ''a''", THEN conjunct2, THEN conjunct2, THEN conjunct1])
      (simp_all add: conn_get_id [OF c] denying_lib_def built_def build_metadata_client_def create_client_def)
  then show ?thesis unfolding if_True eq_True by blast
qed

end
