(* ===== verification/Error_Slot.thy ===== *)
theory Error_Slot
  imports Client_Pools
begin

text \<open>
  The slot for the reason of a failure under concurrency (\<^verbatim>\<open>backend/kafka/src/client.rs\<close>). The
  requests of a connection share one client: one \<^verbatim>\<open>ClientErrorContext\<close>, one event queue of the client
  library, and the mutex \<^verbatim>\<open>error_slot\<close> that each holds for one call. \<^verbatim>\<open>Client_Pools\<close> takes \<open>observed\<close> as one
  operation; here every request is cut at each access to the shared client, the library queues its
  error events whenever it likes, and the steps interleave in any order. The properties say that the
  one operation is what every interleaving amounts to, that nobody waits for ever, and what the mutex
  does not protect: the queue outlives the request whose failure filled it.
\<close>

section \<open>The shared client\<close>

text \<open>
  Where a request is in \<^verbatim>\<open>observed\<close>: not begun, holding the mutex, with the slot cleared, serving
  events after a failed call, or returned. The string is what the request calls itself in a report.
\<close>

datatype 'b stage =
    Asking string
  | Guarded string
  | Cleared string
  | Failing string kafka_error
  | Returned "report + 'b"

record 'b shared_client =
  last_error :: "string option"
  error_slot :: "nat option"
  events :: "string list"
  stage_of :: "nat \<Rightarrow> 'b stage"

text \<open>\<^verbatim>\<open>ClientContext::error\<close>, which the library calls with the reason of each event it serves.\<close>

definition on_error :: "string \<Rightarrow> string option \<Rightarrow> string option" where
  "on_error why slot = Some why"

text \<open>\<^verbatim>\<open>ClientErrorContext::clear\<close> and \<^verbatim>\<open>begin\<close>.\<close>

definition clear_slot :: "'b shared_client \<Rightarrow> 'b shared_client" where
  "clear_slot s = s\<lparr>last_error := None\<rparr>"

text \<open>One \<^verbatim>\<open>poll\<close> of the client, in which the library serves the next \<open>n\<close> queued events.\<close>

definition serve :: "nat \<Rightarrow> 'b shared_client \<Rightarrow> 'b shared_client" where
  "serve n s = s\<lparr>last_error := fold on_error (take n (events s)) (last_error s), events := drop n (events s)\<rparr>"

text \<open>Taking the mutex, and dropping the guard on the way out with the result.\<close>

definition acquire :: "nat \<Rightarrow> string \<Rightarrow> 'b shared_client \<Rightarrow> 'b shared_client" where
  "acquire t what s = s\<lparr>error_slot := Some t, stage_of := (stage_of s)(t := Guarded what)\<rparr>"

definition finish_request :: "nat \<Rightarrow> report + 'b \<Rightarrow> 'b shared_client \<Rightarrow> 'b shared_client" where
  "finish_request t result s = s\<lparr>error_slot := None, stage_of := (stage_of s)(t := Returned result)\<rparr>"

section \<open>Steps and runs\<close>

text \<open>The label of a poll carries what it put into the slot.\<close>

datatype 'b slot_event =
    Raised string
  | Acquire nat
  | Clear nat
  | Return nat "kafka_error + 'b"
  | Poll nat "string option"
  | Report nat

inductive slot_step :: "'b slot_event \<Rightarrow> 'b shared_client \<Rightarrow> 'b shared_client \<Rightarrow> bool" where
  raised: "slot_step (Raised why) s (s\<lparr>events := events s @ [why]\<rparr>)"
| acquired: "stage_of s t = Asking what \<Longrightarrow> error_slot s = None \<Longrightarrow> slot_step (Acquire t) s (acquire t what s)"
| cleared: "stage_of s t = Guarded what \<Longrightarrow>
    slot_step (Clear t) s ((clear_slot s)\<lparr>stage_of := (stage_of s)(t := Cleared what)\<rparr>)"
| succeeded: "stage_of s t = Cleared what \<Longrightarrow> slot_step (Return t (Inr x)) s (finish_request t (Inr x) s)"
| failed: "stage_of s t = Cleared what \<Longrightarrow>
    slot_step (Return t (Inl err)) s (s\<lparr>stage_of := (stage_of s)(t := Failing what err)\<rparr>)"
| polled: "stage_of s t = Failing what err \<Longrightarrow> last_error s = None \<Longrightarrow>
    slot_step (Poll t (last_error (serve n s))) s (serve n s)"
| reported: "stage_of s t = Failing what err \<Longrightarrow>
    slot_step (Report t) s
      (finish_request t (Inl (failure_report err (case last_error s of Some why \<Rightarrow> why | None \<Rightarrow> error_text err) what)) s)"

text \<open>Runs from a client that earlier requests may have used: a leftover reason, leftover events.\<close>

definition shared :: "string option \<Rightarrow> string list \<Rightarrow> (nat \<Rightarrow> string) \<Rightarrow> 'b shared_client" where
  "shared slot queue whats = \<lparr>last_error = slot, error_slot = None, events = queue, stage_of = (\<lambda>t. Asking (whats t))\<rparr>"

inductive slot_run :: "'b shared_client \<Rightarrow> 'b slot_event list \<Rightarrow> 'b shared_client \<Rightarrow> bool" for s where
  nothing: "slot_run s [] s"
| and_then: "slot_run s es s' \<Longrightarrow> slot_step e s' s'' \<Longrightarrow> slot_run s (es @ [e]) s''"

text \<open>What a run shows of one request: how its call ended, and what its own polls served.\<close>

fun outcome_in :: "nat \<Rightarrow> 'b slot_event \<Rightarrow> (kafka_error + 'b) list" where
  "outcome_in t (Return u result) = (if u = t then [result] else [])"
| "outcome_in t _ = []"

fun poll_in :: "nat \<Rightarrow> 'b slot_event \<Rightarrow> string option list" where
  "poll_in t (Poll u why) = (if u = t then [why] else [])"
| "poll_in t _ = []"

fun raised_in :: "'b slot_event \<Rightarrow> string list" where
  "raised_in (Raised why) = [why]"
| "raised_in _ = []"

definition outcomes_of :: "nat \<Rightarrow> 'b slot_event list \<Rightarrow> (kafka_error + 'b) list" where
  "outcomes_of t es = concat (map (outcome_in t) es)"

definition polls_of :: "nat \<Rightarrow> 'b slot_event list \<Rightarrow> string option list" where
  "polls_of t es = concat (map (poll_in t) es)"

definition raised_by :: "'b slot_event list \<Rightarrow> string list" where
  "raised_by es = concat (map raised_in es)"

section \<open>The invariant\<close>

text \<open>
  A request holds the mutex exactly while it is inside. Until its call has failed it has served no
  events; from then on the slot holds what its own polls have put there and nothing else.
\<close>

definition request_ok :: "(nat \<Rightarrow> string) \<Rightarrow> 'b slot_event list \<Rightarrow> 'b shared_client \<Rightarrow> nat \<Rightarrow> bool" where
  "request_ok whats es s t \<longleftrightarrow>
     (case stage_of s t of
        Asking what \<Rightarrow> what = whats t \<and> error_slot s \<noteq> Some t \<and> polls_of t es = [] \<and> outcomes_of t es = []
      | Guarded what \<Rightarrow> what = whats t \<and> error_slot s = Some t \<and> polls_of t es = [] \<and> outcomes_of t es = []
      | Cleared what \<Rightarrow> what = whats t \<and> error_slot s = Some t \<and> polls_of t es = [] \<and> outcomes_of t es = []
          \<and> last_error s = None
      | Failing what err \<Rightarrow> what = whats t \<and> error_slot s = Some t \<and> outcomes_of t es = [Inl err]
          \<and> last_error s = drain_error_events (polls_of t es) None
      | Returned r \<Rightarrow> error_slot s \<noteq> Some t
          \<and> (\<exists>result. outcomes_of t es = [result] \<and> r = fst (observed (whats t) result (polls_of t es) None)))"

definition slot_inv :: "(nat \<Rightarrow> string) \<Rightarrow> 'b slot_event list \<Rightarrow> 'b shared_client \<Rightarrow> bool" where
  "slot_inv whats es s \<longleftrightarrow> (\<forall>t. request_ok whats es s t)"

section \<open>Lemmas\<close>

lemma trace_snoc [simp]:
  "outcomes_of t (es @ [e]) = outcomes_of t es @ outcome_in t e"
  "polls_of t (es @ [e]) = polls_of t es @ poll_in t e"
  "raised_by (es @ [e]) = raised_by es @ raised_in e"
  by (simp_all add: outcomes_of_def polls_of_def raised_by_def)

lemma trace_Nil [simp]: "outcomes_of t [] = []" "polls_of t [] = []" "raised_by [] = []"
  by (simp_all add: outcomes_of_def polls_of_def raised_by_def)

lemma drain_snoc: "drain_error_events polls None = None \<Longrightarrow> drain_error_events (polls @ [why]) None = why"
proof (induction polls "None :: string option" rule: drain_error_events.induct)
  case (2)
  then show ?case by (cases why) simp_all
next
  case (3 r polls)
  then show ?case by (cases r) simp_all
qed

lemma observed_failed:
  "fst (observed what (Inl err) polls slot) =
     Inl (failure_report err (case drain_error_events polls None of Some why \<Rightarrow> why | None \<Rightarrow> error_text err) what)"
  by (simp add: observed_def failure_def Let_def)

lemma observed_slot: "fst (observed what result polls slot) = fst (observed what result polls slot')"
  by (cases result) (simp_all add: observed_def failure_def Let_def)

lemma slot_inv_start: "slot_inv whats [] (shared slot queue whats)"
  by (simp add: slot_inv_def request_ok_def shared_def)

lemma serve_simps [simp]:
  "error_slot (serve n s) = error_slot s" "stage_of (serve n s) = stage_of s" "events (serve n s) = drop n (events s)"
  by (simp_all add: serve_def)

text \<open>Only the request inside the mutex depends on the slot.\<close>

lemma request_ok_frame:
  assumes "request_ok whats es s t" and "stage_of s' t = stage_of s t" and "error_slot s' = Some t \<longleftrightarrow> error_slot s = Some t"
    and "error_slot s = Some t \<Longrightarrow> last_error s' = last_error s" and "outcome_in t e = []" and "poll_in t e = []"
  shows "request_ok whats (es @ [e]) s' t"
  using assms by (auto simp: request_ok_def split: stage.splits)

lemma slot_step_inv:
  assumes inv: "slot_inv whats es s" and step: "slot_step e s s'"
  shows "slot_inv whats (es @ [e]) s'"
  unfolding slot_inv_def
proof
  fix u
  have ok: "request_ok whats es s u" for u using inv by (simp add: slot_inv_def)
  from step show "request_ok whats (es @ [e]) s' u"
  proof (cases rule: slot_step.cases)
    case (raised why)
    then show ?thesis using request_ok_frame [OF ok, of s' u e] by simp
  next
    case (acquired t what)
    then show ?thesis
      using ok [of u] by (cases "u = t") (auto simp: acquire_def request_ok_def split: stage.splits)
  next
    case (cleared t what)
    have "error_slot s = Some t" using ok [of t] cleared by (simp add: request_ok_def)
    then show ?thesis
      using ok [of u] cleared by (cases "u = t") (auto simp: clear_slot_def request_ok_def split: stage.splits)
  next
    case (succeeded t what x)
    have "error_slot s = Some t" using ok [of t] succeeded by (simp add: request_ok_def)
    then show ?thesis
      using ok [of u] succeeded
      by (cases "u = t") (auto simp: finish_request_def request_ok_def observed_def split: stage.splits)
  next
    case (failed t what err)
    then show ?thesis
      using ok [of u] by (cases "u = t") (auto simp: request_ok_def split: stage.splits)
  next
    case (polled t what err n)
    have "error_slot s = Some t" using ok [of t] polled by (simp add: request_ok_def)
    then show ?thesis
      using ok [of u] polled drain_snoc [of "polls_of t es"]
      by (cases "u = t") (auto simp: request_ok_def split: stage.splits)
  next
    case (reported t what err)
    have "error_slot s = Some t" using ok [of t] reported by (simp add: request_ok_def)
    then show ?thesis
      using ok [of u] reported
      by (cases "u = t") (auto simp: finish_request_def request_ok_def observed_failed split: stage.splits)
  qed
qed

lemma slot_run_inv:
  assumes "slot_run (shared slot queue whats) es s"
  shows "slot_inv whats es s"
  using assms by (induction rule: slot_run.induct) (simp_all add: slot_inv_start slot_step_inv)

lemma slot_run_append: "slot_run s' es' s'' \<Longrightarrow> slot_run s es s' \<Longrightarrow> slot_run s (es @ es') s''"
  by (induction rule: slot_run.induct) (auto simp flip: append_assoc intro: slot_run.and_then)

lemma slot_run_Cons: "slot_step e s s' \<Longrightarrow> slot_run s' es s'' \<Longrightarrow> slot_run s (e # es) s''"
  using slot_run_append [of s' es s'' s "[e]"] slot_run.and_then [OF slot_run.nothing, of e s s'] by simp

lemma fold_on_error: "fold on_error xs slot = (if xs = [] then slot else Some (last xs))"
  by (induction xs arbitrary: slot) (auto simp: on_error_def)

text \<open>Whatever a poll serves, the library has raised.\<close>

lemma served_was_raised:
  assumes "slot_run (shared slot queue whats) es s"
  shows "set (events s) \<subseteq> set queue \<union> set (raised_by es)
    \<and> (\<forall>t why. Some why \<in> set (polls_of t es) \<longrightarrow> why \<in> set queue \<union> set (raised_by es))"
  using assms
proof (induction rule: slot_run.induct)
  case nothing
  then show ?case by (simp add: shared_def)
next
  case (and_then es s e s')
  from and_then.hyps(2) show ?case
  proof (cases rule: slot_step.cases)
    case (polled t what err n)
    have served: "why \<in> set (events s)" if "last_error (serve n s) = Some why" for why
    proof -
      from that have "take n (events s) \<noteq> []" "why = last (take n (events s))"
        using polled(4) by (simp_all add: serve_def fold_on_error split: if_splits)
      then show ?thesis using last_in_set in_set_takeD by metis
    qed
    have sub: "set (events s') \<subseteq> set (events s)" "raised_by (es @ [e]) = raised_by es"
      using polled(1,2) set_drop_subset [of n "events s"] by simp_all
    show ?thesis
    proof (intro conjI allI impI)
      show "set (events s') \<subseteq> set queue \<union> set (raised_by (es @ [e]))" 
        using and_then.IH sub(1) unfolding sub(2) by (meson subset_trans)
      fix u why
      assume "Some why \<in> set (polls_of u (es @ [e]))"
      then consider "Some why \<in> set (polls_of u es)" | "why \<in> set (events s)"
        using polled(1) served by (auto split: if_splits)
      then show "why \<in> set queue \<union> set (raised_by (es @ [e]))"
        unfolding sub(2) using and_then.IH by cases blast+
    qed
  qed (use and_then.IH in \<open>auto simp: acquire_def clear_slot_def finish_request_def\<close>)
qed

text \<open>The request inside the mutex gets out of it in at most three steps of its own.\<close>

definition answers :: "(nat \<Rightarrow> kafka_error + 'b) \<Rightarrow> 'b slot_event list \<Rightarrow> bool" where
  "answers ans es \<longleftrightarrow> (\<forall>t result. Return t result \<in> set es \<longrightarrow> result = ans t)"

lemma from_failing:
  assumes "stage_of s t = Failing what err"
  shows "\<exists>s'. slot_run s [Report t] s' \<and> error_slot s' = None
    \<and> (\<exists>r. stage_of s' = (stage_of s)(t := Returned r))"
  by (rule exI, rule conjI, rule slot_run_Cons [OF slot_step.reported [OF assms] slot_run.nothing])
    (auto simp: finish_request_def)

lemma from_cleared:
  assumes "stage_of s t = Cleared what"
  shows "\<exists>es s'. slot_run s (Return t result # es) s' \<and> answers ans es \<and> length es \<le> 1 \<and> error_slot s' = None
    \<and> (\<exists>r. stage_of s' = (stage_of s)(t := Returned r))"
proof (cases result)
  case (Inl err)
  let ?s = "s\<lparr>stage_of := (stage_of s)(t := Failing what err)\<rparr>"
  obtain s' where "slot_run ?s [Report t] s'" "error_slot s' = None" "\<exists>r. stage_of s' = (stage_of s)(t := Returned r)"
    using from_failing [of ?s t what err] by auto
  then show ?thesis
    using slot_run_Cons [OF slot_step.failed [OF assms]] Inl by (intro exI [of _ "[Report t]"]) (auto simp: answers_def)
next
  case (Inr x)
  then show ?thesis
    using slot_run_Cons [OF slot_step.succeeded [OF assms, of x] slot_run.nothing]
    by (intro exI [of _ "[]"] exI [of _ "finish_request t (Inr x) s"]) (auto simp: answers_def finish_request_def)
qed

lemma from_guarded:
  assumes "stage_of s t = Guarded what"
  shows "\<exists>es s'. slot_run s es s' \<and> answers ans es \<and> length es \<le> 3 \<and> error_slot s' = None
    \<and> (\<exists>r. stage_of s' = (stage_of s)(t := Returned r))"
proof -
  let ?s = "(clear_slot s)\<lparr>stage_of := (stage_of s)(t := Cleared what)\<rparr>"
  obtain es s' where es: "slot_run ?s (Return t (ans t) # es) s'" "answers ans es" "length es \<le> 1" "error_slot s' = None"
      "\<exists>r. stage_of s' = (stage_of s)(t := Returned r)"
    using from_cleared [of ?s t what "ans t" ans] by auto
  then have "slot_run s (Clear t # Return t (ans t) # es) s'"
    using slot_run_Cons [OF slot_step.cleared [OF assms]] by blast
  then show ?thesis
    using es by (intro exI [of _ "Clear t # Return t (ans t) # es"] exI [of _ s']) (auto simp: answers_def)
qed

lemma mutex_comes_free:
  assumes "slot_inv whats es s"
  shows "\<exists>es' s'. slot_run s es' s' \<and> answers ans es' \<and> length es' \<le> 3 \<and> error_slot s' = None
    \<and> (\<forall>t. stage_of s' t = stage_of s t \<or> (\<exists>r. stage_of s' t = Returned r))"
proof (cases "error_slot s")
  case None
  then show ?thesis by (intro exI [of _ "[]"] exI [of _ s]) (auto simp: answers_def slot_run.nothing)
next
  case (Some u)
  have ok: "request_ok whats es s u" using assms by (simp add: slot_inv_def)
  have "\<exists>es' s'. slot_run s es' s' \<and> answers ans es' \<and> length es' \<le> 3 \<and> error_slot s' = None
      \<and> (\<exists>r. stage_of s' = (stage_of s)(u := Returned r))"
  proof (cases "stage_of s u")
    case (Guarded what)
    then show ?thesis by (rule from_guarded)
  next
    case (Cleared what)
    then obtain es' s' where "slot_run s (Return u (ans u) # es') s'" "answers ans es'" "length es' \<le> 1" "error_slot s' = None"
        "\<exists>r. stage_of s' = (stage_of s)(u := Returned r)"
      using from_cleared [of s u what "ans u" ans] by blast
    then show ?thesis by (intro exI [of _ "Return u (ans u) # es'"] exI [of _ s']) (auto simp: answers_def)
  next
    case (Failing what err)
    then obtain s' where "slot_run s [Report u] s'" "error_slot s' = None" "\<exists>r. stage_of s' = (stage_of s)(u := Returned r)"
      using from_failing [of s u what err] by blast
    then show ?thesis by (intro exI [of _ "[Report u]"] exI [of _ s']) (auto simp: answers_def)
  qed (use ok Some in \<open>auto simp: request_ok_def\<close>)
  then show ?thesis by (metis fun_upd_apply)
qed

text \<open>A request on its own whose call fails while the library raises \<open>rs\<close>, served one event per poll.\<close>

lemma slot_run_raised: "slot_run s (map Raised rs) (s\<lparr>events := events s @ rs\<rparr>)"
proof (induction rs arbitrary: s)
  case Nil
  then show ?case by (simp add: slot_run.nothing)
next
  case (Cons why rs)
  from slot_run_Cons [OF slot_step.raised Cons.IH] show ?case by simp
qed

lemma failing_request:
  assumes "stage_of s t = Asking what" and "error_slot s = None" and "events s @ rs = why # later"
  shows "\<exists>s'. slot_run s ([Acquire t, Clear t, Return t (Inl err)] @ map Raised rs @ [Poll t (Some why), Report t]) s'
    \<and> stage_of s' = (stage_of s)(t := Returned (Inl (failure_report err why what))) \<and> error_slot s' = None \<and> events s' = later"
proof -
  let ?s1 = "acquire t what s"
  let ?s2 = "(clear_slot ?s1)\<lparr>stage_of := (stage_of ?s1)(t := Cleared what)\<rparr>"
  let ?s3 = "?s2\<lparr>stage_of := (stage_of ?s2)(t := Failing what err)\<rparr>"
  let ?s4 = "?s3\<lparr>events := events ?s3 @ rs\<rparr>"
  let ?s5 = "serve 1 ?s4"
  let ?s6 = "finish_request t (Inl (failure_report err (case last_error ?s5 of Some why \<Rightarrow> why | None \<Rightarrow> error_text err) what)) ?s5"
  have 5: "last_error ?s5 = Some why" "events ?s5 = later"
    using assms(3) by (simp_all add: serve_def clear_slot_def acquire_def on_error_def)
  have "slot_step (Poll t (last_error ?s5)) ?s4 ?s5" "slot_step (Report t) ?s5 ?s6"
    by (rule slot_step.intros, simp, simp add: clear_slot_def) (rule slot_step.intros, simp)
  then have "slot_run ?s4 [Poll t (Some why), Report t] ?s6"
    unfolding 5(1) by (blast intro: slot_run_Cons slot_run.nothing)
  then have "slot_run ?s3 (map Raised rs @ [Poll t (Some why), Report t]) ?s6"
    using slot_run_append slot_run_raised by blast
  moreover have "slot_step (Acquire t) s ?s1" "slot_step (Clear t) ?s1 ?s2" "slot_step (Return t (Inl err)) ?s2 ?s3"
    by (intro slot_step.intros; simp add: assms acquire_def)+
  ultimately have "slot_run s ([Acquire t, Clear t, Return t (Inl err)] @ map Raised rs @ [Poll t (Some why), Report t]) ?s6"
    by (simp only: append_Cons append_Nil) (blast intro: slot_run_Cons)
  then show ?thesis
    using 5 by (intro exI [of _ ?s6]) (simp add: finish_request_def serve_def acquire_def)
qed

section \<open>Properties\<close>

text \<open>C5: However the requests on a shared client interleave, and whenever the library queues its error
  events: a request that has returned made its one call, and returned what \<^verbatim>\<open>observed\<close> taken as one
  operation returns for that call and for the events its own polls served, so no other request's
  clearing, polling or failing comes between; and every reason it was served the library had raised.\<close>
theorem observed_is_atomic:
  assumes "slot_run (shared slot queue whats) es s" and "stage_of s t = Returned r"
  shows "(\<exists>result. outcomes_of t es = [result] \<and> r = fst (observed (whats t) result (polls_of t es) slot'))
    \<and> (\<forall>why. Some why \<in> set (polls_of t es) \<longrightarrow> why \<in> set queue \<union> set (raised_by es))"
proof -
  have "request_ok whats es s t" using slot_run_inv [OF assms(1)] by (simp add: slot_inv_def)
  then obtain result where "outcomes_of t es = [result]" "r = fst (observed (whats t) result (polls_of t es) None)"
    using assms(2) by (auto simp: request_ok_def)
  then show ?thesis using served_was_raised [OF assms(1)] observed_slot [of "whats t" result _ None slot'] by auto
qed

text \<open>C32: No request on a shared client waits for ever: whatever has happened so far and whatever the
  calls give, it can return within seven more steps - the request inside the mutex leaves it in at
  most three, and then it takes four of its own.\<close>
theorem every_request_can_return:
  assumes "slot_run (shared slot queue whats) es s"
  shows "\<exists>es' s'. slot_run (shared slot queue whats) (es @ es') s' \<and> answers ans es' \<and> length es' \<le> 7
    \<and> (\<exists>r. stage_of s' t = Returned r)"
proof -
  obtain es1 s1 where 1: "slot_run s es1 s1" "answers ans es1" "length es1 \<le> 3" "error_slot s1 = None"
      "stage_of s1 t = stage_of s t \<or> (\<exists>r. stage_of s1 t = Returned r)"
    using mutex_comes_free [OF slot_run_inv [OF assms]] by blast
  have run1: "slot_run (shared slot queue whats) (es @ es1) s1" using slot_run_append [OF 1(1) assms] .
  have ok: "request_ok whats (es @ es1) s1 t" using slot_run_inv [OF run1] by (simp add: slot_inv_def)
  have "\<exists>es2 s2. slot_run s1 es2 s2 \<and> answers ans es2 \<and> length es2 \<le> 4 \<and> (\<exists>r. stage_of s2 t = Returned r)"
  proof (cases "stage_of s1 t")
    case (Asking what)
    have "stage_of (acquire t what s1) t = Guarded what" by (simp add: acquire_def)
    then obtain es2 s2 where "slot_run (acquire t what s1) es2 s2" "answers ans es2" "length es2 \<le> 3"
        "\<exists>r. stage_of s2 t = Returned r"
      using from_guarded [of "acquire t what s1" t what ans] by auto
    then show ?thesis
      using slot_run_Cons [OF slot_step.acquired [OF Asking 1(4)]]
      by (intro exI [of _ "Acquire t # es2"] exI [of _ s2]) (auto simp: answers_def)
  next
    case (Returned r)
    then show ?thesis by (intro exI [of _ "[]"] exI [of _ s1]) (auto simp: answers_def slot_run.nothing)
  qed (use ok 1(4) in \<open>auto simp: request_ok_def\<close>)
  then obtain es2 s2 where 2: "slot_run s1 es2 s2" "answers ans es2" "length es2 \<le> 4" "\<exists>r. stage_of s2 t = Returned r"
    by blast
  have "slot_run (shared slot queue whats) (es @ (es1 @ es2)) s2" using slot_run_append [OF 2(1) run1] by simp
  moreover have "answers ans (es1 @ es2)" using 1(2) 2(2) by (auto simp: answers_def)
  ultimately show ?thesis using 1(3) 2(3,4) by (intro exI [of _ "es1 @ es2"] exI [of _ s2]) simp
qed

text \<open>C20: Beginning a request clears the slot but not the queue behind it: when the library raises two
  events for one failure and a poll serves one, the second reason waits and is reported, and
  classified, as that of the next request that fails, while that request's own reason stays queued for
  the one after - so a transport failure can count as rejected credentials, and a rejection as a
  transport failure.\<close>
theorem leftover_reason_is_reported:
  assumes "t \<noteq> u"
  shows "\<exists>s. slot_run (shared None [] whats :: 'b shared_client)
      ([Acquire t, Clear t, Return t (Inl err)] @ map Raised [first, second] @ [Poll t (Some first), Report t]
       @ [Acquire u, Clear u, Return u (Inl err')] @ map Raised [own] @ [Poll u (Some second), Report u]) s
    \<and> stage_of s u = Returned (Inl (failure_report err' second (whats u)))
    \<and> current_context (failure_report err' second (whats u))
      = (if is_auth_failure (Some err') (Some second) then Authentication else Kafka)
    \<and> events s = [own]"
proof -
  let ?s = "shared None [] whats :: 'b shared_client"
  have "stage_of ?s t = Asking (whats t)" "error_slot ?s = None" "events ?s @ [first, second] = first # [second]"
    by (simp_all add: shared_def)
  from failing_request [OF this, of err] obtain s1 where 1: "slot_run ?s
        ([Acquire t, Clear t, Return t (Inl err)] @ map Raised [first, second] @ [Poll t (Some first), Report t]) s1"
      "stage_of s1 = (stage_of ?s)(t := Returned (Inl (failure_report err first (whats t))))"
      "error_slot s1 = None" "events s1 = [second]"
    by blast
  have u: "stage_of s1 u = Asking (whats u)" using assms by (simp add: 1(2) shared_def)
  obtain s2 where 2: "slot_run s1 ([Acquire u, Clear u, Return u (Inl err')] @ map Raised [own] @ [Poll u (Some second), Report u]) s2"
      "stage_of s2 u = Returned (Inl (failure_report err' second (whats u)))" "events s2 = [own]"
    using failing_request [OF u 1(3), of "[own]" second "[own]" err'] 1(4) by auto
  show ?thesis
    using slot_run_append [OF 2(1) 1(1)] 2(2,3)
    by (intro exI [of _ s2]) (simp add: failure_report_def fail_with_def attach_def new_report_def)
qed

section \<open>Witnesses\<close>

definition no_route :: kafka_error where
  "no_route = \<lparr>rdkafka_error_code = Some (RD_Other 195), error_text = ''Broker transport failure''\<rparr>"

theorem leftover_reason_is_reported_witness:
  "\<exists>es s. slot_run (shared None [] (\<lambda>_. ''brokers'') :: unit shared_client) es s
    \<and> stage_of s 2 = Returned (Inl (failure_report no_route ''SASL authentication error'' ''brokers''))"
  using leftover_reason_is_reported
    [of 1 2 "\<lambda>_. ''brokers''" no_route "''connection refused''" "''SASL authentication error''" no_route "''timed out''"]
  by auto

theorem observed_is_atomic_witness:
  "\<exists>es s r result. slot_run (shared None [] (\<lambda>_. ''topics'') :: unit shared_client) es s \<and> stage_of s 1 = Returned r
    \<and> outcomes_of 1 es = [result] \<and> r = fst (observed ''topics'' result (polls_of 1 es) (Some ''left over''))"
proof -
  let ?s = "shared None [] (\<lambda>_. ''topics'') :: unit shared_client"
  let ?es = "[Acquire 1, Clear 1, Return 1 (Inl no_route)] @ map Raised [''refused''] @ [Poll 1 (Some ''refused''), Report 1]"
  have "stage_of ?s 1 = Asking ''topics''" "error_slot ?s = None" "events ?s @ [''refused''] = ''refused'' # []"
    by (simp_all add: shared_def)
  from failing_request [OF this, of no_route] obtain s where s: "slot_run ?s ?es s"
      "stage_of s = (stage_of ?s)(1 := Returned (Inl (failure_report no_route ''refused'' ''topics'')))"
    by blast
  let ?r = "Inl (failure_report no_route ''refused'' ''topics'') :: report + unit"
  have "stage_of s 1 = Returned ?r" by (simp add: s(2))
  from observed_is_atomic [OF s(1) this, of "Some ''left over''"] this s(1) show ?thesis by blast
qed

theorem every_request_can_return_witness:
  "\<exists>es s. slot_run (shared None [''refused''] (\<lambda>_. ''topics'') :: unit shared_client) ([Acquire 1] @ es) s
    \<and> length es \<le> 7 \<and> (\<exists>r. stage_of s 2 = Returned r)"
proof -
  let ?s = "shared None [''refused''] (\<lambda>_. ''topics'') :: unit shared_client"
  have "slot_step (Acquire 1) ?s (acquire 1 ''topics'' ?s)" by (intro slot_step.intros) (simp_all add: shared_def)
  then have "slot_run ?s [Acquire 1] (acquire 1 ''topics'' ?s)" by (blast intro: slot_run_Cons slot_run.nothing)
  from every_request_can_return [OF this, where t = 2 and ans = "\<lambda>_. Inr ()"] show ?thesis by blast
qed

end
