(* ===== verification/Well_Typed.thy ===== *)
theory Well_Typed
  imports Session
begin

text \<open>
  The types the stored data promises and the code relies on, as an invariant of every session: the
  keys of the three tables, the enumerations stored as text that must read back, the width of the
  counter of rejections - and no dangling references: whatever the registry and the pools remember of a
  connection, they remember of a saved one.
\<close>

section \<open>Definitions\<close>

text \<open>The rows of a database: unique keys, readable enumerations, known schema formats.\<close>

definition stored_ok :: "connection_row list \<Rightarrow> tab list \<Rightarrow> schema_table \<Rightarrow> bool" where
  "stored_ok rows tabs schemas \<longleftrightarrow>
     distinct (map conn_id rows) \<and> (\<forall>r\<in>set rows. \<exists>c. into_connection r = Inr c)
     \<and> distinct (map tab_id tabs)
     \<and> distinct (map fst schemas) \<and> (\<forall>k\<in>fst ` set schemas. snd (snd k) \<in> {''avro'', ''protobuf''})"

definition saved_ids :: "('c, 'a, 'h) app_state \<Rightarrow> string set" where
  "saved_ids st = conn_id ` set (db_connections st)"

text \<open>Something is remembered of a connection outside the database.\<close>

definition mentions :: "string \<Rightarrow> ('c, 'a, 'h) app_state \<Rightarrow> bool" where
  "mentions i st \<longleftrightarrow>
     is_connected i (connections st) \<or> auth_failures (connections st) i \<noteq> None
     \<or> (\<exists>topic. write_denied_reason i topic (connections st) \<noteq> None)
     \<or> metadata_clients (kafka st) i \<noteq> None \<or> admin_clients (kafka st) i \<noteq> None \<or> schema_registry st i \<noteq> None"

definition counts_ok :: "registry \<Rightarrow> bool" where
  "counts_ok s \<longleftrightarrow> (\<forall>i e. auth_failures s i = Some e \<longrightarrow> 1 \<le> attempts e \<and> attempts e < 2 ^ 32)"

definition well_typed :: "('c, 'a, 'h) app_state \<Rightarrow> bool" where
  "well_typed st \<longleftrightarrow>
     stored_ok (db_connections st) (db_tabs st) (db_schemas st)
     \<and> (\<forall>i. mentions i st \<longrightarrow> i \<in> saved_ids st) \<and> counts_ok (connections st)"

section \<open>Tables\<close>

lemma row_of_reads: "\<exists>c. into_connection (row_of i created updated n) = Inr c"
  using into_row_of by blast

lemma create_stored_ok:
  "stored_ok rows tabs schemas \<Longrightarrow> stored_ok (snd (conn_create up i now n rows)) tabs schemas"
  "set rows \<subseteq> set (snd (conn_create up i now n rows))"
  by (auto simp: stored_ok_def conn_create_def Let_def row_of_reads)

lemma update_stored_ok:
  assumes "stored_ok rows tabs schemas"
  shows "stored_ok (snd (conn_update up i now n rows)) tabs schemas"
    and "conn_id ` set (snd (conn_update up i now n rows)) = conn_id ` set rows"
proof -
  have ids: "map conn_id (map (\<lambda>r. if conn_id r = i then row_of i (created_at r) now n else r) rows) = map conn_id rows"
    by simp
  show "stored_ok (snd (conn_update up i now n rows)) tabs schemas"
    using assms ids by (auto simp: stored_ok_def conn_update_def Let_def row_of_reads simp del: map_map)
  show "conn_id ` set (snd (conn_update up i now n rows)) = conn_id ` set rows"
    using ids by (auto simp: conn_update_def Let_def simp flip: set_map simp del: map_map)
qed

lemma delete_stored_ok:
  "stored_ok rows tabs schemas \<Longrightarrow> stored_ok (snd (conn_delete up i rows)) tabs schemas"
  "conn_id ` set (snd (conn_delete up i rows)) = (if up then conn_id ` set rows - {i} else conn_id ` set rows)"
  by (auto simp: stored_ok_def conn_delete_def Let_def distinct_map_filter)

lemma import_stored_ok:
  "stored_ok rows tabs schemas \<Longrightarrow> stored_ok (snd (import_all up ps k new_row rows)) tabs schemas
    \<and> set rows \<subseteq> set (snd (import_all up ps k new_row rows))"
proof (induction up ps k new_row rows rule: import_all.induct)
  case (2 up p ps k new_row rows)
  let ?new = "conn_create up (fst (new_row k)) (snd (new_row k)) (new_of_portable p) rows"
  obtain result rows' where new: "?new = (result, rows')" by fastforce
  have "stored_ok rows' tabs schemas" "set rows \<subseteq> set rows'"
    using create_stored_ok(1) [OF 2(2), of up "fst (new_row k)" "snd (new_row k)" "new_of_portable p"]
      create_stored_ok(2) [of rows up "fst (new_row k)" "snd (new_row k)" "new_of_portable p"] new
    by simp_all
  then show ?case using 2(1) new by (cases result) auto
qed simp

lemma import_command_stored_ok:
  assumes "stored_ok rows tabs schemas"
  shows "stored_ok (snd (connections_import up from_json file_text new_row rows)) tabs schemas
    \<and> set rows \<subseteq> set (snd (connections_import up from_json file_text new_row rows))"
proof -
  have "stored_ok rows' tabs schemas \<and> set rows \<subseteq> set rows'" if "import_all up ps 0 new_row rows = (result, rows')"
    for ps result rows'
    using import_stored_ok [OF assms, of up ps 0 new_row] that by simp
  then show ?thesis
    using assms by (auto simp: connections_import_def Let_def split: option.split sum.split prod.split)
qed

lemma tabs_stored_ok:
  assumes "stored_ok rows tabs schemas"
  shows "stored_ok rows (snd (tabs_create up i name tabs)) schemas"
    and "stored_ok rows (snd (tabs_rename up i name tabs)) schemas"
    and "stored_ok rows (snd (tabs_delete up i tabs)) schemas"
    and "stored_ok rows (snd (tabs_reorder up ids tabs)) schemas"
proof -
  have "map tab_id (reposition p ids tabs) = map tab_id tabs" for p
    by (induction p ids tabs rule: reposition.induct) (auto simp: comp_def)
  moreover have "map tab_id (map (\<lambda>t. if tab_id t = i then t\<lparr>tab_name := name\<rparr> else t) tabs) = map tab_id tabs" by simp
  ultimately show "stored_ok rows (snd (tabs_rename up i name tabs)) schemas" "stored_ok rows (snd (tabs_reorder up ids tabs)) schemas"
    using assms by (simp_all add: stored_ok_def tabs_rename_def tabs_reorder_def Let_def del: map_map)
  show "stored_ok rows (snd (tabs_create up i name tabs)) schemas" "stored_ok rows (snd (tabs_delete up i tabs)) schemas"
    using assms by (auto simp: stored_ok_def tabs_create_def tabs_delete_def Let_def distinct_map_filter)
qed

lemma fst_upsert: "fst ` set (upsert k v rows) = insert k (fst ` set rows)"
  by (induction k v rows rule: upsert.induct) auto

lemma distinct_upsert: "distinct (map fst rows) \<Longrightarrow> distinct (map fst (upsert k v rows))"
proof (induction k v rows rule: upsert.induct)
  case (2 k v j w rows)
  then show ?case using fst_upsert [of k v rows] by auto
qed simp

lemma schemas_stored_ok:
  assumes "stored_ok rows tabs schemas"
  shows "stored_ok rows tabs (snd (schema_set up c topic format s schemas))"
    and "stored_ok rows tabs (snd (schema_delete up c topic format schemas))"
    and "stored_ok rows tabs (snd (schema_delete_all up c schemas))"
proof -
  have "\<forall>k\<in>fst ` set (upsert (c, topic, format) s schemas). snd (snd k) \<in> {''avro'', ''protobuf''}"
    if "format \<in> {''avro'', ''protobuf''}"
    unfolding fst_upsert using that assms by (simp add: stored_ok_def)
  then show "stored_ok rows tabs (snd (schema_set up c topic format s schemas))"
    using assms by (simp add: stored_ok_def schema_set_def distinct_upsert)
qed (use assms in \<open>auto simp: stored_ok_def schema_delete_def schema_delete_all_def distinct_map_filter\<close>)

lemma into_connection_id: "into_connection r = Inr c \<Longrightarrow> conn_id c = conn_id r"
  by (auto simp: into_connection_def split: option.splits)

lemma into_connections_ok:
  "\<forall>r\<in>set rows. \<exists>c. into_connection r = Inr c \<Longrightarrow>
    \<exists>cs. into_connections rows = Inr cs \<and> map conn_id cs = map conn_id rows"
proof (induction rows)
  case (Cons r rows)
  then obtain c cs where "into_connection r = Inr c" "into_connections rows = Inr cs" "map conn_id cs = map conn_id rows"
    by auto
  then show ?case using into_connection_id [of r c] by simp
qed simp

text \<open>What well-typed rows are good for: everything saved can be listed and loaded.\<close>

lemma stored_ok_reads:
  assumes "stored_ok rows tabs schemas"
  shows "\<exists>cs. conn_list True rows = Inr cs \<and> map conn_id cs = map conn_id (sort_key created_at rows)"
    and "(\<exists>c. conn_get True rows i = Inr c) \<longleftrightarrow> i \<in> conn_id ` set rows"
proof -
  show "\<exists>cs. conn_list True rows = Inr cs \<and> map conn_id cs = map conn_id (sort_key created_at rows)"
    using assms into_connections_ok [of "sort_key created_at rows"] by (simp add: conn_list_def stored_ok_def)
  show "(\<exists>c. conn_get True rows i = Inr c) \<longleftrightarrow> i \<in> conn_id ` set rows"
  proof (cases "find (\<lambda>r. conn_id r = i) rows")
    case None
    then show ?thesis using find_None_id [of i rows] by (simp add: conn_get_def)
  next
    case (Some r)
    then have "r \<in> set rows" "conn_id r = i" by (auto simp: find_Some_iff)
    then show ?thesis using assms Some by (auto simp: conn_get_def stored_ok_def)
  qed
qed

section \<open>Requests\<close>

text \<open>An operation that leaves the tables alone and remembers nothing new of any connection but \<open>i\<close>.\<close>

definition remembers_only :: "string \<Rightarrow> ('c, 'a, 'h) app_state \<Rightarrow> ('c, 'a, 'h) app_state \<Rightarrow> bool" where
  "remembers_only i st st' \<longleftrightarrow>
     db_connections st' = db_connections st \<and> db_tabs st' = db_tabs st \<and> db_schemas st' = db_schemas st
     \<and> (\<forall>j. j \<noteq> i \<and> mentions j st' \<longrightarrow> mentions j st)
     \<and> (counts_ok (connections st) \<longrightarrow> counts_ok (connections st'))"

text \<open>Well-typed tables with at least the connections there were, and nothing new remembered.\<close>

lemma well_typed_forget:
  assumes "well_typed st" and "stored_ok (db_connections st') (db_tabs st') (db_schemas st')" and "saved_ids st \<subseteq> saved_ids st'"
    and "\<And>i. mentions i st' \<Longrightarrow> mentions i st" and "counts_ok (connections st')"
  shows "well_typed st'"
  using assms unfolding well_typed_def by blast

lemma well_typed_stored: "well_typed st \<Longrightarrow> stored_ok (db_connections st) (db_tabs st) (db_schemas st)"
  and well_typed_counts: "well_typed st \<Longrightarrow> counts_ok (connections st)"
  by (simp_all add: well_typed_def)

lemma remembers_only_well_typed:
  "remembers_only i st st' \<Longrightarrow> i \<in> saved_ids st \<Longrightarrow> well_typed st \<Longrightarrow> well_typed st'"
  unfolding remembers_only_def well_typed_def saved_ids_def by metis

lemma remembers_only_trans:
  "remembers_only i st st' \<Longrightarrow> remembers_only i st' st'' \<Longrightarrow> remembers_only i st st''"
  by (auto simp: remembers_only_def)

lemma counts_ok_events:
  "counts_ok s \<Longrightarrow> counts_ok (record_auth_failure i why s)"
  "counts_ok s \<Longrightarrow> counts_ok (clear_auth_failures i s)"
  "counts_ok s \<Longrightarrow> counts_ok (record_auth_success i s)"
  "counts_ok (mark_connected i s) = counts_ok s" "counts_ok (mark_disconnected i s) = counts_ok s"
  "counts_ok (record_write_denied i topic why s) = counts_ok s"
  by (auto simp: counts_ok_def registry_defs record_auth_success_def Let_def sat_add_def split: option.splits if_splits)

lemma remembers_only_pools:
  "keeps_others i (kafka st) k \<Longrightarrow> remembers_only i st (st\<lparr>kafka := k\<rparr>)"
  "remembers_only i st (st\<lparr>fetch_cancellations := cs\<rparr>)"
  "remembers_only i st (st\<lparr>kafka := drop_pooled_client i (kafka st)\<rparr>)"
  by (auto simp: remembers_only_def keeps_others_def mentions_def drop_pooled_client_def)

lemma remembers_only_registry:
  "remembers_only i st (st\<lparr>connections := record_auth_failure i why (connections st)\<rparr>)"
  "remembers_only i st (st\<lparr>connections := clear_auth_failures i (connections st)\<rparr>)"
  "remembers_only i st (st\<lparr>connections := record_auth_success i (connections st)\<rparr>)"
  "remembers_only i st (st\<lparr>connections := mark_connected i (connections st)\<rparr>)"
  "remembers_only i st (st\<lparr>connections := record_write_denied i topic why (connections st)\<rparr>)"
  by (auto simp: remembers_only_def counts_ok_events)
    (auto simp: mentions_def registry_defs record_auth_success_def Let_def split: if_splits)

lemmas remembers_only_intros = remembers_only_pools remembers_only_registry

lemma remembers_only_outcome:
  "remembers_only i st (record_auth_outcome i result st)"
  "remembers_only i st (record_auth_success_only i result st)"
  "remembers_only i st (record_publish i topic outcome st)"
proof -
  have rejected: "remembers_only i st' (st'\<lparr>connections := record_auth_failure i why (connections st'),
      kafka := drop_pooled_client i (kafka st')\<rparr>)" for st' :: "('a, 'b, 'c) app_state" and why
    using remembers_only_trans [OF remembers_only_registry(1) [of i st' why] remembers_only_pools(3)] by simp
  have self: "remembers_only i st' st'" for st' :: "('a, 'b, 'c) app_state" by (simp add: remembers_only_def)
  show "remembers_only i st (record_auth_outcome i result st)" "remembers_only i st (record_auth_success_only i result st)"
    using rejected [of st] self remembers_only_intros(3)
    by (auto simp: record_auth_outcome_def record_auth_success_only_def remembers_only_registry split: sum.split)
  show "remembers_only i st (record_publish i topic outcome st)"
    using rejected self remembers_only_trans [OF remembers_only_registry(3) rejected]
      remembers_only_trans [OF remembers_only_registry(3) remembers_only_registry(5)]
    by (auto simp: record_publish_def Let_def remembers_only_registry split: option.split publish_failure_kind.split)
qed

lemma conn_get_saved: "conn_get up rows i = Inr c \<Longrightarrow> i \<in> conn_id ` set rows"
  using find_None_id [of i rows] by (cases "find (\<lambda>r. conn_id r = i) rows") (auto simp: conn_get_def split: if_splits)

lemma for_request_saved: "connection_for_request st i = Inr c \<Longrightarrow> i \<in> saved_ids st"
  by (auto simp: connection_for_request_def saved_ids_def dest: conn_get_saved split: option.splits)

lemma request_well_typed:
  assumes keeps: "\<And>c k. keeps_others (conn_id c) k (snd (ask c k))"
    and rec: "keep = record_auth_outcome \<or> keep = record_auth_success_only" and st: "well_typed st"
  shows "well_typed (snd (broker_request keep ask i st))"
proof (cases "connection_for_request st i")
  case (Inr c)
  obtain result k where r: "ask c (kafka st) = (result, k)" by (cases "ask c (kafka st)")
  have "conn_id c = i" using for_request_id [OF Inr] by simp
  then have "remembers_only i st (st\<lparr>kafka := k\<rparr>)"
    using keeps [of c "kafka st"] r by (simp add: remembers_only_pools)
  then have "remembers_only i st (keep i result (st\<lparr>kafka := k\<rparr>))"
    using remembers_only_trans remembers_only_outcome(1,2) rec by blast
  then have "well_typed (keep i result (st\<lparr>kafka := k\<rparr>))"
    using remembers_only_well_typed for_request_saved [OF Inr] st by blast
  then show ?thesis by (simp add: broker_request_def Inr r)
qed (use st in \<open>simp add: broker_request_def\<close>)

lemma run_request_well_typed:
  assumes st: "well_typed st"
  shows "well_typed (snd (run_request lib req i st))"
proof (cases req)
  case (Publish json_error base64_decode topic p msgs max_size)
  show ?thesis
  proof (cases "connection_for_request st i")
    case (Inr c)
    have "well_typed (record_publish i topic outcome st)" for outcome
      using remembers_only_well_typed [OF remembers_only_outcome(3) for_request_saved [OF Inr] st] .
    then show ?thesis
      using st Publish Inr by (auto simp: connection_publish_messages_def split: option.split sum.split)
  qed (use st Publish in \<open>simp add: connection_publish_messages_def\<close>)
qed (simp_all add: request_defs request_well_typed [OF _ _ st] keeps_others_with keeps_others_config list_brokers_def list_topics_def
    list_consumer_groups_def count_topic_messages_def list_partitions_def fetch_consumer_group_lag_def)

section \<open>Commands\<close>

text \<open>A clear slate is always well-typed: it only forgets.\<close>

lemma clear_well_typed:
  assumes st: "well_typed st"
  shows "well_typed (st\<lparr>connections := clear_auth_failures i (connections st)\<rparr>)"
proof (rule well_typed_forget [OF st])
  fix j
  assume "mentions j (st\<lparr>connections := clear_auth_failures i (connections st)\<rparr>)"
  then show "mentions j st" by (auto simp: mentions_def registry_defs split: if_splits)
qed (simp_all add: saved_ids_def well_typed_stored [OF st] counts_ok_events well_typed_counts [OF st])

lemma released_well_typed:
  assumes st: "well_typed st"
  shows "well_typed (st\<lparr>kafka := drop_pooled_client i (kafka st), schema_registry := release_registry i (schema_registry st)\<rparr>)"
proof (rule well_typed_forget [OF st])
  fix j
  assume "mentions j (st\<lparr>kafka := drop_pooled_client i (kafka st), schema_registry := release_registry i (schema_registry st)\<rparr>)"
  then show "mentions j st"
    by (auto simp: mentions_def drop_pooled_client_def release_registry_def split: if_splits)
qed (simp_all add: saved_ids_def well_typed_stored [OF st] well_typed_counts [OF st])

lemma disconnect_well_typed:
  assumes st: "well_typed st"
  shows "well_typed (connection_disconnect i st)"
proof (rule well_typed_forget [OF st])
  fix j
  assume "mentions j (connection_disconnect i st)"
  then show "mentions j st"
    by (auto simp: mentions_def connection_disconnect_def registry_defs drop_pooled_client_def release_registry_def split: if_splits)
qed (simp_all add: connection_disconnect_def saved_ids_def well_typed_stored [OF st] counts_ok_events well_typed_counts [OF st])

lemma connect_well_typed:
  assumes st: "well_typed st"
  shows "well_typed (snd (connection_connect lib i st))"
proof -
  let ?st = "st\<lparr>connections := clear_auth_failures i (connections st)\<rparr>"
  have ok: "well_typed ?st" by (rule clear_well_typed [OF st])
  show ?thesis
  proof (cases "connection_for_request ?st i")
    case (Inl e)
    then show ?thesis using ok by (simp add: connection_connect_def Let_def)
  next
    case (Inr c)
    obtain result k where r: "connect c (built lib c) (probe lib) (kafka st) = (result, k)"
      by (cases "connect c (built lib c) (probe lib) (kafka st)")
    have c: "conn_id c = i" using for_request_id [OF Inr] by simp
    then have "keeps_others i (kafka ?st) k" using keeps_others_connect [of c "kafka st" "built lib c" "probe lib"] r by simp
    then have 1: "remembers_only i ?st (record_auth_outcome i result (?st\<lparr>kafka := k\<rparr>))"
      by (rule remembers_only_trans [OF remembers_only_pools(1) remembers_only_outcome(1)])
    note 2 = remembers_only_trans [OF 1 remembers_only_registry(4)]
    show ?thesis
      using remembers_only_well_typed [OF 1 for_request_saved [OF Inr] ok] remembers_only_well_typed [OF 2 for_request_saved [OF Inr] ok]
        Inr r
      by (cases result) (auto simp: connection_connect_def Let_def)
  qed
qed

lemma well_typed_tables:
  assumes "well_typed st"
  shows "stored_ok rows (db_tabs st) (db_schemas st) \<Longrightarrow> saved_ids st \<subseteq> conn_id ` set rows \<Longrightarrow> well_typed (st\<lparr>db_connections := rows\<rparr>)"
    and "stored_ok (db_connections st) tabs (db_schemas st) \<Longrightarrow> well_typed (st\<lparr>db_tabs := tabs\<rparr>)"
    and "stored_ok (db_connections st) (db_tabs st) schemas \<Longrightarrow> well_typed (st\<lparr>db_schemas := schemas\<rparr>)"
    and "well_typed (st\<lparr>db_up := up\<rparr>)"
  by (rule well_typed_forget [OF assms]; use assms in \<open>simp add: well_typed_stored well_typed_counts saved_ids_def mentions_def\<close>)+

lemma well_typed_cancellations [simp]: "well_typed (st\<lparr>fetch_cancellations := cs\<rparr>) = well_typed st"
  by (simp add: well_typed_def mentions_def saved_ids_def)

lemma update_well_typed:
  assumes st: "well_typed st"
  shows "well_typed (snd (connection_update now n i st))"
proof -
  obtain result rows where r: "conn_update (db_up st) i now n (db_connections st) = (result, rows)" by fastforce
  have rows: "well_typed (st\<lparr>db_connections := rows\<rparr>)"
    using well_typed_tables(1) [OF st] update_stored_ok [OF well_typed_stored [OF st], of "db_up st" i now n] r
    by (simp add: saved_ids_def)
  from released_well_typed [OF clear_well_typed [OF this, of i], of i] show ?thesis
    using rows r by (cases result) (simp_all add: connection_update_def)
qed

lemma delete_well_typed:
  assumes st: "well_typed st"
  shows "well_typed (snd (connection_delete i st))"
proof (cases "db_up st \<and> i \<in> saved_ids st")
  case False
  then have "filter (\<lambda>r. conn_id r \<noteq> i) (db_connections st) = db_connections st" if "db_up st"
    using that by (auto simp: saved_ids_def filter_id_conv)
  then show ?thesis using False st by (auto simp: connection_delete_def connection_delete_at_def conn_delete_def saved_ids_def Let_def)
next
  case True
  let ?rows = "filter (\<lambda>r. conn_id r \<noteq> i) (db_connections st)" and ?schemas = "filter (\<lambda>r. fst (fst r) \<noteq> i) (db_schemas st)"
  let ?st = "st\<lparr>db_connections := ?rows, db_schemas := ?schemas, connections := clear_auth_failures i (mark_disconnected i (connections st)),
      kafka := drop_pooled_client i (kafka st), schema_registry := release_registry i (schema_registry st)\<rparr>"
  have "stored_ok ?rows (db_tabs st) ?schemas"
    using well_typed_stored [OF st] by (auto simp: stored_ok_def distinct_map_filter)
  moreover have "counts_ok (clear_auth_failures i (mark_disconnected i (connections st)))"
    using st by (simp add: well_typed_def counts_ok_events)
  moreover have "j \<in> conn_id ` set ?rows" if "mentions j ?st" for j
  proof -
    have "j \<noteq> i \<and> mentions j st"
      using that by (auto simp: mentions_def registry_defs drop_pooled_client_def release_registry_def split: if_splits)
    then show ?thesis using st by (auto simp: well_typed_def saved_ids_def)
  qed
  ultimately have "well_typed ?st" by (simp add: well_typed_def saved_ids_def)
  moreover have "snd (connection_delete i st) = ?st"
    using True by (simp add: connection_delete_def connection_delete_at_def conn_delete_def schema_delete_all_def saved_ids_def Let_def)
  ultimately show ?thesis by simp
qed

lemma run_call_well_typed:
  assumes st: "well_typed st"
  shows "well_typed (snd (run_call lib call st))"
proof (cases call)
  case (Create fresh now n)
  obtain result rows where r: "conn_create (db_up st) fresh now n (db_connections st) = (result, rows)" by fastforce
  have "stored_ok rows (db_tabs st) (db_schemas st)" "saved_ids st \<subseteq> conn_id ` set rows"
    using create_stored_ok(1) [OF well_typed_stored [OF st], of "db_up st" fresh now n]
      create_stored_ok(2) [of "db_connections st" "db_up st" fresh now n] r
    by (auto simp: saved_ids_def)
  then show ?thesis using well_typed_tables(1) [OF st] Create r by (simp add: connection_create_def)
next
  case (Disconnect i)
  then show ?thesis by (simp add: disconnect_well_typed [OF st])
next
  case (Cancel r)
  then show ?thesis using st by (simp add: connection_cancel_fetch_def)
qed (simp_all add: run_request_well_typed [OF st] connect_well_typed [OF st] update_well_typed [OF st] delete_well_typed [OF st])

lemma fetch_well_typed:
  assumes st: "well_typed st"
    and "connection_fetch_messages lib sv topic flt max_size budget features enc rounds forward request_id i st = Some (result, shown, st')"
  shows "well_typed st'"
proof -
  obtain flag cs where cs: "begin_for_connection request_id i (fetch_cancellations st) = (flag, cs)"
    by (cases "begin_for_connection request_id i (fetch_cancellations st)")
  show ?thesis
  proof (cases "connection_for_request st i")
    case (Inl e)
    then show ?thesis using assms cs by (auto simp: connection_fetch_messages_def)
  next
    case (Inr c)
    obtain client k where k: "metadata_client c (built lib c) (kafka st) = (client, k)"
      by (cases "metadata_client c (built lib c) (kafka st)")
    have "keeps_others i (kafka st) k"
      using keeps_others_metadata [of c "kafka st" "built lib c"] k for_request_id [OF Inr] by simp
    then have "remembers_only i st (st\<lparr>kafka := k, fetch_cancellations := finish request_id cs\<rparr>)"
      using remembers_only_trans [OF remembers_only_pools(1) remembers_only_pools(2)] by blast
    then have 1: "remembers_only i st (record_auth_outcome i r (st\<lparr>kafka := k, fetch_cancellations := finish request_id cs\<rparr>))"
      for r :: "report + message_fetch_result"
      by (rule remembers_only_trans [OF _ remembers_only_outcome(1)])
    have "\<exists>r :: report + message_fetch_result. st' = record_auth_outcome i r (st\<lparr>kafka := k, fetch_cancellations := finish request_id cs\<rparr>)"
      using assms(2) unfolding fetch_command_eq [OF cs Inr k] map_option_eq_Some prod.inject by blast
    then show ?thesis using remembers_only_well_typed [OF 1 for_request_saved [OF Inr] st] by blast
  qed
qed

lemma view_well_typed:
  assumes st: "well_typed (fst s)"
  shows "well_typed (fst (view dl v s))"
proof -
  obtain st cache where s: "s = (st, cache)" by (cases s)
  show ?thesis unfolding s
  proof (rule view_cases [of dl v st cache])
    show "well_typed (fst (view dl v (st, cache)))" if "fst (view dl v (st, cache)) = st" using that st s by simp
    fix j c e sid
    assume j: "conn_get (db_up st) (db_connections st) j = Inr c" and "schema_registry_endpoint c = Some e"
      and v: "fst (view dl v (st, cache)) = snd (registry_schema dl j c e sid st)"
    have "j \<in> saved_ids st" using conn_get_saved [OF j] by (simp add: saved_ids_def)
    moreover have "remembers_only j st (snd (registry_schema dl j c e sid st))"
      by (auto simp: registry_schema_def fetch_pooled_def get_or_create_def pool_get_def Let_def remembers_only_def mentions_def
          split: prod.split option.splits sum.splits if_splits)
    ultimately show "well_typed (fst (view dl v (st, cache)))" unfolding v using remembers_only_well_typed st s by auto
  qed
qed

lemma import_well_typed:
  assumes st: "well_typed st"
  shows "well_typed (snd (import_command from_json file_text new_row st))"
proof -
  obtain result rows where r: "connections_import (db_up st) from_json file_text new_row (db_connections st) = (result, rows)"
    by fastforce
  have "stored_ok rows (db_tabs st) (db_schemas st) \<and> set (db_connections st) \<subseteq> set rows"
    using import_command_stored_ok [OF well_typed_stored [OF st]] r by (metis snd_conv)
  then show ?thesis using well_typed_tables(1) [OF st] r by (auto simp: import_command_def saved_ids_def)
qed

interpretation typed: session_invariant well_typed clusters decoders
  for clusters :: "('c, 'a, 'g) cluster_lib set" and decoders :: "('s, 'p, 'd, 'm, 'cert, 'identity, 'h) decode_lib set"
proof (unfold_locales, goal_cases)
  case (4 lib st sv topic flt max_size budget features enc rounds forward request_id i result shown st')
  then show ?case using fetch_well_typed by blast
qed (simp_all add: run_call_well_typed import_well_typed view_well_typed well_typed_tables tabs_stored_ok schemas_stored_ok
    well_typed_stored topic_schema_delete_def on_tabs_def tab_create_def tab_rename_def tab_delete_def tab_reorder_def case_prod_unfold)

section \<open>Properties\<close>



end
