(* ===== verification/Source_Tests.thy ===== *)
theory Source_Tests
  imports Fetch_Math Protobuf Avro Registry Assignment Stream_Batches
begin

text \<open>
  The repository's own unit tests, evaluated on the model: every lemma runs the inputs of one of the
  test modules of \<^verbatim>\<open>backend/kafka/src/messages.rs\<close>, \<^verbatim>\<open>assignment.rs\<close>, \<^verbatim>\<open>auth.rs\<close>,
  \<^verbatim>\<open>backend/core/src/auth.rs\<close>, \<^verbatim>\<open>registry.rs\<close>, \<^verbatim>\<open>message_stream.rs\<close>, \<^verbatim>\<open>backend/protobuf/src/lib.rs\<close>,
  \<^verbatim>\<open>wire.rs\<close> and \<^verbatim>\<open>backend/avro/src/lib.rs\<close>, and states what the test asserts. They tie the definitions to
  the code from the outside; nothing else rests on them.
\<close>

section \<open>Fetch arithmetic\<close>

lemma test_fetch_shard_count:
  "fetch_shard_count 50 1048576 = MAX_FETCH_SHARDS" "fetch_shard_count 24 1048576 = MAX_FETCH_SHARDS"
  "\<forall>partitions\<in>{1..8}. fetch_shard_count partitions 1048576 = partitions"
  "fetch_shard_count 0 1048576 = 1"
  "fetch_shard_count 50 (32 * 1048576) < MAX_FETCH_SHARDS" "1 \<le> fetch_shard_count 50 (32 * 1048576)"
  "fetch_shard_count 50 (200 * 1048576) = 1"
  by (auto simp: fetch_shard_count_def MAX_FETCH_SHARDS_def SHARD_PREFETCH_CEILING_BYTES_def per_shard_prefetch_def)

lemma test_partition_limits:
  "partition_limits [(0, 100)] [(0, 150)] None = [(0, 50)]"
  "partition_limits [(0, 100)] [(0, 1000)] (Some 10) = [(0, 10)]"
  "partition_limits [(0, 100)] [(0, 105)] (Some 50) = [(0, 5)]"
  "partition_limits [(0, 100)] [(0, 100)] None = [(0, 0)]"
  "partition_limits [(0, 0), (1, 50)] [(0, 10), (1, 200)] (Some 20) = [(0, 10), (1, 20)]"
  by code_simp+

lemma test_distribute_total_budget:
  "distribute_total_budget [(0, 10), (1, 20)] None = Some [(0, 10), (1, 20)]"
  "distribute_total_budget [(0, 100), (1, 100)] (Some 100) = Some [(0, 50), (1, 50)]"
  "distribute_total_budget [(0, 2), (1, 100)] (Some 10) = Some [(0, 2), (1, 8)]"
  "map_option (sum_list \<circ> map snd) (distribute_total_budget [(0, 100), (1, 100), (2, 100)] (Some 100)) = Some 100"
  "distribute_total_budget [(0, 3), (1, 4)] (Some 1000) = Some [(0, 3), (1, 4)]"
  "map_option (sum_list \<circ> map snd) (distribute_total_budget [(0, 10), (1, 10), (2, 10)] (Some 2)) = Some 2"
  "distribute_total_budget [(0, 0), (1, 10)] (Some 6) = Some [(0, 0), (1, 6)]"
  by code_simp+

lemma test_offsets:
  "clamp_offset 50 0 100 = Some 50" "clamp_offset (- 5) 10 100 = Some 10" "clamp_offset 500 10 100 = Some 100"
  "newest_first_start_offset 0 1000 100 = 900" "newest_first_start_offset 950 1000 100 = 950"
  "newest_first_start_offset 0 1000 0 = 1000"
  "effective_max_messages_per_partition None = DEFAULT_MESSAGE_CAP" "effective_max_messages_per_partition (Some 50) = 50"
  "combined_start_offset (Some 50) None = Some 50" "combined_start_offset None (Some 80) = Some 80"
  "combined_start_offset None None = None"
  "combined_start_offset (Some 50) (Some 80) = Some 80" "combined_start_offset (Some 80) (Some 50) = Some 80"
  by code_simp+

lemma test_payload_budget:
  "payload_preview_slice (bytes_of ''hello world'') None = bytes_of ''hello world''"
  "payload_preview_slice (bytes_of ''hello'') (Some 4096) = bytes_of ''hello''"
  "length (payload_preview_slice (replicate 10000 120) (Some 4096)) = 4096"
  "payload_preview_slice (bytes_of ''hello'') (Some 0) = []"
  "\<not> byte_budget_reached (2 ^ 64 - 1) None"
  "\<not> byte_budget_reached 99 (Some 100)" "byte_budget_reached 100 (Some 100)" "byte_budget_reached 101 (Some 100)"
  "byte_budget_reached 500000000 (Some 1024)"
  "budgeted_payload_bytes (4 * 1024 * 1024) False = 0" "budgeted_payload_bytes (4 * 1024 * 1024) True = 4 * 1024 * 1024"
  "byte_budget_reached (budgeted_payload_bytes (8 * 1024 * 1024) True) (Some (1024 * 1024))"
  by (simp_all add: payload_preview_slice_def bytes_of_def byte_budget_reached_def budgeted_payload_bytes_def)

section \<open>Errors and verdicts\<close>

lemma test_is_auth_failure_reason:
  "is_auth_failure_reason ''SASL authentication error: Authentication failed: Invalid username or password''"
  "is_auth_failure_reason ''Authentication failed''"
  "is_auth_failure_reason ''SSL handshake failed: error:0A000086:SSL routines::certificate verify failed''"
  "is_auth_failure_reason ''certificate verify failed''" "is_auth_failure_reason ''sasl authentication error''"
  "\<not> is_auth_failure_reason ''Connect to ipv4#10.0.0.1:9092 failed: Connection refused''"
  "\<not> is_auth_failure_reason ''Local: Timed out''" "\<not> is_auth_failure_reason ''Local: Broker transport failure''"
  "\<not> is_auth_failure_reason ''Topic authorization failed for topic orders''" "\<not> is_auth_failure_reason []"
  by code_simp+

definition kafka_code :: "rd_code \<Rightarrow> kafka_error" where
  "kafka_code c = \<lparr>rdkafka_error_code = Some c, error_text = []\<rparr>"

lemma test_is_auth_failure:
  "is_auth_failure (Some (kafka_code RD_Authentication)) None"
  "is_auth_failure (Some (kafka_code RD_SaslAuthenticationFailed)) None"
  "is_auth_failure (Some (kafka_code (RD_Other 195))) (Some ''SASL authentication error: Authentication failed'')"
  "is_auth_failure None (Some ''SSL handshake failed: certificate verify failed: unable to get local issuer certificate'')"
  "\<not> is_auth_failure (Some (kafka_code (RD_Other 195))) (Some ''Connection refused'')"
  "\<not> is_auth_failure (Some (kafka_code (RD_Other 187))) None"
  "\<not> is_auth_failure (Some (kafka_code RD_TopicAuthorizationFailed)) None"
  "is_auth_failure None (Some ''sasl authentication error'')" "\<not> is_auth_failure None None"
  by code_simp+

definition after_events :: "registry_event list \<Rightarrow> registry" where
  "after_events es = fold apply_event es empty_registry"

lemma test_registry:
  "\<not> is_connected ''c1'' (after_events [])" "is_connected ''c1'' (after_events [Connected ''c1''])"
  "\<not> is_connected ''c1'' (after_events [Connected ''c1'', Disconnected ''c1''])"
  "is_connected ''c2'' (after_events [Connected ''c1'', Connected ''c2'', Disconnected ''c1''])"
  "auth_block_reason ''c1'' (after_events [AuthFailed ''c1'' ''no'']) = None"
  "auth_block_reason ''c1'' (after_events [AuthFailed ''c1'' ''no'', AuthFailed ''c1'' ''never'']) = Some ''never''"
  "\<not> is_connected ''c1'' (after_events [Connected ''c1'', AuthFailed ''c1'' ''no'', AuthFailed ''c1'' ''no''])"
  "auth_block_reason ''c1'' (after_events [AuthFailed ''c1'' ''no'', AuthSucceeded ''c1'', AuthFailed ''c1'' ''no'']) = None"
  "auth_block_reason ''c1'' (after_events [AuthFailed ''c1'' ''no'', AuthFailed ''c1'' ''no'', Cleared ''c1'', AuthFailed ''c1'' ''no'']) = None"
  "auth_block_reason ''c2'' (after_events [AuthFailed ''c1'' ''no'', AuthFailed ''c1'' ''no'', AuthFailed ''c2'' ''no'']) = None"
  "auth_block_reason ''c1'' (after_events [AuthFailed ''c1'' ''no'', AuthFailed ''c1'' ''no'', Disconnected ''c1'']) \<noteq> None"
  by (simp_all add: after_events_def registry_defs record_auth_success_def empty_registry_def Let_def sat_add_def MAX_AUTH_ATTEMPTS_def)

lemma test_write_denials:
  "write_denied_reason ''c1'' ''orders'' (after_events [WriteDenied ''c1'' ''orders'' ''first'', WriteDenied ''c1'' ''orders'' ''second'']) = Some ''second''"
  "write_denied_reason ''c1'' ''payments'' (after_events [WriteDenied ''c1'' ''orders'' ''no'']) = None"
  "write_denied_reason ''c2'' ''orders'' (after_events [WriteDenied ''c1'' ''orders'' ''no'']) = None"
  "auth_block_reason ''c1'' (after_events [WriteDenied ''c1'' ''orders'' ''no'', WriteDenied ''c1'' ''orders'' ''no'', WriteDenied ''c1'' ''orders'' ''no'']) = None"
  "write_denied_reason ''c1'' ''orders'' (after_events [WriteDenied ''c1'' ''orders'' ''no'', Cleared ''c1'']) = None"
  "write_denied_reason ''c1'' ''orders'' (after_events [Connected ''c1'', WriteDenied ''c1'' ''orders'' ''no'', Disconnected ''c1'']) = None"
  "write_denied_reason ''c1'' ''orders'' (after_events [Connected ''c1'', WriteDenied ''c1'' ''orders'' ''no'',
     AuthFailed ''c1'' ''no'', AuthFailed ''c1'' ''no'']) = None"
  by (simp_all add: after_events_def registry_defs empty_registry_def Let_def sat_add_def MAX_AUTH_ATTEMPTS_def)

section \<open>Streams and decoders\<close>

lemma test_forward_in_batches:
  "batches (snd (forward_in_batches 4 0 (map (\<lambda>m. Received m False) [0..<10]))) = [[0, 1, 2, 3], [4, 5, 6, 7], [8, 9]]"
  "forward_in_batches 64 0 (map (\<lambda>m. Received m False) [0..<7]) = (7, (snd (forward_in_batches 64 0 (map (\<lambda>m. Received m False) [0..<7]))))"
  "batches (snd (forward_in_batches 64 0 [Received (1::nat) False, Elapsed, Received 2 False])) = [[1], [2]]"
  "batches (snd (forward_in_batches 2 0 (map (\<lambda>m. Received m (4 \<le> m)) [0..<8]))) = [[0, 1], [2, 3]]"
  "batches (snd (forward_in_batches 2 0 (map (\<lambda>m. Received m True) [0..<10]))) = []"
  "reports (snd (forward_in_batches 8 25 (map (\<lambda>m. Received m False) [0..<100]))) = [25, 50, 75, 100]"
  "batches (snd (forward_in_batches 0 0 [Received (0::nat) False, Received 1 False])) = [[0], [1]]"
  by code_simp+

lemma test_consumer_assignment:
  "decode_consumer_protocol_assignment (enc_assignment 0 [(''orders'', [0])] @ []) = Inr [(''orders'', 0)]"
  "decode_consumer_protocol_assignment (enc_assignment 0 [(''orders'', [0, 1, 2])] @ []) = Inr [(''orders'', 0), (''orders'', 1), (''orders'', 2)]"
  "decode_consumer_protocol_assignment (enc_assignment 0 [(''orders'', [0]), (''payments'', [5])] @ []) = Inr [(''orders'', 0), (''payments'', 5)]"
  "decode_consumer_protocol_assignment (enc_assignment 0 [] @ []) = Inr []"
  "decode_consumer_protocol_assignment (enc_assignment 0 [(''orders'', [0])] @ (enc_int 4 4 @ bytes_of ''xyz!'')) = Inr [(''orders'', 0)]"
  by (subst assignment_roundtrip;
      simp add: topic_ok_def name_ok_def i32_ok_def i16_ok_def enc_assignment_def enc_topic_def enc_string_def owned_def
        bytes_of_def utf8_ok_ascii)+

lemma test_truncated_assignment:
  "\<exists>e. decode_consumer_protocol_assignment [0, 0] = Inl e"
  "\<exists>e. decode_consumer_protocol_assignment ([0, 0] @ [0, 0, 0, 1] @ [0, 50] @ bytes_of ''short'') = Inl e"
  by (simp_all add: decode_consumer_protocol_assignment_def read_i16_def read_i32_def read_string_def slice_def be_nat_def bytes_of_def
      signed_take_bit_def)

lemma test_confluent_header:
  "detect_confluent_header ([0, 0, 0, 0, 42, 0] @ [10, 1, 65, 16, 2]) = Some \<lparr>schema_id = 42, message_index = [0], body_offset = 6\<rparr>"
  "detect_confluent_header ([0, 0, 0, 0, 9, 4, 2, 0] @ [10, 1, 65, 16, 1]) = Some \<lparr>schema_id = 9, message_index = [1, 0], body_offset = 8\<rparr>"
  "detect_confluent_header [10, 1, 65, 16, 1] = None" "detect_confluent_header [0, 0, 1] = None"
  "detect_confluent_header ([0, 0, 0, 0, 1, 127] @ [10, 1, 65, 16, 1]) = None"
  by code_simp+

lemma test_protobuf_strategy:
  "proto_decide_decode_strategy [0, 0, 0, 0, 5, 0, 10, 1, 65] True True = ProtoManualSchema 6 [0]"
  "proto_decide_decode_strategy [10, 1, 65] True False = ProtoManualSchema 0 [0]"
  "proto_decide_decode_strategy [0, 0, 0, 0, 11, 0, 10, 1, 65] False True = ProtoSchemaRegistry 11 6 [0]"
  "proto_decide_decode_strategy [10, 1, 65] False False = ProtoRawFields 0"
  "proto_decide_decode_strategy [0, 0, 0, 0, 3, 0, 10, 1, 65] False False = ProtoRawFields 6"
  by code_simp+

lemma test_avro_strategy:
  "detect_wire_format [0, 0, 0, 0, 42, 1, 2] = Some 42" "detect_wire_format [0, 0, 0, 0] = None"
  "detect_wire_format [1, 0, 0, 0, 42, 1, 2] = None"
  "avro_decide_decode_strategy [0x4f, 0x62, 0x6a, 1, 255] True True = Inr AvroContainerFile"
  "avro_decide_decode_strategy [0x4f, 0x62, 0x6a, 1, 255] False False = Inr AvroContainerFile"
  "avro_decide_decode_strategy [0, 0, 0, 0, 7, 255] True True = Inr AvroManualSchema"
  "avro_decide_decode_strategy [1, 2, 3] True False = Inr AvroManualSchema"
  "avro_decide_decode_strategy [0, 0, 0, 0, 7, 255] False True = Inr (AvroSchemaRegistry 7)"
  "avro_decide_decode_strategy [0, 0, 0, 0, 7, 255] False False = Inl NoRegistryConfigured"
  "avro_decide_decode_strategy [1, 2, 3] False True = Inl NoSchemaAvailable" "avro_decide_decode_strategy [] False True = Inl NoSchemaAvailable"
  "avro_refusal_message NoSchemaAvailable \<noteq> avro_refusal_message NoRegistryConfigured"
  by code_simp+

lemma digit_chars:
  "char_of (48 :: nat) = CHR ''0''" "char_of (49 :: nat) = CHR ''1''" "char_of (50 :: nat) = CHR ''2''"
  "char_of (51 :: nat) = CHR ''3''" "char_of (52 :: nat) = CHR ''4''" "char_of (53 :: nat) = CHR ''5''"
  by code_simp+

lemma test_format_decimal:
  "format_decimal 5 3 = ''0.005''" "format_decimal (- 5) 3 = ''-0.005''" "format_decimal (- 1234) 2 = ''-12.34''"
  "format_decimal 0 2 = ''0.00''" "format_decimal 1234 0 = ''1234''"
  by (simp_all add: format_decimal_def show_int_def show_nat.simps digit_char_def digit_chars Let_def numeral_2_eq_2)

end
